(* ===== verification/Prelude.thy ===== *)
theory Prelude
  imports Main "HOL-Library.Word"
begin

unbundle bit_operations_syntax

text \<open>
  What the components share: the machine integers of the target (a 32-bit
  Xtensa core, plain \<open>char\<close> unsigned), faults as values, bounds-checked array
  accesses, C strings inside character buffers, and the lemma collections the
  component proofs add to the simplifier.

  A C expression whose behaviour the language leaves undefined (a store past the end
  of an array, a conversion of a floating value that does not fit, a dereference of
  an invalid pointer) is modelled as the value \<open>Inl f\<close> of the sum type
  \<open>fault + 'a\<close>, so "the code has no undefined behaviour here" is a theorem of the
  form \<open>\<exists>r. code = Inr r\<close>.
\<close>

section \<open>Machine integers\<close>

type_synonym u8 = "8 word"
type_synonym u16 = "16 word"
type_synonym u32 = "32 word"
type_synonym u64 = "64 word"

named_theorems unat_arith_simps "exact values of word operations under no-overflow conditions"
named_theorems run_simps "evaluation of fallible computations"

section \<open>Faults\<close>

datatype fault =
    Out_Of_Bounds      \<comment> \<open>access outside an array or a malloc'ed block\<close>
  | Bad_Pointer        \<comment> \<open>dereference of NULL or of a value that is no pointer\<close>
  | Float_Range        \<comment> \<open>floating value converted to an integer type it does not fit\<close>
  | Int_Overflow       \<comment> \<open>signed integer overflow\<close>
  | Div_Zero           \<comment> \<open>integer division by zero\<close>
  | Uninit_Read        \<comment> \<open>read of an indeterminate value\<close>

text \<open>Error codes of ESP-IDF.\<close>

datatype esp_err =
    ESP_OK | ESP_FAIL | ESP_ERR_INVALID_ARG | ESP_ERR_INVALID_STATE | ESP_ERR_TIMEOUT
  | ESP_ERR_NVS_NOT_FOUND | ESP_ERR_OTHER nat

definition andthen :: "'e + 'a \<Rightarrow> ('a \<Rightarrow> 'e + 'b) \<Rightarrow> 'e + 'b" where
  "andthen r f = (case r of Inl e \<Rightarrow> Inl e | Inr a \<Rightarrow> f a)"

lemma andthen_Inl [simp, run_simps]: "andthen (Inl e) f = Inl e"
  by (simp add: andthen_def)

lemma andthen_Inr [simp, run_simps]: "andthen (Inr a) f = f a"
  by (simp add: andthen_def)

lemma andthen_eq_Inr: "andthen r f = Inr b \<longleftrightarrow> (\<exists>a. r = Inr a \<and> f a = Inr b)"
  by (cases r) simp_all

lemma andthen_eq_Inl: "andthen r f = Inl e \<longleftrightarrow> r = Inl e \<or> (\<exists>a. r = Inr a \<and> f a = Inl e)"
  by (cases r) simp_all

lemma andthen_cong [fundef_cong]:
  "r = r' \<Longrightarrow> (\<And>a. r' = Inr a \<Longrightarrow> f a = g a) \<Longrightarrow> andthen r f = andthen r' g"
  by (cases r') simp_all

lemma andthen_assoc: "andthen (andthen r f) g = andthen r (\<lambda>a. andthen (f a) g)"
  by (cases r) simp_all

section \<open>Arrays\<close>

definition rd :: "'a list \<Rightarrow> nat \<Rightarrow> fault + 'a" where
  "rd xs i = (if i < length xs then Inr (xs ! i) else Inl Out_Of_Bounds)"

definition wr :: "'a list \<Rightarrow> nat \<Rightarrow> 'a \<Rightarrow> fault + 'a list" where
  "wr xs i x = (if i < length xs then Inr (xs[i := x]) else Inl Out_Of_Bounds)"

lemma takeWhile_stop: "\<not> P y \<Longrightarrow> takeWhile P (xs @ y # ys) = takeWhile P xs"
  by (induction xs) simp_all

lemma rd_in [simp, run_simps]: "i < length xs \<Longrightarrow> rd xs i = Inr (xs ! i)"
  by (simp add: rd_def)

lemma rd_out [simp, run_simps]: "length xs \<le> i \<Longrightarrow> rd xs i = Inl Out_Of_Bounds"
  by (simp add: rd_def)

lemma wr_in [simp, run_simps]: "i < length xs \<Longrightarrow> wr xs i x = Inr (xs[i := x])"
  by (simp add: wr_def)

lemma wr_out [simp, run_simps]: "length xs \<le> i \<Longrightarrow> wr xs i x = Inl Out_Of_Bounds"
  by (simp add: wr_def)

lemma rd_eq_Inr: "rd xs i = Inr x \<longleftrightarrow> i < length xs \<and> x = xs ! i"
  by (auto simp: rd_def)

lemma wr_eq_Inr: "wr xs i x = Inr ys \<longleftrightarrow> i < length xs \<and> ys = xs[i := x]"
  by (auto simp: wr_def)

section \<open>C strings in character buffers\<close>

abbreviation NUL :: char where
  "NUL \<equiv> CHR 0x00"

definition upto_nul :: "string \<Rightarrow> string" where
  "upto_nul = takeWhile (\<lambda>c. c \<noteq> NUL)"

text \<open>The string a pointer to the start of \<open>buf\<close> denotes; no terminator inside the
  buffer means the library function that reads it runs off the end.\<close>

definition cstr :: "string \<Rightarrow> fault + string" where
  "cstr buf = (if NUL \<in> set buf then Inr (upto_nul buf) else Inl Out_Of_Bounds)"

text \<open>\<open>strncpy (dst, src, n)\<close>: at most \<open>n\<close> characters, the rest of the \<open>n\<close> filled with
  NUL; characters of \<open>dst\<close> from \<open>n\<close> on are kept.\<close>

definition strncpy_to :: "string \<Rightarrow> string \<Rightarrow> nat \<Rightarrow> fault + string" where
  "strncpy_to dst src n =
     (if n \<le> length dst
      then let s = take n (upto_nul src) in Inr (s @ replicate (n - length s) NUL @ drop n dst)
      else Inl Out_Of_Bounds)"

text \<open>\<open>strcpy (dst, src)\<close> and \<open>sprintf (dst, "%s", src)\<close>: the whole string and its terminator.\<close>

definition strcpy_to :: "string \<Rightarrow> string \<Rightarrow> fault + string" where
  "strcpy_to dst src =
     (let s = upto_nul src in
      if length s < length dst then Inr (s @ NUL # drop (Suc (length s)) dst)
      else Inl Out_Of_Bounds)"

lemma upto_nul_no_nul [simp]: "NUL \<notin> set (upto_nul s)"
  unfolding upto_nul_def by (metis (mono_tags, lifting) set_takeWhileD)

lemma upto_nul_id [simp]: "NUL \<notin> set s \<Longrightarrow> upto_nul s = s"
  unfolding upto_nul_def by (rule takeWhile_eq_all_conv [THEN iffD2]) auto

lemma upto_nul_idem [simp]: "upto_nul (upto_nul s) = upto_nul s"
  by (rule upto_nul_id) simp

lemma upto_nul_Nil [simp]: "upto_nul [] = []"
  by (simp add: upto_nul_def)

lemma upto_nul_Cons: "upto_nul (c # s) = (if c = NUL then [] else c # upto_nul s)"
  by (simp add: upto_nul_def)

lemma upto_nul_append_nul [simp]: "NUL \<notin> set s \<Longrightarrow> upto_nul (s @ NUL # t) = s"
  unfolding upto_nul_def by (subst takeWhile_append2) auto

lemma no_nul_take: "NUL \<notin> set s \<Longrightarrow> NUL \<notin> set (take n s)"
  by (auto dest: in_set_takeD)

lemma cstr_terminated [simp]: "NUL \<notin> set s \<Longrightarrow> cstr (s @ NUL # t) = Inr s"
  by (simp add: cstr_def)

lemma length_strncpy_to: "strncpy_to dst src n = Inr d \<Longrightarrow> length d = length dst"
  by (auto simp: strncpy_to_def Let_def split: if_splits)

lemma cstr_strncpy_to:
  assumes "n < length dst" and "\<forall>c \<in> set (drop n dst). c = NUL"
  shows "\<exists>d. strncpy_to dst src n = Inr d \<and> cstr d = Inr (take n (upto_nul src))
          \<and> length d = length dst"
proof -
  let ?s = "take n (upto_nul src)"
  have nn: "NUL \<notin> set ?s" by (rule no_nul_take) simp
  have "drop n dst \<noteq> []" using assms(1) by simp
  then obtain t where t: "drop n dst = NUL # t"
    using assms(2) by (cases "drop n dst") auto
  have "\<exists>t'. replicate (n - length ?s) NUL @ drop n dst = NUL # t'"
    using t by (cases "n - length ?s") (simp_all del: length_take)
  then obtain t' where "replicate (n - length ?s) NUL @ drop n dst = NUL # t'" ..
  with nn have "cstr (?s @ replicate (n - length ?s) NUL @ drop n dst) = Inr ?s"
    by simp
  then show ?thesis using assms(1) by (simp add: strncpy_to_def Let_def)
qed

section \<open>Exact values of word operations\<close>

lemma unat_add_small [unat_arith_simps]:
  "unat a + unat b < 2 ^ LENGTH('a) \<Longrightarrow> unat (a + b :: 'a::len word) = unat a + unat b"
  by (rule unat_add_lem [THEN iffD1])

lemma unat_inc_small [unat_arith_simps]:
  "Suc (unat a) < 2 ^ LENGTH('a) \<Longrightarrow> unat (a + 1 :: 'a::len word) = Suc (unat a)"
  using unat_add_small [of a 1] by (simp add: unat_1 split: if_splits)

lemma unat_dec [unat_arith_simps]:
  "0 < unat a \<Longrightarrow> unat (a - 1 :: 'a::len word) = unat a - 1"
  by (metis One_nat_def unat_gt_0 unat_minus_one)

lemma unat_u8_lt: "unat (b :: u8) < 256"
  using unsigned_less [where 'a = nat and w = b] by simp

text \<open>\<open>(a << 8) | b\<close> of two bytes in 16 bits, and its multiple of 4.\<close>

lemma unat_join16: "unat (push_bit 8 (ucast (a :: u8)) OR ucast (b :: u8) :: u16) = 256 * unat a + unat b"
proof -
  have "push_bit 8 (ucast a) OR ucast b = push_bit 8 (ucast a) + (ucast b :: u16)"
    by (rule disjunctive_add [symmetric]) (auto simp: bit_simps dest: bit_imp_le_length)
  moreover have "unat (ucast a :: u16) = unat a"
    using unat_u8_lt [of a] by (simp add: unsigned_ucast_eq take_bit_eq_mod)
  then have "unat (push_bit 8 (ucast a) :: u16) = take_bit 16 (push_bit 8 (unat a))"
    by (simp only: unsigned_push_bit_eq) simp
  then have "unat (push_bit 8 (ucast a) :: u16) = 256 * unat a"
    using unat_u8_lt [of a] by (simp add: push_bit_eq_mult take_bit_eq_mod)
  moreover have "unat (ucast b :: u16) = unat b"
    using unat_u8_lt [of b] by (simp add: unsigned_ucast_eq take_bit_eq_mod)
  ultimately show ?thesis
    using unat_u8_lt [of a] unat_u8_lt [of b] by (simp add: unat_add_small)
qed

lemma and_not_mask: "(w :: 'a::len word) AND NOT (mask n) = push_bit n (drop_bit n w)"
  by (rule bit_word_eqI) (auto simp: bit_simps)

lemma unat_and_FFFC: "unat ((w :: u16) AND 0xFFFC) = 4 * (unat w div 4)"
proof -
  have m: "(0xFFFC :: u16) = NOT (mask 2)" by (simp add: mask_eq_exp_minus_1)
  have "unat (w AND 0xFFFC) = unat (push_bit 2 (drop_bit 2 w))" by (simp only: m and_not_mask)
  also have "\<dots> = take_bit 16 (push_bit 2 (unat w div 2 ^ 2))"
    by (simp only: unsigned_push_bit_eq unat_drop_bit_eq drop_bit_eq_div [of 2 "unat w"]) simp
  also have "\<dots> = 4 * (unat w div 4)"
    using unsigned_less [where 'a = nat and w = w] by (simp add: push_bit_eq_mult take_bit_eq_mod)
  finally show ?thesis .
qed

end
