(* ===== verification/Msg_Queue.thy ===== *)
theory Msg_Queue
  imports Prelude
begin

text \<open>
  The uplink message queue of \<open>components/CM-QUEUE/queue.c\<close>: a ring buffer of
  \<open>capacity\<close> slots of \<open>QUEUE_MAX_MSG_SIZE\<close> characters, filled by the streetlight
  timer, the mesh reader and the LoRaWAN command handler and drained by
  \<open>Brideg_LORAWAN_TX\<close>. \<open>int\<close> and \<open>unsigned\<close> members are both 32-bit words: the code
  only increments them, takes them modulo the unsigned capacity and compares them for
  equality, which C does in \<open>unsigned\<close>.

  The contract of the queue (a bounded first-in first-out list of clipped messages) is
  the locale \<open>bounded_fifo\<close>; the ring buffer interprets it for every capacity.
\<close>

section \<open>The contract: a bounded first-in first-out list\<close>

datatype 'a queue_op = Put 'a | Get

fun run_ops ::
  "('q \<Rightarrow> 'a \<Rightarrow> fault + 'q) \<Rightarrow> ('q \<Rightarrow> fault + ('m option \<times> 'q)) \<Rightarrow> 'q \<Rightarrow> 'a queue_op list
    \<Rightarrow> fault + ('m option list \<times> 'q)" where
  "run_ops put get q [] = Inr ([], q)"
| "run_ops put get q (Put x # ops) = andthen (put q x) (\<lambda>q'. run_ops put get q' ops)"
| "run_ops put get q (Get # ops) =
     andthen (get q) (\<lambda>(m, q'). andthen (run_ops put get q' ops) (\<lambda>(ms, q''). Inr (m # ms, q'')))"

fun spec_ops :: "nat \<Rightarrow> ('a \<Rightarrow> 'm) \<Rightarrow> 'm list \<Rightarrow> 'a queue_op list \<Rightarrow> 'm option list \<times> 'm list" where
  "spec_ops room clip ms [] = ([], ms)"
| "spec_ops room clip ms (Put x # ops) =
     spec_ops room clip (if length ms < room then ms @ [clip x] else ms) ops"
| "spec_ops room clip ms (Get # ops) =
     (let (out, ms') = spec_ops room clip (tl ms) ops
      in ((case ms of [] \<Rightarrow> None | m # _ \<Rightarrow> Some m) # out, ms'))"

locale bounded_fifo =
  fixes inv :: "'q \<Rightarrow> bool"
    and items :: "'q \<Rightarrow> 'm list"
    and room :: nat
    and clip :: "'a \<Rightarrow> 'm"
    and put :: "'q \<Rightarrow> 'a \<Rightarrow> fault + 'q"
    and get :: "'q \<Rightarrow> fault + ('m option \<times> 'q)"
  assumes put_law: "inv q \<Longrightarrow> \<exists>q'. put q x = Inr q' \<and> inv q' \<and>
      items q' = (if length (items q) < room then items q @ [clip x] else items q)"
    and get_law: "inv q \<Longrightarrow> \<exists>q'. get q = Inr ((case items q of [] \<Rightarrow> None | m # _ \<Rightarrow> Some m), q')
      \<and> inv q' \<and> items q' = tl (items q)"
    and room_law: "inv q \<Longrightarrow> length (items q) \<le> room"
begin

lemma runs_like_spec:
  "inv q \<Longrightarrow> \<exists>q'. run_ops put get q ops = Inr (fst (spec_ops room clip (items q) ops), q')
    \<and> inv q' \<and> items q' = snd (spec_ops room clip (items q) ops)"
proof (induction ops arbitrary: q)
  case Nil
  then show ?case by simp
next
  case (Cons op ops)
  show ?case
  proof (cases op)
    case (Put x)
    obtain q1 where q1: "put q x = Inr q1" "inv q1"
        "items q1 = (if length (items q) < room then items q @ [clip x] else items q)"
      using put_law [OF Cons.prems] by blast
    from Cons.IH [OF q1(2)] show ?thesis by (simp add: Put q1)
  next
    case Get
    obtain q1 where q1: "get q = Inr ((case items q of [] \<Rightarrow> None | m # _ \<Rightarrow> Some m), q1)"
        "inv q1" "items q1 = tl (items q)"
      using get_law [OF Cons.prems] by blast
    from Cons.IH [OF q1(2)] show ?thesis
      by (auto simp: Get q1 split: prod.splits)
  qed
qed

lemma full_drops:
  "inv q \<Longrightarrow> length (items q) = room \<Longrightarrow> \<exists>q'. put q x = Inr q' \<and> inv q' \<and> items q' = items q"
  using put_law [of q x] by auto

lemma puts_append:
  "inv q \<Longrightarrow> length (items q) + length xs \<le> room \<Longrightarrow>
    \<exists>q'. run_ops put get q (map Put xs) = Inr ([], q') \<and> inv q' \<and> items q' = items q @ map clip xs"
proof -
  assume q: "inv q" and room: "length (items q) + length xs \<le> room"
  have "spec_ops room clip ms (map Put xs) = ([], ms @ map clip xs)"
    if "length ms + length xs \<le> room" for ms
    using that by (induction xs arbitrary: ms) auto
  with room have "spec_ops room clip (items q) (map Put xs) = ([], items q @ map clip xs)"
    by blast
  with runs_like_spec [OF q, of "map Put xs"] show ?thesis by simp
qed

lemma drain_all:
  "inv q \<Longrightarrow> \<exists>q'. run_ops put get q (replicate (length (items q)) Get) = Inr (map Some (items q), q')
    \<and> inv q' \<and> items q' = []"
proof -
  assume q: "inv q"
  have "spec_ops room clip ms (replicate (length ms) (Get :: 'a queue_op)) = (map Some ms, [])" for ms
    by (induction ms) auto
  with runs_like_spec [OF q, of "replicate (length (items q)) Get"] show ?thesis by simp
qed

end

section \<open>The ring buffer\<close>

abbreviation QUEUE_MAX_MSG_SIZE :: nat where
  "QUEUE_MAX_MSG_SIZE \<equiv> 127"

record msg_queue =
  q_front :: u32
  q_rear :: u32
  q_size :: u32
  q_capacity :: u32
  q_array :: "string list"     \<comment> \<open>\<open>lpp_node_t array[]\<close>, each \<open>char msg[127]\<close>\<close>

text \<open>\<open>junk\<close> is what the malloc'ed slots hold before they are first written.\<close>

definition createQueue :: "u32 \<Rightarrow> string list \<Rightarrow> msg_queue" where
  "createQueue capacity junk =
     \<lparr>q_front = 0, q_rear = capacity - 1, q_size = 0, q_capacity = capacity, q_array = junk\<rparr>"

definition queue_init :: "string list \<Rightarrow> msg_queue" where
  "queue_init junk = createQueue 32 junk"

definition isFull :: "msg_queue \<Rightarrow> bool" where
  "isFull q = (q_size q = q_capacity q)"

definition isEmpty :: "msg_queue \<Rightarrow> bool" where
  "isEmpty q = (q_size q = 0)"

definition enqueue :: "msg_queue \<Rightarrow> string \<Rightarrow> fault + msg_queue" where
  "enqueue q item =
     (if isFull q then Inr q
      else if q_capacity q = 0 then Inl Div_Zero
      else
        let r = (q_rear q + 1) mod q_capacity q in
        andthen (rd (q_array q) (unat r)) (\<lambda>_.
        andthen (strncpy_to (replicate QUEUE_MAX_MSG_SIZE NUL) item (QUEUE_MAX_MSG_SIZE - 1)) (\<lambda>msg.
        Inr (q\<lparr>q_rear := r, q_array := (q_array q)[unat r := msg], q_size := q_size q + 1\<rparr>))))"

text \<open>\<open>dequeue\<close>, \<open>front\<close> and \<open>rear\<close> return a pointer: into the array, or the integer
  \<open>INT_MIN\<close> cast to a pointer when the queue is empty.\<close>

datatype msg_ptr = INT_MIN_ptr | Slot_ptr nat

definition dequeue :: "msg_queue \<Rightarrow> fault + (msg_ptr \<times> msg_queue)" where
  "dequeue q =
     (if isEmpty q then Inr (INT_MIN_ptr, q)
      else if q_capacity q = 0 then Inl Div_Zero
      else Inr (Slot_ptr (unat (q_front q)),
                q\<lparr>q_front := (q_front q + 1) mod q_capacity q, q_size := q_size q - 1\<rparr>))"

definition front_msg :: "msg_queue \<Rightarrow> msg_ptr" where
  "front_msg q = (if isEmpty q then INT_MIN_ptr else Slot_ptr (unat (q_front q)))"

definition rear_msg :: "msg_queue \<Rightarrow> msg_ptr" where
  "rear_msg q = (if isEmpty q then INT_MIN_ptr else Slot_ptr (unat (q_rear q)))"

text \<open>Reading the string behind such a pointer, as \<open>sprintf ("%s")\<close> does.\<close>

definition read_msg :: "msg_queue \<Rightarrow> msg_ptr \<Rightarrow> fault + string" where
  "read_msg q p =
     (case p of INT_MIN_ptr \<Rightarrow> Inl Bad_Pointer
      | Slot_ptr i \<Rightarrow> andthen (rd (q_array q) i) cstr)"

text \<open>What \<open>print_queue\<close> prints: slots \<open>0\<close> to \<open>size - 1\<close>.\<close>

fun print_slots :: "string list \<Rightarrow> nat \<Rightarrow> nat \<Rightarrow> fault + string list" where
  "print_slots arr i 0 = Inr []"
| "print_slots arr i (Suc n) =
     andthen (rd arr i) (\<lambda>slot. andthen (cstr slot) (\<lambda>m.
     andthen (print_slots arr (Suc i) n) (\<lambda>ms. Inr (m # ms))))"

definition print_queue :: "msg_queue \<Rightarrow> fault + string list" where
  "print_queue q = print_slots (q_array q) 0 (unat (q_size q))"

text \<open>The way every caller takes a message: test, dequeue and read at once
  (\<open>Brideg_LORAWAN_TX\<close> in \<open>main.c\<close>).\<close>

definition take_msg :: "msg_queue \<Rightarrow> fault + (string option \<times> msg_queue)" where
  "take_msg q =
     (if isEmpty q then Inr (None, q)
      else andthen (dequeue q) (\<lambda>(p, q'). andthen (read_msg q' p) (\<lambda>m. Inr (Some m, q'))))"

section \<open>Invariant and contents\<close>

definition slot_at :: "msg_queue \<Rightarrow> nat \<Rightarrow> nat" where
  "slot_at q k = (unat (q_front q) + k) mod unat (q_capacity q)"

definition queue_items :: "msg_queue \<Rightarrow> string list" where
  "queue_items q = map (\<lambda>k. upto_nul (q_array q ! slot_at q k)) [0..<unat (q_size q)]"

definition queue_inv :: "nat \<Rightarrow> msg_queue \<Rightarrow> bool" where
  "queue_inv n q \<longleftrightarrow>
     unat (q_capacity q) = n \<and> 0 < n \<and> n < 2 ^ 31 \<and> length (q_array q) = n \<and>
     unat (q_front q) < n \<and> unat (q_rear q) < n \<and> unat (q_size q) \<le> n \<and>
     Suc (unat (q_rear q)) mod n = (unat (q_front q) + unat (q_size q)) mod n \<and>
     (\<forall>s \<in> set (q_array q). length s = QUEUE_MAX_MSG_SIZE) \<and>
     (\<forall>k < unat (q_size q). NUL \<in> set (q_array q ! slot_at q k))"

definition clip_msg :: "string \<Rightarrow> string" where
  "clip_msg s = take (QUEUE_MAX_MSG_SIZE - 1) (upto_nul s)"

lemma queue_invD:
  assumes "queue_inv n q"
  shows "unat (q_capacity q) = n" "0 < n" "n < 2 ^ 31" "length (q_array q) = n"
    "unat (q_front q) < n" "unat (q_rear q) < n" "unat (q_size q) \<le> n"
    "Suc (unat (q_rear q)) mod n = (unat (q_front q) + unat (q_size q)) mod n"
    "\<And>i. i < n \<Longrightarrow> length (q_array q ! i) = QUEUE_MAX_MSG_SIZE"
    "\<And>k. k < unat (q_size q) \<Longrightarrow> NUL \<in> set (q_array q ! slot_at q k)"
    "q_capacity q \<noteq> 0"
  using assms by (auto simp: queue_inv_def)

lemma slot_at_upd [simp]:
  "slot_at (q\<lparr>q_rear := r, q_array := a, q_size := c\<rparr>) k = slot_at q k"
  by (simp add: slot_at_def)

lemma length_queue_items [simp]: "length (queue_items q) = unat (q_size q)"
  by (simp add: queue_items_def)

lemma isFull_iff: "queue_inv n q \<Longrightarrow> isFull q \<longleftrightarrow> unat (q_size q) = n"
  by (auto simp: isFull_def queue_inv_def word_unat_eq_iff)

lemma isEmpty_iff: "isEmpty q \<longleftrightarrow> queue_items q = []"
  by (simp add: isEmpty_def queue_items_def unat_eq_zero)

text \<open>Two different positions of the live window are different slots.\<close>

lemma slot_inj:
  assumes "j < n" "k < n" "(f + j) mod n = (f + k) mod n"
  shows "j = (k :: nat)"
proof (rule ccontr)
  assume "j \<noteq> k"
  then consider "j < k" | "k < j" by linarith
  then show False
  proof cases
    case 1
    then have "n dvd k - j" using assms(3) mod_eq_dvd_iff_nat [of "f + j" "f + k" n] by simp
    with 1 assms(2) show False by (auto dest: dvd_imp_le)
  next
    case 2
    then have "n dvd j - k" using assms(3) mod_eq_dvd_iff_nat [of "f + k" "f + j" n] by simp
    with 2 assms(1) show False by (auto dest: dvd_imp_le)
  qed
qed

section \<open>Every operation keeps the invariant and acts on the contents\<close>

lemma next_rear:
  assumes "queue_inv n q"
  shows "unat ((q_rear q + 1) mod q_capacity q) = (unat (q_front q) + unat (q_size q)) mod n"
proof -
  note q = queue_invD [OF assms]
  have "Suc (unat (q_rear q)) < 2 ^ LENGTH(32)" using q(3,6) by simp
  then have "unat (q_rear q + 1) = Suc (unat (q_rear q))" by (rule unat_inc_small)
  then show ?thesis by (simp add: unat_mod q(1,8))
qed

lemma cleared_slot:
  "\<exists>d. strncpy_to (replicate QUEUE_MAX_MSG_SIZE NUL) item (QUEUE_MAX_MSG_SIZE - 1) = Inr d
     \<and> upto_nul d = clip_msg item \<and> NUL \<in> set d \<and> length d = QUEUE_MAX_MSG_SIZE"
proof -
  have "\<exists>d. strncpy_to (replicate QUEUE_MAX_MSG_SIZE NUL) item (QUEUE_MAX_MSG_SIZE - 1) = Inr d
     \<and> cstr d = Inr (clip_msg item) \<and> length d = QUEUE_MAX_MSG_SIZE"
    using cstr_strncpy_to [of "QUEUE_MAX_MSG_SIZE - 1" "replicate QUEUE_MAX_MSG_SIZE NUL" item]
    by (simp add: clip_msg_def)
  then show ?thesis by (auto simp: cstr_def split: if_splits)
qed

lemma enqueue_full: "isFull q \<Longrightarrow> enqueue q item = Inr q"
  by (simp add: enqueue_def)

lemma enqueue_room:
  assumes inv: "queue_inv n q" and room: "unat (q_size q) < n"
  shows "\<exists>q'. enqueue q item = Inr q' \<and> queue_inv n q' \<and> q_front q' = q_front q
    \<and> queue_items q' = queue_items q @ [clip_msg item]
    \<and> (\<exists>d. q_array q' = (q_array q)[slot_at q (unat (q_size q)) := d])"
proof -
  note q = queue_invD [OF inv]
  let ?s = "unat (q_size q)"
  let ?r = "(q_rear q + 1) mod q_capacity q"
  have r: "unat ?r = slot_at q ?s" by (simp add: next_rear [OF inv] slot_at_def q(1))
  have rn: "slot_at q ?s < n" using q(2) by (simp add: slot_at_def q(1))
  have other: "slot_at q k \<noteq> slot_at q ?s" if "k < ?s" for k
    using slot_inj [of k n ?s "unat (q_front q)"] that room by (auto simp: slot_at_def q(1))
  have inb: "slot_at q k < n" for k using q(2) by (simp add: slot_at_def q(1))
  have size': "unat (q_size q + 1) = Suc ?s"
    by (rule unat_inc_small) (use room q(3) in simp)
  obtain d where d: "strncpy_to (replicate QUEUE_MAX_MSG_SIZE NUL) item (QUEUE_MAX_MSG_SIZE - 1) = Inr d"
      "upto_nul d = clip_msg item" "NUL \<in> set d" "length d = QUEUE_MAX_MSG_SIZE"
    using cleared_slot by blast
  let ?q = "q\<lparr>q_rear := ?r, q_array := (q_array q)[unat ?r := d], q_size := q_size q + 1\<rparr>"
  have run: "enqueue q item = Inr ?q"
    using room q(11) d(1) by (simp add: enqueue_def isFull_iff [OF inv] Let_def r rn q(4))
  have "queue_items ?q = queue_items q @ [clip_msg item]"
    using other [symmetric] rn by (simp add: queue_items_def size' r q(4) d(2))
  moreover have "queue_inv n ?q"
    unfolding queue_inv_def
  proof (intro conjI)
    show "Suc (unat (q_rear ?q)) mod n = (unat (q_front ?q) + unat (q_size ?q)) mod n"
      by (simp add: r size' slot_at_def q(1) mod_Suc_eq)
    show "\<forall>s \<in> set (q_array ?q). length s = QUEUE_MAX_MSG_SIZE"
      using set_update_subset_insert [of "q_array q" "slot_at q ?s" d] inv d(4)
      by (auto simp: r queue_inv_def)
    show "\<forall>k < unat (q_size ?q). NUL \<in> set (q_array ?q ! slot_at ?q k)"
    proof (intro allI impI)
      fix k
      assume "k < unat (q_size ?q)"
      then consider "k < ?s" | "k = ?s" by (auto simp: size' less_Suc_eq)
      then show "NUL \<in> set (q_array ?q ! slot_at ?q k)"
        using other [of k] q(10) [of k] d(3) rn by cases (auto simp: r q(4))
    qed
  qed (use q rn room in \<open>auto simp: r size'\<close>)
  ultimately show ?thesis using run by (auto simp: r)
qed

lemma dequeue_item:
  assumes inv: "queue_inv n q" and ne: "\<not> isEmpty q"
  shows "\<exists>q'. dequeue q = Inr (Slot_ptr (unat (q_front q)), q') \<and> queue_inv n q'
    \<and> q_array q' = q_array q \<and> queue_items q' = tl (queue_items q)
    \<and> unat (q_size q) = Suc (unat (q_size q')) \<and> unat (q_front q) = slot_at q 0"
proof -
  note q = queue_invD [OF inv]
  let ?f = "(q_front q + 1) mod q_capacity q"
  let ?q = "q\<lparr>q_front := ?f, q_size := q_size q - 1\<rparr>"
  have pos: "0 < unat (q_size q)" using ne by (simp add: isEmpty_def unat_gt_0)
  then obtain m where m: "unat (q_size q) = Suc m" using gr0_implies_Suc by blast
  then have m': "unat (q_size q - 1) = m" using unat_dec [OF pos] by simp
  have "Suc (unat (q_front q)) < 2 ^ LENGTH(32)" using q(3,5) by simp
  then have "unat (q_front q + 1) = Suc (unat (q_front q))" by (rule unat_inc_small)
  then have f: "unat ?f = Suc (unat (q_front q)) mod n" by (simp add: unat_mod q(1))
  have slot: "slot_at ?q k = slot_at q (Suc k)" for k
    by (simp add: slot_at_def f q(1) mod_add_left_eq)
  have "queue_inv n ?q"
    unfolding queue_inv_def
  proof (intro conjI)
    show "Suc (unat (q_rear ?q)) mod n = (unat (q_front ?q) + unat (q_size ?q)) mod n"
      using q(8) by (simp add: m m' f mod_add_left_eq)
    show "\<forall>k < unat (q_size ?q). NUL \<in> set (q_array ?q ! slot_at ?q k)"
      using q(10) by (auto simp: slot m m')
    show "\<forall>s \<in> set (q_array ?q). length s = QUEUE_MAX_MSG_SIZE"
      using inv by (simp add: queue_inv_def)
  qed (use q m in \<open>auto simp: f m'\<close>)
  moreover have "queue_items ?q = tl (queue_items q)"
  proof -
    have "map f [0..<Suc m] = f 0 # map (\<lambda>k. f (Suc k)) [0..<m]" for f :: "nat \<Rightarrow> string"
      by (simp only: upt_conv_Cons zero_less_Suc map_Suc_upt [symmetric] list.map map_map o_def)
    then show ?thesis by (simp only: queue_items_def slot m m' select_convs update_convs list.sel)
        (simp add: slot m')
  qed
  moreover have "unat (q_front q) = slot_at q 0" using q(5) by (simp add: slot_at_def q(1))
  ultimately show ?thesis using ne q(11) by (simp add: dequeue_def m m')
qed

lemma read_item:
  assumes inv: "queue_inv n q" and k: "k < unat (q_size q)"
  shows "read_msg q (Slot_ptr (slot_at q k)) = Inr (queue_items q ! k)"
proof -
  note q = queue_invD [OF inv]
  have "slot_at q k < n" using q(2) by (simp add: slot_at_def q(1))
  then show ?thesis using q(10) [OF k] k by (simp add: read_msg_def q(4) cstr_def queue_items_def)
qed

lemma take_msg_law:
  assumes inv: "queue_inv n q"
  shows "\<exists>q'. take_msg q = Inr ((case queue_items q of [] \<Rightarrow> None | m # _ \<Rightarrow> Some m), q')
    \<and> queue_inv n q' \<and> queue_items q' = tl (queue_items q)"
proof (cases "isEmpty q")
  case True
  then show ?thesis using inv by (simp add: take_msg_def isEmpty_iff)
next
  case False
  obtain q' where q': "dequeue q = Inr (Slot_ptr (slot_at q 0), q')" "queue_inv n q'"
      "q_array q' = q_array q" "queue_items q' = tl (queue_items q)"
    using dequeue_item [OF inv False] by auto
  have pos: "0 < unat (q_size q)" using False by (simp add: isEmpty_def unat_gt_0)
  have "read_msg q' (Slot_ptr (slot_at q 0)) = read_msg q (Slot_ptr (slot_at q 0))"
    by (simp add: read_msg_def q'(3))
  also have "\<dots> = Inr (queue_items q ! 0)" by (rule read_item [OF inv pos])
  finally have "take_msg q = Inr (Some (queue_items q ! 0), q')"
    using False by (simp add: take_msg_def q'(1))
  moreover obtain m ms where "queue_items q = m # ms"
    using False by (cases "queue_items q") (simp_all add: isEmpty_iff)
  ultimately show ?thesis using q'(2,4) by simp
qed

lemma enqueue_law:
  assumes inv: "queue_inv n q"
  shows "\<exists>q'. enqueue q item = Inr q' \<and> queue_inv n q' \<and> queue_items q' =
    (if length (queue_items q) < n then queue_items q @ [clip_msg item] else queue_items q)"
proof (cases "unat (q_size q) < n")
  case True
  then show ?thesis using enqueue_room [OF inv True, of item] by auto
next
  case False
  then have "isFull q" using inv queue_invD(7) [OF inv] by (simp add: isFull_iff)
  then show ?thesis using inv False by (simp add: enqueue_full)
qed

lemma createQueue_inv:
  assumes "0 < unat capacity" "unat capacity < 2 ^ 31" "length junk = unat capacity"
    "\<forall>s \<in> set junk. length s = QUEUE_MAX_MSG_SIZE"
  shows "queue_inv (unat capacity) (createQueue capacity junk)"
    and "queue_items (createQueue capacity junk) = []"
  using assms unat_dec [OF assms(1)]
  by (simp_all add: queue_inv_def createQueue_def queue_items_def)

interpretation mq: bounded_fifo "queue_inv n" queue_items n clip_msg enqueue take_msg for n
proof unfold_locales
  fix q x
  assume inv: "queue_inv n q"
  show "\<exists>q'. enqueue q x = Inr q' \<and> queue_inv n q' \<and> queue_items q' =
      (if length (queue_items q) < n then queue_items q @ [clip_msg x] else queue_items q)"
    by (rule enqueue_law [OF inv])
  show "\<exists>q'. take_msg q = Inr ((case queue_items q of [] \<Rightarrow> None | m # _ \<Rightarrow> Some m), q')
      \<and> queue_inv n q' \<and> queue_items q' = tl (queue_items q)"
    by (rule take_msg_law [OF inv])
  show "length (queue_items q) \<le> n" using queue_invD(7) [OF inv] by simp
qed

section \<open>Properties\<close>

subsection \<open>From power-on the queue is a first-in first-out list of 32 clipped messages\<close>

lemma queue_init_inv:
  assumes "length junk = 32" "\<forall>s \<in> set junk. length s = QUEUE_MAX_MSG_SIZE"
  shows "queue_inv 32 (queue_init junk)" "queue_items (queue_init junk) = []"
  using createQueue_inv [of 32 junk] assms by (simp_all add: queue_init_def)

text \<open>C8: Started by \<open>queue_init\<close> (whatever the malloc'ed slots hold), the ring buffer
  answers every sequence of enqueues and dequeues exactly as a first-in first-out list of
  at most 32 messages clipped to 126 characters does; an enqueue on a full queue is
  dropped, a dequeue on an empty one yields nothing, and no access is ever out of
  bounds.\<close>

theorem queue_is_fifo:
  assumes "length junk = 32" and "\<forall>s \<in> set junk. length s = QUEUE_MAX_MSG_SIZE"
  shows "\<exists>q'. run_ops enqueue take_msg (queue_init junk) ops =
      Inr (fst (spec_ops 32 clip_msg [] ops), q')
    \<and> queue_inv 32 q' \<and> queue_items q' = snd (spec_ops 32 clip_msg [] ops)"
  using mq.runs_like_spec [OF queue_init_inv(1) [OF assms], of ops]
  by (simp add: queue_init_inv(2) [OF assms])

theorem queue_is_fifo_witness:
  "\<exists>q'. run_ops enqueue take_msg (queue_init (replicate 32 (replicate 127 CHR ''?'')))
        [Put ''96'', Put ''87'', Get, Get, Get] = Inr ([Some ''96'', Some ''87'', None], q')"
  using queue_is_fifo [of "replicate 32 (replicate 127 CHR ''?'')"
      "[Put ''96'', Put ''87'', Get, Get, Get]"]
  by (auto simp: clip_msg_def upto_nul_def)

subsection \<open>The pointer returned by dequeue\<close>

lemma enqueue_keeps_slot:
  assumes inv: "queue_inv n q" and room: "unat (q_size q) < j" and j: "j < n"
  shows "\<exists>q'. enqueue q x = Inr q' \<and> queue_inv n q' \<and> unat (q_size q') = Suc (unat (q_size q))
    \<and> slot_at q' j = slot_at q j \<and> q_array q' ! slot_at q j = q_array q ! slot_at q j"
proof -
  have "unat (q_size q) < n" using room j by simp
  from enqueue_room [OF inv this, of x] obtain q' d where
    q': "enqueue q x = Inr q'" "queue_inv n q'" "q_front q' = q_front q"
      "queue_items q' = queue_items q @ [clip_msg x]"
      "q_array q' = (q_array q)[slot_at q (unat (q_size q)) := d]" by blast
  have "slot_at q (unat (q_size q)) \<noteq> slot_at q j"
    using slot_inj [of "unat (q_size q)" n j "unat (q_front q)"] room j queue_invD(1) [OF inv]
    by (auto simp: slot_at_def)
  moreover have "slot_at q' j = slot_at q j"
    using q'(3) queue_invD(1) [OF inv] queue_invD(1) [OF q'(2)] by (simp add: slot_at_def)
  moreover have "unat (q_size q') = Suc (unat (q_size q))"
    using arg_cong [OF q'(4), of length] by simp
  ultimately show ?thesis using q'(1,2,5) by auto
qed

lemma puts_keep_slot:
  assumes "queue_inv n q" "unat (q_size q) + length xs \<le> j" "j < n"
    and "run_ops enqueue take_msg q (map Put xs) = Inr r"
  shows "q_array (snd r) ! slot_at q j = q_array q ! slot_at q j \<and> queue_inv n (snd r)"
  using assms
proof (induction xs arbitrary: q)
  case Nil
  then show ?case by auto
next
  case (Cons x xs)
  have "unat (q_size q) < j" using Cons.prems(2) by simp
  from enqueue_keeps_slot [OF Cons.prems(1) this Cons.prems(3), of x] obtain q' where
    q': "enqueue q x = Inr q'" "queue_inv n q'" "unat (q_size q') = Suc (unat (q_size q))"
      "slot_at q' j = slot_at q j" "q_array q' ! slot_at q j = q_array q ! slot_at q j" by blast
  have "run_ops enqueue take_msg q' (map Put xs) = Inr r"
    using Cons.prems(4) q'(1) by simp
  with Cons.IH [OF q'(2) _ Cons.prems(3)] Cons.prems(2) q'(3-5) show ?case by simp
qed

text \<open>The pointer \<open>dequeue\<close> hands out is into the ring, not a copy. The message
  behind it survives as many later enqueues as the queue had free slots before the
  dequeue, so the consumer must read it before one more message is queued.\<close>

lemma dequeued_pointer_stays_valid:
  assumes inv: "queue_inv n q" and item: "\<not> isEmpty q"
    and deq: "dequeue q = Inr (p, q1)"
    and later: "run_ops enqueue take_msg q1 (map Put xs) = Inr (out, q2)"
    and few: "unat (q_size q) + length xs \<le> n"
  shows "read_msg q2 p = Inr (hd (queue_items q))"
proof -
  note q = queue_invD [OF inv]
  have q1: "p = Slot_ptr (slot_at q 0)" "queue_inv n q1" "q_array q1 = q_array q"
      "unat (q_size q) = Suc (unat (q_size q1))" "unat (q_front q1) = Suc (unat (q_front q)) mod n"
    using dequeue_item [OF inv item] deq item q(1,3,5,11)
    by (auto simp: dequeue_def unat_mod unat_inc_small)
  have "(Suc (unat (q_front q)) mod n + (n - 1)) mod n = (Suc (unat (q_front q)) + (n - 1)) mod n"
    by (rule mod_add_left_eq)
  also have "Suc (unat (q_front q)) + (n - 1) = unat (q_front q) + n" using q(2) by simp
  finally have "slot_at q1 (n - 1) = slot_at q 0"
    using q(1) queue_invD(1) [OF q1(2)] by (simp add: slot_at_def q1(5))
  then have keep: "q_array q2 ! slot_at q 0 = q_array q ! slot_at q 0" "queue_inv n q2"
    using puts_keep_slot [OF q1(2) _ _ later, of "n - 1"] few q1(3,4) q(2) by auto
  have len: "slot_at q 0 < n" using q(1,2) by (simp add: slot_at_def)
  have pos: "0 < unat (q_size q)" using item by (simp add: isEmpty_def unat_gt_0)
  then have "queue_items q \<noteq> []" by (metis length_queue_items less_numeral_extra(3) list.size(3))
  then have "read_msg q (Slot_ptr (slot_at q 0)) = Inr (hd (queue_items q))"
    using read_item [OF inv pos] by (simp add: hd_conv_nth)
  then show ?thesis
    using len queue_invD(4) [OF keep(2)] keep(1) by (simp add: q1(1) read_msg_def q(4))
qed

subsection \<open>The debug listing\<close>

lemma print_slots_map:
  "(\<forall>k < n. i + k < length arr \<and> NUL \<in> set (arr ! (i + k))) \<Longrightarrow>
    print_slots arr i n = Inr (map (\<lambda>k. upto_nul (arr ! (i + k))) [0..<n])"
proof (induction n arbitrary: i)
  case 0
  then show ?case by simp
next
  case (Suc n)
  have i: "i < length arr" "NUL \<in> set (arr ! i)" using Suc.prems by force+
  have "\<forall>k < n. Suc i + k < length arr \<and> NUL \<in> set (arr ! (Suc i + k))"
    using Suc.prems by (metis Suc_less_eq add_Suc_shift)
  from Suc.IH [OF this] i show ?case
    by (simp add: cstr_def upt_conv_Cons map_Suc_upt [symmetric] o_def del: upt_Suc)
qed

text \<open>\<open>print_queue\<close> lists the queued messages in order as long as the front of the
  ring is at slot 0; it walks the slots from 0, not from the front, so after the first
  dequeue it lists something else (see \<open>print_queue_wrong_after_dequeue\<close>).\<close>

theorem print_queue_unrotated:
  assumes inv: "queue_inv n q" and "q_front q = 0"
  shows "print_queue q = Inr (queue_items q)"
proof -
  have slot: "slot_at q k = k" if "k < unat (q_size q)" for k
    using that queue_invD(1,7) [OF inv] assms(2) by (simp add: slot_at_def)
  have "\<forall>k < unat (q_size q). 0 + k < length (q_array q) \<and> NUL \<in> set (q_array q ! (0 + k))"
    using queue_invD(4,7,10) [OF inv] slot by fastforce
  from print_slots_map [OF this] show ?thesis
    by (simp add: print_queue_def queue_items_def slot)
qed

definition two_slots :: msg_queue where
  "two_slots = \<lparr>q_front = 0, q_rear = 0, q_size = 1, q_capacity = 2,
     q_array = [CHR ''A'' # replicate 126 NUL, replicate 127 CHR ''?'']\<rparr>"

lemma two_slots_inv: "queue_inv 2 two_slots" "queue_items two_slots = [''A'']"
    "\<not> isEmpty two_slots" "unat (q_size two_slots) = 1" "q_front two_slots = 0"
  by (simp_all add: two_slots_def queue_inv_def slot_at_def queue_items_def isEmpty_def
      upto_nul_def)

theorem print_queue_unrotated_witness: "print_queue two_slots = Inr [''A'']"
  using print_queue_unrotated [OF two_slots_inv(1,5)] by (simp add: two_slots_inv)

text \<open>The listing reads slots from 0 on, also slots outside the queue. They hold strings: the
  slots written so far are the first \<open>w\<close>, and until all are, the queue ends at slot \<open>w\<close>.\<close>

definition ring_ok :: "nat \<Rightarrow> msg_queue \<Rightarrow> bool" where
  "ring_ok n q \<longleftrightarrow> queue_inv n q \<and> (\<exists>w \<le> n. (\<forall>k < w. NUL \<in> set (q_array q ! k))
     \<and> (w = n \<or> unat (q_front q) + unat (q_size q) = w))"

lemma ring_ok_inv: "ring_ok n q \<Longrightarrow> queue_inv n q"
  by (simp add: ring_ok_def)

lemma createQueue_ok:
  assumes "0 < unat capacity" "unat capacity < 2 ^ 31" "length junk = unat capacity"
    "\<forall>s \<in> set junk. length s = QUEUE_MAX_MSG_SIZE"
  shows "ring_ok (unat capacity) (createQueue capacity junk)"
  using createQueue_inv(1) [OF assms] by (auto simp: ring_ok_def createQueue_def intro!: exI [of _ 0])

lemma enqueue_ok:
  assumes ok: "ring_ok n q"
  shows "\<exists>q'. enqueue q item = Inr q' \<and> ring_ok n q' \<and> queue_items q' =
    (if length (queue_items q) < n then queue_items q @ [clip_msg item] else queue_items q)"
proof (cases "unat (q_size q) < n")
  case True
  note inv = ring_ok_inv [OF ok] and q = queue_invD [OF ring_ok_inv [OF ok]]
  let ?s = "slot_at q (unat (q_size q))"
  obtain w where w: "w \<le> n" "\<forall>k < w. NUL \<in> set (q_array q ! k)"
      "w = n \<or> unat (q_front q) + unat (q_size q) = w"
    using ok by (auto simp: ring_ok_def)
  obtain q' d where q': "enqueue q item = Inr q'" "queue_inv n q'" "q_front q' = q_front q"
      "queue_items q' = queue_items q @ [clip_msg item]" "q_array q' = (q_array q)[?s := d]"
    using enqueue_room [OF inv True, of item] by blast
  have size: "unat (q_size q') = Suc (unat (q_size q))"
    using arg_cong [OF q'(4), of length] by simp
  have s: "?s < n" using q(1,2) by (simp add: slot_at_def)
  have same: "slot_at q' (unat (q_size q)) = ?s"
    using q(1) queue_invD(1) [OF q'(2)] by (simp add: slot_at_def q'(3))
  have d: "NUL \<in> set d"
    using queue_invD(10) [OF q'(2), of "unat (q_size q)"] s by (simp add: same size q'(5) q(4))
  have all: "NUL \<in> set (q_array q' ! k)" if "k < w \<or> k = ?s" "k < n" for k
    using w(2) d that by (cases "k = ?s") (auto simp: q'(5) q(4))
  have "\<exists>w \<le> n. (\<forall>k < w. NUL \<in> set (q_array q' ! k))
      \<and> (w = n \<or> unat (q_front q') + unat (q_size q') = w)"
  proof (cases "w = n")
    case True
    then show ?thesis using all by blast
  next
    case False
    then have "?s = w" using w(1,3) q(1) by (simp add: slot_at_def)
    then show ?thesis using False w(1,3) all by (intro exI [of _ "Suc w"]) (auto simp: q'(3) size less_Suc_eq)
  qed
  then show ?thesis using True q'(1,2,4) by (simp add: ring_ok_def)
next
  case False
  then have "isFull q" using ring_ok_inv [OF ok] queue_invD(7) by (force simp: isFull_iff)
  then show ?thesis using ok False by (simp add: enqueue_full)
qed

lemma take_msg_ok:
  assumes ok: "ring_ok n q"
  shows "\<exists>q'. take_msg q = Inr ((case queue_items q of [] \<Rightarrow> None | m # _ \<Rightarrow> Some m), q')
    \<and> ring_ok n q' \<and> queue_items q' = tl (queue_items q)"
proof (cases "isEmpty q")
  case True
  then show ?thesis using ok by (simp add: take_msg_def isEmpty_iff)
next
  case False
  note inv = ring_ok_inv [OF ok] and q = queue_invD [OF ring_ok_inv [OF ok]]
  obtain w where w: "w \<le> n" "\<forall>k < w. NUL \<in> set (q_array q ! k)"
      "w = n \<or> unat (q_front q) + unat (q_size q) = w"
    using ok by (auto simp: ring_ok_def)
  obtain q' where law: "take_msg q = Inr ((case queue_items q of [] \<Rightarrow> None | m # _ \<Rightarrow> Some m), q')"
      "queue_inv n q'" "queue_items q' = tl (queue_items q)"
    using take_msg_law [OF inv] by blast
  have pos: "0 < unat (q_size q)" using False by (simp add: isEmpty_def unat_gt_0)
  have "q' = q\<lparr>q_front := (q_front q + 1) mod q_capacity q, q_size := q_size q - 1\<rparr>"
    using law(1) False q(11) by (auto simp: take_msg_def dequeue_def andthen_eq_Inr)
  then have fields: "q_array q' = q_array q" "unat (q_size q') = unat (q_size q) - 1"
      "unat (q_front q') = Suc (unat (q_front q)) mod n"
    using q(1,3,5) pos by (simp_all add: unat_dec unat_mod unat_inc_small)
  have "w = n \<or> unat (q_front q') + unat (q_size q') = w"
  proof (cases "w = n")
    case False
    then have "Suc (unat (q_front q)) mod n = Suc (unat (q_front q))" using w(1,3) pos by simp
    then show ?thesis using False w(3) pos by (simp add: fields)
  qed simp
  then have "ring_ok n q'" using law(2) w(1,2) by (auto simp: ring_ok_def fields)
  then show ?thesis using law(1,3) by blast
qed

interpretation ring: bounded_fifo "ring_ok n" queue_items n clip_msg enqueue take_msg for n
proof unfold_locales
  fix q x
  assume ok: "ring_ok n q"
  show "\<exists>q'. enqueue q x = Inr q' \<and> ring_ok n q' \<and> queue_items q' =
      (if length (queue_items q) < n then queue_items q @ [clip_msg x] else queue_items q)"
    by (rule enqueue_ok [OF ok])
  show "\<exists>q'. take_msg q = Inr ((case queue_items q of [] \<Rightarrow> None | m # _ \<Rightarrow> Some m), q')
      \<and> ring_ok n q' \<and> queue_items q' = tl (queue_items q)"
    by (rule take_msg_ok [OF ok])
  show "length (queue_items q) \<le> n" by (rule mq.room_law [OF ring_ok_inv [OF ok]])
qed

lemma print_queue_ok:
  assumes "ring_ok n q"
  shows "\<exists>ms. print_queue q = Inr ms \<and> length ms = length (queue_items q)"
proof -
  note q = queue_invD [OF ring_ok_inv [OF assms]]
  have "\<forall>k < unat (q_size q). 0 + k < length (q_array q) \<and> NUL \<in> set (q_array q ! (0 + k))"
    using assms q(4,7) by (fastforce simp: ring_ok_def)
  from print_slots_map [OF this] show ?thesis by (simp add: print_queue_def)
qed

text \<open>From power-on, after any sequence of enqueues and dequeues, \<open>print_queue\<close> reads only
  terminated strings inside the slots and prints as many lines as messages are queued.\<close>

lemma print_queue_safe:
  assumes "length junk = 32" and "\<forall>s \<in> set junk. length s = QUEUE_MAX_MSG_SIZE"
  shows "\<exists>out q' ms. run_ops enqueue take_msg (queue_init junk) ops = Inr (out, q')
    \<and> print_queue q' = Inr ms \<and> length ms = unat (q_size q')"
proof -
  have "ring_ok 32 (queue_init junk)" using createQueue_ok [of 32 junk] assms by (simp add: queue_init_def)
  from ring.runs_like_spec [OF this, of ops] show ?thesis using print_queue_ok by fastforce
qed

text \<open>The lines are those of the slots from 0 on, not those of the queue.\<close>

lemma print_queue_wrong_after_dequeue:
  "\<exists>q. queue_inv 2 q \<and> queue_items q = [''B''] \<and> print_queue q = Inr [''A'']"
proof -
  let ?q = "\<lparr>q_front = 1, q_rear = 1, q_size = 1, q_capacity = 2,
     q_array = [CHR ''A'' # replicate 126 NUL, CHR ''B'' # replicate 126 NUL]\<rparr>"
  have "queue_inv 2 ?q" by (simp add: queue_inv_def slot_at_def)
  moreover have "queue_items ?q = [''B'']" by (simp add: queue_items_def slot_at_def upto_nul_def)
  moreover have "print_queue ?q = Inr [''A'']"
    by (simp add: print_queue_def cstr_def upto_nul_def)
  ultimately show ?thesis by blast
qed

end
