(* ===== verification/C_Strings.thy ===== *)
theory C_Strings
  imports Prelude
begin

text \<open>
  The part of the C library's string formatting and scanning that the firmware uses, on
  strings without their terminator: \<open>sprintf\<close> with \<open>%d\<close>, \<open>%x\<close>, \<open>%02x\<close>, \<open>%02X\<close> and
  \<open>%04x\<close>; \<open>strtol\<close> and \<open>atoi\<close> with the 32-bit \<open>long\<close> of the target (a value out of
  range is clamped, as the C standard says of \<open>strtol\<close>); \<open>strstr\<close> as a test.
\<close>

section \<open>Printing\<close>

definition digit_char :: "bool \<Rightarrow> nat \<Rightarrow> char" where
  "digit_char upper n = char_of (if n < 10 then 48 + n else if upper then 55 + n else 87 + n)"

fun print_base :: "nat \<Rightarrow> nat \<Rightarrow> string" where
  "print_base b n =
     (if b < 2 \<or> n < b then [digit_char False n]
      else print_base b (n div b) @ [digit_char False (n mod b)])"

declare print_base.simps [simp del]

abbreviation print_dec :: "nat \<Rightarrow> string" where   \<comment> \<open>\<open>%u\<close>\<close>
  "print_dec \<equiv> print_base 10"

abbreviation print_hex :: "nat \<Rightarrow> string" where   \<comment> \<open>\<open>%x\<close>\<close>
  "print_hex \<equiv> print_base 16"

definition print_int :: "int \<Rightarrow> string" where     \<comment> \<open>\<open>%d\<close>\<close>
  "print_int i = (if i < 0 then CHR ''-'' # print_dec (nat (- i)) else print_dec (nat i))"

text \<open>\<open>%0<w>x\<close>: padded with zeros to at least \<open>w\<close> digits.\<close>

definition pad_zeros :: "nat \<Rightarrow> string \<Rightarrow> string" where
  "pad_zeros w s = replicate (w - length s) CHR ''0'' @ s"

text \<open>\<open>%02X\<close> and \<open>%02x\<close> of an \<open>unsigned char\<close>.\<close>

definition print_byte :: "bool \<Rightarrow> u8 \<Rightarrow> string" where
  "print_byte upper b = [digit_char upper (unat b div 16), digit_char upper (unat b mod 16)]"

section \<open>Scanning\<close>

definition c_isspace :: "char \<Rightarrow> bool" where
  "c_isspace c \<longleftrightarrow> c = CHR '' '' \<or> (9 \<le> (of_char c :: nat) \<and> (of_char c :: nat) \<le> 13)"

text \<open>Value of an alphanumeric character as a digit; 36 and more for the others.\<close>

definition digit_val :: "char \<Rightarrow> nat" where
  "digit_val c =
     (let n = of_char c in
      if 48 \<le> n \<and> n \<le> 57 then n - 48
      else if 97 \<le> n \<and> n \<le> 122 then n - 87
      else if 65 \<le> n \<and> n \<le> 90 then n - 55
      else 36)"

definition digits_of :: "nat \<Rightarrow> string \<Rightarrow> nat list" where
  "digits_of b s = map digit_val (takeWhile (\<lambda>c. digit_val c < b) s)"

definition digits_value :: "nat \<Rightarrow> nat list \<Rightarrow> nat" where
  "digits_value b ds = foldl (\<lambda>v d. v * b + d) 0 ds"

definition scan_sign :: "string \<Rightarrow> bool \<times> string" where
  "scan_sign s =
     (case s of [] \<Rightarrow> (False, [])
      | c # cs \<Rightarrow> if c = CHR ''-'' then (True, cs) else if c = CHR ''+'' then (False, cs)
                  else (False, c # cs))"

definition skip_0x :: "nat \<Rightarrow> string \<Rightarrow> string" where
  "skip_0x b s =
     (case s of c # d # cs \<Rightarrow>
        if b = 16 \<and> c = CHR ''0'' \<and> (d = CHR ''x'' \<or> d = CHR ''X'') then cs else s
      | _ \<Rightarrow> s)"

abbreviation LONG_MAX :: int where "LONG_MAX \<equiv> 2147483647"
abbreviation LONG_MIN :: int where "LONG_MIN \<equiv> - 2147483648"

definition strtol :: "string \<Rightarrow> nat \<Rightarrow> int" where
  "strtol s b =
     (let (neg, t) = scan_sign (dropWhile c_isspace s);
          v = int (digits_value b (digits_of b (skip_0x b t)))
      in max LONG_MIN (min LONG_MAX (if neg then - v else v)))"

definition atoi :: "string \<Rightarrow> int" where
  "atoi s = strtol s 10"

fun is_prefix :: "string \<Rightarrow> string \<Rightarrow> bool" where
  "is_prefix [] s = True"
| "is_prefix (p # ps) [] = False"
| "is_prefix (p # ps) (c # cs) = (p = c \<and> is_prefix ps cs)"

fun strstr_found :: "string \<Rightarrow> string \<Rightarrow> bool" where
  "strstr_found [] pat = is_prefix pat []"
| "strstr_found (c # cs) pat = (is_prefix pat (c # cs) \<or> strstr_found cs pat)"

section \<open>Facts\<close>

lemma of_char_digit_char [simp]:
  "n < 16 \<Longrightarrow> (of_char (digit_char up n) :: nat) =
    (if n < 10 then 48 + n else if up then 55 + n else 87 + n)"
  by (simp add: digit_char_def)

lemma char_neqI: "(of_char c :: nat) \<noteq> of_char d \<Longrightarrow> c \<noteq> d"
  by auto

lemma digit_val_digit_char [simp]: "n < 16 \<Longrightarrow> digit_val (digit_char up n) = n"
  by (simp add: digit_val_def Let_def)

lemma digit_char_not_nul [simp]: "n < 16 \<Longrightarrow> digit_char up n \<noteq> NUL"
  by (rule char_neqI) simp

lemma nul_not_digit_char [simp]: "n < 16 \<Longrightarrow> NUL \<noteq> digit_char up n"
  using digit_char_not_nul by metis

lemma map_digits_no_nul: "\<forall>d \<in> set ds. d < 10 \<Longrightarrow> NUL \<notin> digit_char up ` set ds"
proof
  assume ds: "\<forall>d \<in> set ds. d < 10" and "NUL \<in> digit_char up ` set ds"
  then obtain d where d: "d \<in> set ds" "NUL = digit_char up d" by blast
  with ds have "d < 16" by force
  with d(2) show False using nul_not_digit_char by blast
qed

lemma digit_char_not_space [simp]: "n < 16 \<Longrightarrow> \<not> c_isspace (digit_char up n)"
  using char_neqI [of "digit_char up n" "CHR '' ''"] by (simp add: c_isspace_def)

lemma digit_char_not_sign [simp]:
  "n < 16 \<Longrightarrow> digit_char up n \<noteq> CHR ''-''" "n < 16 \<Longrightarrow> digit_char up n \<noteq> CHR ''+''"
  by (rule char_neqI; simp)+

lemma length_print_byte [simp]: "length (print_byte up b) = 2"
  by (simp add: print_byte_def)

lemma unat_u8_bounds [simp]: "unat (b :: u8) div 16 < 16" "unat (b :: u8) mod 16 < 16"
    "unat (b :: u8) < 256"
  using unsigned_less [where 'a = nat and w = b] by simp_all

lemma print_base_no_nul:
  assumes "2 \<le> b" "b \<le> 16"
  shows "NUL \<notin> set (print_base b n)"
proof (induction n rule: less_induct)
  case (less n)
  have "n mod b < b" using assms(1) by simp
  then have "n mod b < 16" using assms(2) by simp
  from digit_char_not_nul [OF this, of False] assms less.IH [of "n div b"]
  show ?case
    by (cases "n < b") (auto simp: print_base.simps [of b n] simp del: digit_char_not_nul)
qed

lemma print_byte_no_nul [simp]: "NUL \<notin> set (print_byte up b)"
  using digit_char_not_nul [of "unat b div 16" up] digit_char_not_nul [of "unat b mod 16" up]
  by (auto simp del: digit_char_not_nul simp: print_byte_def)

lemma digits_value_append: "digits_value b (xs @ [d]) = digits_value b xs * b + d"
  by (simp add: digits_value_def)

lemma digits_value_bound: "\<forall>d \<in> set ds. d < b \<Longrightarrow> digits_value b ds < b ^ length ds"
proof (induction ds rule: rev_induct)
  case Nil
  then show ?case by (simp add: digits_value_def)
next
  case (snoc d ds)
  then have le: "Suc (digits_value b ds) \<le> b ^ length ds" and d: "d < b" by auto
  from le have "Suc (digits_value b ds) * b \<le> b ^ length ds * b" by (rule mult_le_mono1)
  then show ?case using d by (simp add: digits_value_append mult.commute [of b])
qed

lemma digits_of_map_digit_char:
  "\<forall>d \<in> set ds. d < b \<Longrightarrow> b \<le> 16 \<Longrightarrow> digits_of b (map (digit_char up) ds) = ds"
  by (induction ds) (auto simp: digits_of_def)

lemma print_base_digits:
  assumes "2 \<le> b" "b \<le> 16"
  shows "\<exists>ds. print_base b n = map (digit_char False) ds \<and> (\<forall>d \<in> set ds. d < b)
    \<and> digits_value b ds = n \<and> ds \<noteq> []"
proof (induction n rule: less_induct)
  case (less n)
  show ?case
  proof (cases "n < b")
    case True
    then show ?thesis
      by (intro exI [of _ "[n]"]) (simp add: print_base.simps digits_value_def)
  next
    case False
    then have "n div b < n" using assms by simp
    from less.IH [OF this] obtain ds where
      "print_base b (n div b) = map (digit_char False) ds" "\<forall>d \<in> set ds. d < b"
      "digits_value b ds = n div b" by blast
    then show ?thesis using False assms
      by (intro exI [of _ "ds @ [n mod b]"])
         (auto simp: print_base.simps [of b n] digits_value_append)
  qed
qed

text \<open>\<open>strtol\<close> and \<open>atoi\<close> read back what the decimal printer wrote.\<close>

lemma strtol_digits:
  assumes "\<forall>d \<in> set ds. d < 10" "int (digits_value 10 ds) \<le> LONG_MAX"
  shows "strtol (map (digit_char up) ds) 10 = int (digits_value 10 ds)"
proof -
  have hd: "d < 16" if "ds = d # ds'" for d ds' using assms(1) that by fastforce
  then have space: "dropWhile c_isspace (map (digit_char up) ds) = map (digit_char up) ds"
    by (cases ds) auto
  have sign: "scan_sign (map (digit_char up) ds) = (False, map (digit_char up) ds)"
    using hd by (cases ds) (auto simp: scan_sign_def)
  have pre: "skip_0x 10 s = s" for s
    by (cases s rule: remdups_adj.cases) (simp_all add: skip_0x_def)
  show ?thesis
    using assms(2) digits_of_map_digit_char [OF assms(1), of up]
    by (simp add: strtol_def space sign pre)
qed

lemma strtol_print_dec:
  assumes "int n \<le> LONG_MAX"
  shows "strtol (print_dec n) 10 = int n"
proof -
  obtain ds where "print_dec n = map (digit_char False) ds" "\<forall>d \<in> set ds. d < 10"
      "digits_value 10 ds = n"
    using print_base_digits [of 10 n] by auto
  then show ?thesis using strtol_digits [of ds False] assms by simp
qed

end
