(* ===== verification/Hex_Tools.thy ===== *)
theory Hex_Tools
  imports C_Strings
begin

text \<open>
  \<open>components/CM-TOOLS/str2hex.c\<close>: \<open>test\<close> turns a message of hexadecimal digits into
  the bytes the LPP decoder reads, in a malloc'ed block of 51 characters;
  \<open>array_to_num\<close> joins the mesh-id digits into a number.
\<close>

section \<open>Hexadecimal text to bytes\<close>

definition str2hexnum :: "char \<Rightarrow> u8" where
  "str2hexnum c =
     (let n = of_char c :: nat in
      if 48 \<le> n \<and> n \<le> 57 then of_nat (n - 48)
      else if 97 \<le> n \<and> n \<le> 102 then of_nat (n - 97 + 10)
      else if 65 \<le> n \<and> n \<le> 70 then of_nat (n - 65 + 10)
      else 0)"

text \<open>\<open>value = value << 4; value |= digit\<close> on an \<open>int\<close>.\<close>

fun str2hex_loop :: "string \<Rightarrow> int \<Rightarrow> fault + int" where
  "str2hex_loop [] value = Inr value"
| "str2hex_loop (c # cs) value =
     (if push_bit 4 value > 2147483647 then Inl Int_Overflow
      else str2hex_loop cs (push_bit 4 value OR uint (str2hexnum c)))"

definition str2hex :: "string \<Rightarrow> fault + u8" where
  "str2hex s = andthen (str2hex_loop (upto_nul s) 0) (\<lambda>value. Inr (word_of_int value))"

fun test_loop :: "string \<Rightarrow> nat \<Rightarrow> nat \<Rightarrow> u8 list \<Rightarrow> fault + u8 list" where
  "test_loop src i 0 tmp = Inr tmp"
| "test_loop src i (Suc n) tmp =
     andthen (str2hex (take 2 src)) (\<lambda>b.
     andthen (wr tmp i b) (\<lambda>tmp'. test_loop (drop 2 src) (Suc i) n tmp'))"

text \<open>\<open>block\<close> is the malloc'ed memory (51 bytes in the code), with whatever it held.\<close>

definition test :: "string \<Rightarrow> u8 list \<Rightarrow> fault + u8 list" where
  "test src block =
     (let size = length src div 2 in
      andthen (test_loop src 0 size block) (\<lambda>tmp. wr tmp size 0))"

abbreviation TEST_BLOCK :: nat where
  "TEST_BLOCK \<equiv> 51"

text \<open>\<open>strlen\<close> of the result, as both callers pass it on.\<close>

definition strlen8 :: "u8 list \<Rightarrow> fault + nat" where
  "strlen8 buf = (if 0 \<in> set buf then Inr (length (takeWhile (\<lambda>b. b \<noteq> 0) buf)) else Inl Out_Of_Bounds)"

section \<open>Digits to a number\<close>

fun print_digits :: "int list \<Rightarrow> nat \<Rightarrow> string list \<Rightarrow> fault + string list" where
  "print_digits [] i str = Inr str"
| "print_digits (a # arr) i str =
     andthen (rd str i) (\<lambda>row. andthen (strcpy_to row (print_int a)) (\<lambda>row'.
     print_digits arr (Suc i) (str[i := row'])))"

text \<open>\<open>strcat (number, row)\<close>\<close>

definition strcat_to :: "string \<Rightarrow> string \<Rightarrow> fault + string" where
  "strcat_to dst src =
     andthen (cstr dst) (\<lambda>d. andthen (cstr src) (\<lambda>s. strcpy_to dst (d @ s)))"

fun cat_rows :: "string list \<Rightarrow> nat \<Rightarrow> nat \<Rightarrow> string \<Rightarrow> fault + string" where
  "cat_rows str i 0 number = Inr number"
| "cat_rows str i (Suc n) number =
     andthen (rd str i) (\<lambda>row. andthen (strcat_to number row) (\<lambda>number'.
     cat_rows str (Suc i) n number'))"

text \<open>\<open>rows\<close> is the uninitialised \<open>char str[6][3]\<close>; \<open>arr\<close> the first \<open>n\<close> elements the
  caller passes; \<open>number\<close> is \<open>char [13]\<close> starting with a newline.\<close>

definition array_to_num :: "int list \<Rightarrow> string list \<Rightarrow> fault + int" where
  "array_to_num arr rows =
     andthen (print_digits arr 0 rows) (\<lambda>str.
     andthen (cat_rows str 0 (length arr) (CHR 0x0A # replicate 12 NUL)) (\<lambda>number.
     andthen (cstr number) (\<lambda>s. Inr (atoi s))))"

section \<open>What test computes\<close>

fun unhex :: "string \<Rightarrow> u8 list" where
  "unhex (a # b # s) = (str2hexnum a * 16 + str2hexnum b) # unhex s"
| "unhex s = []"

lemma str2hexnum_nat: "\<exists>k < 16. str2hexnum c = of_nat k"
proof -
  let ?n = "of_char c :: nat"
  consider "48 \<le> ?n" "?n \<le> 57" | "97 \<le> ?n" "?n \<le> 102" | "65 \<le> ?n" "?n \<le> 70"
    | "str2hexnum c = 0"
    by (cases "48 \<le> ?n \<and> ?n \<le> 57"; cases "97 \<le> ?n \<and> ?n \<le> 102"; cases "65 \<le> ?n \<and> ?n \<le> 70")
      (simp_all add: str2hexnum_def Let_def)
  then show ?thesis
  proof cases
    case 1
    then show ?thesis by (intro exI [of _ "?n - 48"]) (simp add: str2hexnum_def Let_def)
  next
    case 2
    then show ?thesis by (intro exI [of _ "?n - 97 + 10"]) (simp add: str2hexnum_def Let_def)
  next
    case 3
    then show ?thesis by (intro exI [of _ "?n - 65 + 10"]) (simp add: str2hexnum_def Let_def)
  next
    case 4
    then show ?thesis by (intro exI [of _ 0]) simp
  qed
qed

lemma str2hexnum_bound: "uint (str2hexnum c) < 16"
proof -
  obtain k where "k < 16" "str2hexnum c = of_nat k" using str2hexnum_nat by blast
  then show ?thesis by (simp add: uint_nat unat_of_nat)
qed

lemma push_bit_or: "0 \<le> d \<Longrightarrow> d < 16 \<Longrightarrow> push_bit 4 v OR d = v * 16 + (d :: int)"
proof -
  assume d: "0 \<le> d" "d < 16"
  have "push_bit 4 v AND d = 0"
  proof (rule bit_eqI)
    fix n
    show "bit (push_bit 4 v AND d) n \<longleftrightarrow> bit (0 :: int) n"
    proof (cases "n < 4")
      case True
      then show ?thesis by (simp add: bit_and_iff bit_push_bit_iff)
    next
      case False
      then have "(2::int) ^ 4 \<le> 2 ^ n" by (intro power_increasing) auto
      then have "d < 2 ^ n" using d by simp
      then have "\<not> bit d n" using d by (simp add: bit_iff_odd)
      then show ?thesis by (simp add: bit_and_iff)
    qed
  qed
  then have "push_bit 4 v OR d = push_bit 4 v + d" by (simp add: disjunctive_add_eq_or)
  then show ?thesis by (simp add: push_bit_eq_mult)
qed

lemma str2hex_two:
  assumes "a \<noteq> NUL" "b \<noteq> NUL"
  shows "str2hex [a, b] = Inr (str2hexnum a * 16 + str2hexnum b)"
proof -
  let ?a = "uint (str2hexnum a)" and ?b = "uint (str2hexnum b)"
  have "str2hex_loop [a, b] 0 = Inr (?a * 16 + ?b)"
    using str2hexnum_bound [of a] str2hexnum_bound [of b] push_bit_or [of ?b ?a]
    by (simp add: push_bit_eq_mult)
  moreover have "upto_nul [a, b] = [a, b]" using assms by simp
  moreover have "word_of_int (?a * 16 + ?b) = str2hexnum a * 16 + str2hexnum b" by simp
  ultimately show ?thesis by (simp add: str2hex_def)
qed

lemma length_unhex [simp]: "length (unhex s) = length s div 2"
  by (induction s rule: unhex.induct) auto

lemma str2hex_take:
  assumes "NUL \<notin> set src" "2 \<le> length src"
  shows "str2hex (take 2 src) = Inr (hd (unhex src)) \<and> unhex src = hd (unhex src) # unhex (drop 2 src)"
proof -
  obtain a b s where src: "src = a # b # s" using assms(2)
    by (cases src rule: remdups_adj.cases) auto
  then show ?thesis using assms(1) str2hex_two [of a b] by (auto simp: numeral_2_eq_2)
qed

lemma test_loop_ok:
  "NUL \<notin> set src \<Longrightarrow> 2 * n \<le> length src \<Longrightarrow> i + n \<le> length tmp \<Longrightarrow>
    test_loop src i n tmp = Inr (take i tmp @ take n (unhex src) @ drop (i + n) tmp)"
proof (induction src i n tmp rule: test_loop.induct)
  case (1 src i tmp)
  then show ?case by simp
next
  case (2 src i n tmp)
  note len = \<open>2 * Suc n \<le> length src\<close> \<open>i + Suc n \<le> length tmp\<close>
  have hd: "str2hex (take 2 src) = Inr (hd (unhex src))"
    and un: "unhex src = hd (unhex src) # unhex (drop 2 src)"
    using str2hex_take [OF "2.prems"(1)] len by auto
  have i: "i < length tmp" using len by simp
  let ?tmp = "tmp[i := hd (unhex src)]"
  have "NUL \<notin> set (drop 2 src)" using "2.prems"(1) by (auto dest: in_set_dropD)
  then have "test_loop (drop 2 src) (Suc i) n ?tmp =
      Inr (take (Suc i) ?tmp @ take n (unhex (drop 2 src)) @ drop (Suc i + n) ?tmp)"
    using "2.IH" [OF hd] i len by simp
  moreover have "take (Suc i) ?tmp = take i tmp @ [hd (unhex src)]"
    using i by (simp add: take_Suc_conv_app_nth)
  moreover have "take (Suc n) (unhex src) = hd (unhex src) # take n (unhex (drop 2 src))"
    by (subst un) simp
  ultimately show ?case using i by (simp add: hd)
qed

lemma test_loop_overrun:
  "NUL \<notin> set src \<Longrightarrow> 2 * n \<le> length src \<Longrightarrow> length tmp < i + n \<Longrightarrow> i \<le> length tmp \<Longrightarrow>
    test_loop src i n tmp = Inl Out_Of_Bounds"
proof (induction src i n tmp rule: test_loop.induct)
  case (1 src i tmp)
  then show ?case by simp
next
  case (2 src i n tmp)
  have hd: "str2hex (take 2 src) = Inr (hd (unhex src))"
    using str2hex_take [OF "2.prems"(1)] "2.prems"(2) by auto
  have "NUL \<notin> set (drop 2 src)" using "2.prems"(1) by (auto dest: in_set_dropD)
  with "2.IH" [OF hd] "2.prems" show ?case by (cases "i < length tmp") (auto simp: hd)
qed

text \<open>The whole function: one branch for messages that fit the block, one for the rest.\<close>

lemma test_spec:
  assumes "NUL \<notin> set src"
  shows "test src block =
    (if length src div 2 < length block
     then Inr (unhex src @ 0 # drop (Suc (length src div 2)) block)
     else Inl Out_Of_Bounds)"
proof -
  let ?n = "length src div 2"
  have n: "2 * ?n \<le> length src" by simp
  show ?thesis
  proof (cases "?n \<le> length block")
    case True
    have "test_loop src 0 ?n block = Inr (unhex src @ drop ?n block)"
      using test_loop_ok [OF assms n, of 0 block] True by simp
    then show ?thesis using True
      by (auto simp: test_def Let_def list_update_append Cons_nth_drop_Suc [symmetric])
  next
    case False
    then show ?thesis using test_loop_overrun [OF assms n, of block 0]
      by (simp add: test_def Let_def)
  qed
qed

section \<open>Bytes to text and back\<close>

definition print_bytes :: "bool \<Rightarrow> u8 list \<Rightarrow> string" where
  "print_bytes upper bs = concat (map (print_byte upper) bs)"

lemma length_print_bytes [simp]: "length (print_bytes up bs) = 2 * length bs"
  by (induction bs) (simp_all add: print_bytes_def)

lemma print_bytes_no_nul [simp]: "NUL \<notin> set (print_bytes up bs)"
  by (simp add: print_bytes_def)

lemma print_bytes_Nil [simp]: "print_bytes up [] = []"
  by (simp add: print_bytes_def)

lemma print_bytes_append: "print_bytes up (as @ bs) = print_bytes up as @ print_bytes up bs"
  by (simp add: print_bytes_def)

lemma str2hexnum_digit_char [simp]: "n < 16 \<Longrightarrow> str2hexnum (digit_char up n) = of_nat n"
  by (simp add: str2hexnum_def Let_def)

lemma unhex_print_byte:
  "unhex (print_byte up b @ s) = b # unhex s"
proof -
  have "(of_nat (unat b div 16 * 16 + unat b mod 16) :: u8) = b"
    by (simp only: div_mult_mod_eq) simp
  then have "of_nat (unat b div 16) * 16 + of_nat (unat b mod 16) = b"
    by (simp only: of_nat_add of_nat_mult of_nat_numeral)
  then show ?thesis by (simp add: print_byte_def)
qed

lemma unhex_print_bytes [simp]: "unhex (print_bytes up bs) = bs"
  by (induction bs) (simp_all add: print_bytes_def unhex_print_byte)

lemma unhex_print_bytes_append: "unhex (print_bytes up bs @ s) = bs @ unhex s"
  by (induction bs) (simp_all add: print_bytes_def unhex_print_byte)

section \<open>What array_to_num computes\<close>

lemma print_int_digit: "d < 10 \<Longrightarrow> print_int (int d) = [digit_char False d]"
  by (simp add: print_int_def print_base.simps)

lemma strcpy_digit:
  assumes "length row = 3" "d < 10"
  shows "\<exists>x. strcpy_to row (print_int (int d)) = Inr [digit_char False d, NUL, x]"
proof -
  obtain a b c where "row = [a, b, c]"
    using assms(1) by (auto simp: numeral_3_eq_3 length_Suc_conv)
  moreover have "upto_nul [digit_char False d] = [digit_char False d]" using assms(2) by simp
  ultimately show ?thesis using assms(2)
    by (simp add: strcpy_to_def Let_def print_int_digit)
qed

definition digit_row :: "nat \<Rightarrow> string \<Rightarrow> bool" where
  "digit_row d row \<longleftrightarrow> cstr row = Inr [digit_char False d]"

lemma print_digits_ok:
  "\<forall>d \<in> set ds. d < 10 \<Longrightarrow> i + length ds \<le> length str \<Longrightarrow> \<forall>r \<in> set str. length r = 3 \<Longrightarrow>
    \<exists>str'. print_digits (map int ds) i str = Inr str' \<and> length str' = length str
      \<and> (\<forall>k < i. str' ! k = str ! k) \<and> (\<forall>k < length ds. digit_row (ds ! k) (str' ! (i + k)))"
proof (induction ds arbitrary: i str)
  case Nil
  then show ?case by simp
next
  case (Cons d ds)
  have i: "i < length str" and d: "d < 10" using Cons.prems by auto
  obtain x where x: "strcpy_to (str ! i) (print_int (int d)) = Inr [digit_char False d, NUL, x]"
    using strcpy_digit [OF _ d, of "str ! i"] Cons.prems(3) i by auto
  let ?s = "str[i := [digit_char False d, NUL, x]]"
  have "\<forall>r \<in> set ?s. length r = 3"
    using Cons.prems(3) set_update_subset_insert by fastforce
  from Cons.IH [of "Suc i" ?s, OF _ _ this] Cons.prems obtain str' where
    str': "print_digits (map int ds) (Suc i) ?s = Inr str'" "length str' = length str"
      "\<forall>k < Suc i. str' ! k = ?s ! k" "\<forall>k < length ds. digit_row (ds ! k) (str' ! (Suc i + k))"
    by auto
  have "digit_row ((d # ds) ! k) (str' ! (i + k))" if "k < length (d # ds)" for k
  proof (cases k)
    case 0
    have "NUL \<notin> set [digit_char False d]" using d by simp
    then show ?thesis using str'(3) i cstr_terminated [of "[digit_char False d]" "[x]"]
      by (simp add: 0 digit_row_def)
  next
    case (Suc k')
    then show ?thesis using str'(4) that by simp
  qed
  then show ?case using str' i by (intro exI [of _ str']) (simp add: x)
qed

lemma strcat_digit:
  assumes "NUL \<notin> set s" "length s + 2 \<le> 13" "digit_row d row" "d < 10"
  shows "strcat_to (s @ replicate (13 - length s) NUL) row =
    Inr ((s @ [digit_char False d]) @ replicate (13 - Suc (length s)) NUL)"
proof -
  have "13 - length s = Suc (13 - Suc (length s))" using assms(2) by simp
  then have rep: "replicate (13 - length s) NUL = NUL # replicate (13 - Suc (length s)) NUL"
    by (simp only: replicate_Suc)
  have "13 - Suc (length s) = Suc (13 - Suc (Suc (length s)))" using assms(2) by simp
  then have rep2: "replicate (13 - Suc (length s)) NUL = NUL # replicate (13 - Suc (Suc (length s))) NUL"
    by (simp only: replicate_Suc)
  show ?thesis using assms rep2
    by (simp add: strcat_to_def rep digit_row_def strcpy_to_def Let_def)
qed

lemma cat_rows_ok:
  "\<forall>d \<in> set ds. d < 10 \<Longrightarrow> i + length ds \<le> length str \<Longrightarrow> NUL \<notin> set s \<Longrightarrow>
    length s + length ds < 13 \<Longrightarrow> \<forall>k < length ds. digit_row (ds ! k) (str ! (i + k)) \<Longrightarrow>
    cat_rows str i (length ds) (s @ replicate (13 - length s) NUL) =
      Inr ((s @ map (digit_char False) ds) @ replicate (13 - length s - length ds) NUL)"
proof (induction ds arbitrary: i s)
  case Nil
  then show ?case by simp
next
  case (Cons d ds)
  let ?s = "s @ [digit_char False d]"
  have d: "d < 10" "i < length str" using Cons.prems by auto
  have row: "digit_row d (str ! i)" using Cons.prems(5) by force
  have nn: "NUL \<notin> set ?s" using Cons.prems(3) d by simp
  have rows: "\<forall>k < length ds. digit_row (ds ! k) (str ! (Suc i + k))"
    using Cons.prems(5) by fastforce
  have "cat_rows str (Suc i) (length ds) (?s @ replicate (13 - length ?s) NUL) =
      Inr ((?s @ map (digit_char False) ds) @ replicate (13 - length ?s - length ds) NUL)"
    using Cons.IH [OF _ _ nn _ rows] Cons.prems by auto
  moreover have "strcat_to (s @ replicate (13 - length s) NUL) (str ! i) =
      Inr (?s @ replicate (13 - length ?s) NUL)"
    using strcat_digit [OF Cons.prems(3) _ row d(1)] Cons.prems(4) by simp
  ultimately show ?case using d by simp
qed

section \<open>Properties\<close>

text \<open>\<open>test\<close> on any C string writes the byte of every pair of digits and a terminator
  when half the length is below the 51 bytes it allocates, and otherwise stores past the
  end of its block. No other outcome exists.\<close>

theorem test_block_bound:
  assumes "NUL \<notin> set src" and "length block = TEST_BLOCK"
  shows "test src block =
    (if length src \<le> 101
     then Inr (unhex src @ 0 # drop (Suc (length src div 2)) block)
     else Inl Out_Of_Bounds)"
  using test_spec [OF assms(1), of block] assms(2) by auto

theorem test_block_bound_witness:
  "test ''870a8c'' (replicate 51 0xFF) = Inr ([0x87, 0x0A, 0x8C] @ 0 # replicate 47 0xFF)"
  using test_block_bound [of "''870a8c''" "replicate 51 0xFF"]
  by (simp add: str2hexnum_def)

text \<open>Printing bytes in hexadecimal (upper or lower case) and reading them back with
  \<open>test\<close> restores every byte, but the length the callers compute with \<open>strlen\<close> stops at
  the first zero byte: exactly the bytes before it reach the decoder.\<close>

lemma hex_delivery:
  assumes "length bs \<le> 50" and "length block = TEST_BLOCK"
  shows "\<exists>buf. test (print_bytes up bs) block = Inr buf \<and> take (length bs) buf = bs
    \<and> strlen8 buf = Inr (length (takeWhile (\<lambda>b. b \<noteq> 0) bs))"
proof -
  let ?buf = "bs @ 0 # drop (Suc (length bs)) block"
  have "test (print_bytes up bs) block = Inr ?buf"
    using test_spec [of "print_bytes up bs" block] assms by simp
  moreover have "strlen8 ?buf = Inr (length (takeWhile (\<lambda>b. b \<noteq> 0) bs))"
    by (simp add: strlen8_def takeWhile_stop)
  ultimately show ?thesis by auto
qed

text \<open>On at most six decimal digits \<open>array_to_num\<close> returns the number they spell,
  whatever its row buffers held, without overrunning them.\<close>

theorem array_to_num_digits:
  assumes "\<forall>d \<in> set ds. d < 10" and "length ds \<le> 6"
    and "length rows = 6" and "\<forall>r \<in> set rows. length r = 3"
  shows "array_to_num (map int ds) rows = Inr (int (digits_value 10 ds))"
proof -
  obtain str where str: "print_digits (map int ds) 0 rows = Inr str" "length str = 6"
      "\<forall>k < length ds. digit_row (ds ! k) (str ! (0 + k))"
    using print_digits_ok [OF assms(1), of 0 rows] assms by auto
  let ?s = "CHR 0x0A # map (digit_char False) ds"
  have "cat_rows str 0 (length ds) ([CHR 0x0A] @ replicate (13 - length [CHR 0x0A]) NUL) =
      Inr (([CHR 0x0A] @ map (digit_char False) ds) @ replicate (13 - length [CHR 0x0A] - length ds) NUL)"
    by (rule cat_rows_ok [OF assms(1)]) (use str assms(2) in auto)
  then have number: "cat_rows str 0 (length ds) (CHR 0x0A # replicate 12 NUL) =
      Inr (?s @ replicate (12 - length ds) NUL)" by simp
  have "NUL \<notin> set ?s" using assms(1)
    by (simp add: map_digits_no_nul)
  moreover obtain t where "replicate (12 - length ds) NUL = NUL # t"
    using assms(2) by (cases "12 - length ds") auto
  moreover have "?s @ NUL # t = CHR 0x0A # (map (digit_char False) ds @ NUL # t)" by simp
  ultimately have "cstr (?s @ replicate (12 - length ds) NUL) = Inr ?s"
    using cstr_terminated [of ?s t] by simp
  moreover have "atoi ?s = strtol (map (digit_char False) ds) 10"
    by (simp add: atoi_def strtol_def c_isspace_def)
  moreover have "int (digits_value 10 ds) \<le> LONG_MAX"
  proof -
    have "digits_value 10 ds < 10 ^ length ds" by (rule digits_value_bound [OF assms(1)])
    also have "(10::nat) ^ length ds \<le> 10 ^ 6" by (rule power_increasing) (use assms(2) in auto)
    finally show ?thesis by simp
  qed
  ultimately show ?thesis
    using strtol_digits [OF assms(1), of False] by (simp add: array_to_num_def str(1) number)
qed

theorem array_to_num_digits_witness:
  "array_to_num (map int [1, 2, 3, 4, 5, 6]) (replicate 6 ''xyz'') = Inr 123456"
  using array_to_num_digits [of "[1, 2, 3, 4, 5, 6]" "replicate 6 ''xyz''"]
  by (simp add: digits_value_def)

end
