(* ===== verification/C_Float.thy ===== *)
theory C_Float
  imports Complex_Main Prelude
begin

text \<open>
  The \<open>float\<close> and \<open>double\<close> arithmetic the sensor, position and payload code uses:
  IEEE binary32 and binary64 with rounding to nearest, ties to even. A value is a
  rational number, an infinity with its sign, or a NaN; the sign of zero and the payload
  of a NaN are not kept (the firmware never divides by a variable and never inspects
  them). Every operation computes the exact rational result and rounds it with
  \<open>fround\<close>, which is executable. A conversion to an integer type is a fault when the
  truncated value does not fit the type, as the C standard leaves it undefined.
\<close>

section \<open>Rounding\<close>

fun ilog2 :: "nat \<Rightarrow> nat" where
  "ilog2 n = (if n < 2 then 0 else Suc (ilog2 (n div 2)))"

declare ilog2.simps [simp del]

text \<open>Exponent of the leading binary digit of a positive rational.\<close>

definition rlog2 :: "rat \<Rightarrow> int" where
  "rlog2 x = (let (n, d) = quotient_of x; k = int (ilog2 (nat n)) - int (ilog2 (nat d))
              in if 2 powi k \<le> x then k else k - 1)"

text \<open>Nearest integer, ties to even.\<close>

definition rne :: "rat \<Rightarrow> int" where
  "rne x = (let f = \<lfloor>x\<rfloor>; r = x - of_int f in
            if r < 1 / 2 then f else if 1 / 2 < r then f + 1 else if even f then f else f + 1)"

text \<open>\<open>p\<close> significant binary digits, no digit below \<open>2 powi qmin\<close>.\<close>

definition quantum :: "nat \<Rightarrow> int \<Rightarrow> rat \<Rightarrow> int" where
  "quantum p qmin x = max (rlog2 \<bar>x\<bar> - int p + 1) qmin"

definition rnd :: "nat \<Rightarrow> int \<Rightarrow> rat \<Rightarrow> rat" where
  "rnd p qmin x =
     (if x = 0 then 0
      else let q = quantum p qmin x in of_int (rne (x / 2 powi q)) * 2 powi q)"

datatype c_float = Fin rat | Inf bool | NaN    \<comment> \<open>\<open>Inf True\<close> is negative infinity\<close>

definition fround :: "nat \<Rightarrow> int \<Rightarrow> int \<Rightarrow> rat \<Rightarrow> c_float" where
  "fround p qmin emax x =
     (let y = rnd p qmin x in if 2 powi (emax + 1) \<le> \<bar>y\<bar> then Inf (x < 0) else Fin y)"

definition to_f32 :: "rat \<Rightarrow> c_float" where "to_f32 = fround 24 (- 149) 127"
definition to_f64 :: "rat \<Rightarrow> c_float" where "to_f64 = fround 53 (- 1074) 1023"

section \<open>Operations\<close>

text \<open>The rounding function is the first argument: \<open>to_f32\<close> for \<open>float\<close> operands,
  \<open>to_f64\<close> where one operand is a \<open>double\<close>.\<close>

fun f_neg :: "c_float \<Rightarrow> c_float" where
  "f_neg (Fin a) = Fin (- a)"
| "f_neg (Inf s) = Inf (\<not> s)"
| "f_neg NaN = NaN"

fun f_add :: "(rat \<Rightarrow> c_float) \<Rightarrow> c_float \<Rightarrow> c_float \<Rightarrow> c_float" where
  "f_add r NaN b = NaN"
| "f_add r a NaN = NaN"
| "f_add r (Inf s) (Inf t) = (if s = t then Inf s else NaN)"
| "f_add r (Inf s) (Fin b) = Inf s"
| "f_add r (Fin a) (Inf t) = Inf t"
| "f_add r (Fin a) (Fin b) = r (a + b)"

definition f_sub :: "(rat \<Rightarrow> c_float) \<Rightarrow> c_float \<Rightarrow> c_float \<Rightarrow> c_float" where
  "f_sub r a b = f_add r a (f_neg b)"

fun f_mul :: "(rat \<Rightarrow> c_float) \<Rightarrow> c_float \<Rightarrow> c_float \<Rightarrow> c_float" where
  "f_mul r NaN b = NaN"
| "f_mul r a NaN = NaN"
| "f_mul r (Inf s) (Inf t) = Inf (s \<noteq> t)"
| "f_mul r (Inf s) (Fin b) = (if b = 0 then NaN else Inf (s \<noteq> (b < 0)))"
| "f_mul r (Fin a) (Inf t) = (if a = 0 then NaN else Inf ((a < 0) \<noteq> t))"
| "f_mul r (Fin a) (Fin b) = r (a * b)"

text \<open>Division by a non-zero constant, the only division in the code.\<close>

fun f_div_const :: "(rat \<Rightarrow> c_float) \<Rightarrow> c_float \<Rightarrow> rat \<Rightarrow> c_float" where
  "f_div_const r NaN k = NaN"
| "f_div_const r (Inf s) k = Inf (s \<noteq> (k < 0))"
| "f_div_const r (Fin a) k = r (a / k)"

text \<open>\<open>float\<close> from \<open>double\<close>; the other direction is exact.\<close>

fun narrow :: "c_float \<Rightarrow> c_float" where
  "narrow (Fin a) = to_f32 a"
| "narrow (Inf s) = Inf s"
| "narrow NaN = NaN"

fun f_less :: "c_float \<Rightarrow> c_float \<Rightarrow> bool" where
  "f_less NaN b = False"
| "f_less a NaN = False"
| "f_less (Inf s) (Inf t) = (s \<and> \<not> t)"
| "f_less (Inf s) (Fin b) = s"
| "f_less (Fin a) (Inf t) = (\<not> t)"
| "f_less (Fin a) (Fin b) = (a < b)"

definition trunc :: "rat \<Rightarrow> int" where
  "trunc x = (if x < 0 then - \<lfloor>- x\<rfloor> else \<lfloor>x\<rfloor>)"

fun f_to_int :: "int \<Rightarrow> int \<Rightarrow> c_float \<Rightarrow> fault + int" where
  "f_to_int lo hi (Fin a) = (if lo \<le> trunc a \<and> trunc a \<le> hi then Inr (trunc a) else Inl Float_Range)"
| "f_to_int lo hi (Inf s) = Inl Float_Range"
| "f_to_int lo hi NaN = Inl Float_Range"

definition f_to_u8 :: "c_float \<Rightarrow> fault + u8" where
  "f_to_u8 a = andthen (f_to_int 0 255 a) (\<lambda>i. Inr (word_of_int i))"

definition f_to_u16 :: "c_float \<Rightarrow> fault + u16" where
  "f_to_u16 a = andthen (f_to_int 0 65535 a) (\<lambda>i. Inr (word_of_int i))"

definition f_to_u32 :: "c_float \<Rightarrow> fault + u32" where
  "f_to_u32 a = andthen (f_to_int 0 4294967295 a) (\<lambda>i. Inr (word_of_int i))"

definition f_to_i32 :: "c_float \<Rightarrow> fault + int" where
  "f_to_i32 a = f_to_int (- 2147483648) 2147483647 a"

section \<open>The leading digit\<close>

lemma ilog2_bounds: "0 < n \<Longrightarrow> 2 ^ ilog2 n \<le> n \<and> n < 2 ^ Suc (ilog2 n)"
proof (induction n rule: ilog2.induct)
  case (1 n)
  show ?case
  proof (cases "n < 2")
    case True
    then show ?thesis using "1.prems" by (simp add: ilog2.simps)
  next
    case False
    then have "2 ^ ilog2 (n div 2) \<le> n div 2" "n div 2 < 2 ^ Suc (ilog2 (n div 2))"
      using "1.IH" by auto
    moreover have "ilog2 n = Suc (ilog2 (n div 2))" using False by (simp add: ilog2.simps [of n])
    ultimately show ?thesis by (simp only: power_Suc) linarith
  qed
qed

lemma powi_pos [simp]: "0 < (2 :: rat) powi k"
  by simp

lemma powi_split: "(2 :: rat) powi (a + b) = 2 powi a * 2 powi b"
  by (simp add: power_int_add)

lemma powi_mono: "a \<le> b \<Longrightarrow> (2 :: rat) powi a \<le> 2 powi b"
  by (simp add: power_int_increasing)

lemma powi_nat: "(2 :: rat) powi (int n) = 2 ^ n"
  by simp

lemma rlog2_bounds:
  assumes "0 < x"
  shows "2 powi (rlog2 x) \<le> x \<and> x < 2 powi (rlog2 x + 1)"
proof -
  obtain n d where nd: "quotient_of x = (n, d)" by (cases "quotient_of x") auto
  have d: "0 < d" using quotient_of_denom_pos [OF nd] .
  have x: "x = of_int n / of_int d" using quotient_of_div [OF nd] .
  have n: "0 < n" using assms d by (simp add: x zero_less_divide_iff)
  let ?a = "ilog2 (nat n)" and ?b = "ilog2 (nat d)"
  have a: "2 ^ ?a \<le> n" "n < 2 ^ Suc ?a"
    using ilog2_bounds [of "nat n"] n by (auto simp: nat_less_iff le_nat_iff)
  have b: "2 ^ ?b \<le> d" "d < 2 ^ Suc ?b"
    using ilog2_bounds [of "nat d"] d by (auto simp: nat_less_iff le_nat_iff)
  have ar: "(2::rat) ^ ?a \<le> of_int n" "(of_int n :: rat) < 2 ^ Suc ?a"
    using a by (metis of_int_le_iff of_int_numeral of_int_power)
      (use a(2) in \<open>metis of_int_less_iff of_int_numeral of_int_power\<close>)
  have br: "(2::rat) ^ ?b \<le> of_int d" "(of_int d :: rat) < 2 ^ Suc ?b"
    using b by (metis of_int_le_iff of_int_numeral of_int_power)
      (use b(2) in \<open>metis of_int_less_iff of_int_numeral of_int_power\<close>)
  let ?k = "int ?a - int ?b"
  have k: "(2::rat) powi ?k = 2 ^ ?a / 2 ^ ?b" by (simp add: power_int_diff)
  have up: "x < 2 powi (?k + 1)"
  proof -
    have "x < 2 ^ Suc ?a / of_int d" using ar(2) d by (simp add: x divide_strict_right_mono)
    also have "\<dots> \<le> 2 ^ Suc ?a / 2 ^ ?b" using br(1) by (intro divide_left_mono) (auto simp: d)
    finally show ?thesis by (simp add: powi_split k mult.commute)
  qed
  have low: "2 powi (?k - 1) < x"
  proof -
    have "(2::rat) ^ ?a / 2 ^ Suc ?b < 2 ^ ?a / of_int d"
      using br(2) d by (intro divide_strict_left_mono) auto
    also have "\<dots> \<le> x" using ar(1) d by (simp add: x divide_right_mono)
    finally show ?thesis by (simp add: power_int_diff k)
  qed
  show ?thesis using up low by (auto simp: rlog2_def nd Let_def)
qed

section \<open>Rounding stays between representable values\<close>

lemma floor_frac: "0 \<le> x - of_int \<lfloor>x\<rfloor> \<and> x - of_int \<lfloor>x\<rfloor> < (1 :: rat)"
  by linarith

lemma rne_range: "\<lfloor>x\<rfloor> \<le> rne x \<and> rne x \<le> \<lfloor>x\<rfloor> + 1"
  by (simp add: rne_def Let_def)

lemma rne_int [simp]: "rne (of_int k) = k"
  by (simp add: rne_def)

lemma rne_err: "\<bar>of_int (rne x) - x\<bar> \<le> 1 / 2"
  unfolding rne_def Let_def using floor_frac [of x]
  by (auto split: if_splits simp: abs_le_iff)

lemma rne_mono: "x \<le> y \<Longrightarrow> rne x \<le> rne y"
proof -
  assume xy: "x \<le> y"
  then have fl: "\<lfloor>x\<rfloor> \<le> \<lfloor>y\<rfloor>" by (rule floor_mono)
  show ?thesis
  proof (cases "\<lfloor>x\<rfloor> = \<lfloor>y\<rfloor>")
    case True
    then have "x - of_int \<lfloor>x\<rfloor> \<le> y - of_int \<lfloor>y\<rfloor>" using xy by simp
    then show ?thesis using True by (auto simp: rne_def Let_def)
  next
    case False
    then have "\<lfloor>x\<rfloor> + 1 \<le> \<lfloor>y\<rfloor>" using fl by simp
    then show ?thesis using rne_range [of x] rne_range [of y] by linarith
  qed
qed

lemma rne_neg: "rne (- x) = - rne x"
proof (cases "x = of_int \<lfloor>x\<rfloor>")
  case True
  then have "rne (- x) = rne (of_int (- \<lfloor>x\<rfloor>))" by simp
  also have "\<dots> = - rne x" using True by (metis rne_int)
  finally show ?thesis .
next
  case False
  define f where "f = \<lfloor>x\<rfloor>"
  have "of_int f \<le> x" "x < of_int f + 1" "x \<noteq> of_int f"
    using False of_int_floor_le [of x] floor_frac [of x] unfolding f_def by linarith+
  then have fx: "of_int f < x" "x < of_int f + 1" by simp_all
  then have fl: "\<lfloor>- x\<rfloor> = - f - 1" by (simp add: floor_eq_iff)
  have "rne x = (if x - of_int f < 1/2 then f else if 1/2 < x - of_int f then f + 1
      else if even f then f else f + 1)"
    by (simp add: rne_def f_def Let_def)
  moreover have "rne (- x) = (if 1/2 < x - of_int f then - f - 1 else if x - of_int f < 1/2 then - f
      else if even f then - f else - f - 1)"
    by (auto simp: rne_def Let_def fl)
  ultimately show ?thesis by auto
qed

lemma quantum_neg [simp]: "quantum p qmin (- x) = quantum p qmin x"
  by (simp add: quantum_def)

lemma rnd_neg: "rnd p qmin (- x) = - rnd p qmin x"
  by (simp add: rnd_def Let_def rne_neg)

definition representable :: "nat \<Rightarrow> int \<Rightarrow> rat \<Rightarrow> bool" where
  "representable p qmin M \<longleftrightarrow> (\<exists>m q. M = of_int m * 2 powi q \<and> \<bar>m\<bar> \<le> 2 ^ p \<and> qmin \<le> q)"

lemma representable_int: "\<bar>k\<bar> \<le> 2 ^ p \<Longrightarrow> qmin \<le> 0 \<Longrightarrow> representable p qmin (of_int k)"
  unfolding representable_def by (intro exI [of _ k] exI [of _ 0]) simp

lemma representable_scaled:
  "\<bar>k\<bar> \<le> 2 ^ p \<Longrightarrow> qmin \<le> q \<Longrightarrow> representable p qmin (of_int k * 2 powi q)"
  unfolding representable_def by blast

lemma representable_neg: "representable p qmin M \<Longrightarrow> representable p qmin (- M)"
  unfolding representable_def by (metis abs_minus_cancel mult_minus_left of_int_minus)

lemma rnd_le_grid:
  assumes "x \<noteq> 0" "x \<le> of_int k * 2 powi quantum p qmin x"
  shows "rnd p qmin x \<le> of_int k * 2 powi quantum p qmin x"
proof -
  let ?g = "2 powi quantum p qmin x :: rat"
  have "x / ?g \<le> of_int k" using assms(2) by (simp add: divide_le_eq)
  then have "rne (x / ?g) \<le> k" using rne_mono [of "x / ?g" "of_int k"] by simp
  then have "(of_int (rne (x / ?g)) :: rat) \<le> of_int k" by simp
  then show ?thesis using assms(1) by (simp add: rnd_def Let_def mult_right_mono)
qed

text \<open>A representable value is a multiple of the quantum of \<open>x\<close>, or not beyond the power of
  two below \<open>x\<close>, which is itself such a multiple.\<close>

lemma representable_grid:
  assumes M: "representable p qmin M" and x: "x \<noteq> 0" and p: "0 < p"
  defines "q \<equiv> quantum p qmin x" and "e \<equiv> rlog2 \<bar>x\<bar>"
  shows "(\<exists>k. M = of_int k * 2 powi q) \<or>
    (\<bar>M\<bar> \<le> 2 powi e \<and> (\<exists>k. 2 powi e = of_int k * (2 :: rat) powi q))"
proof -
  obtain m qM where mq: "M = of_int m * 2 powi qM" "\<bar>m\<bar> \<le> 2 ^ p" "qmin \<le> qM"
    using M unfolding representable_def by blast
  show ?thesis
  proof (cases "q \<le> qM")
    case True
    then have "(2::rat) powi qM = 2 ^ nat (qM - q) * 2 powi q"
      by (simp add: powi_split [symmetric] flip: powi_nat)
    then have "M = of_int (m * 2 ^ nat (qM - q)) * 2 powi q" by (simp add: mq(1))
    then show ?thesis by blast
  next
    case False
    then have q: "q = e - int p + 1" using mq(3) by (auto simp: q_def e_def quantum_def)
    have "\<bar>M\<bar> = of_int \<bar>m\<bar> * 2 powi qM" by (simp add: mq(1) abs_mult)
    also have "\<dots> \<le> 2 ^ p * 2 powi qM"
      using mq(2) by (intro mult_right_mono) (metis of_int_le_iff of_int_numeral of_int_power, simp)
    also have "\<dots> = 2 powi (int p + qM)" by (simp add: powi_split)
    also have "\<dots> \<le> 2 powi e" by (rule powi_mono) (use False q in simp)
    finally have "\<bar>M\<bar> \<le> 2 powi e" .
    moreover have "(2::rat) powi e = of_int (2 ^ (p - 1)) * 2 powi q"
    proof -
      have "e = int (p - 1) + q" using p q by simp
      then show ?thesis by (simp only: powi_split powi_nat of_int_power of_int_numeral)
    qed
    ultimately show ?thesis by blast
  qed
qed

lemma rnd_le:
  assumes M: "representable p qmin M" and le: "x \<le> M" and p: "0 < p"
  shows "rnd p qmin x \<le> M"
proof (cases "x = 0")
  case True
  then show ?thesis using le by (simp add: rnd_def)
next
  case False
  let ?e = "2 powi rlog2 \<bar>x\<bar> :: rat"
  have e: "?e \<le> \<bar>x\<bar>" using rlog2_bounds [of "\<bar>x\<bar>"] False by simp
  from representable_grid [OF M False p]
  consider k where "M = of_int k * 2 powi quantum p qmin x"
    | k where "\<bar>M\<bar> \<le> ?e" "?e = of_int k * 2 powi quantum p qmin x" by blast
  then show ?thesis
  proof cases
    case 1
    then show ?thesis using rnd_le_grid [OF False] le by simp
  next
    case 2
    show ?thesis
    proof (cases "x < 0")
      case True
      then have "x \<le> of_int (- k) * 2 powi quantum p qmin x" using e 2(2) by simp
      from rnd_le_grid [OF False this] show ?thesis using 2 by simp
    next
      case False
      then have "M = ?e" using e 2(1) le by simp
      then show ?thesis using rnd_le_grid [OF \<open>x \<noteq> 0\<close>, of k p qmin] 2(2) le by simp
    qed
  qed
qed

lemma rnd_ge:
  assumes "representable p qmin M" "M \<le> x" "0 < p"
  shows "M \<le> rnd p qmin x"
  using rnd_le [OF representable_neg [OF assms(1)], of "- x"] assms by (simp add: rnd_neg)

lemma rnd_exact: "representable p qmin x \<Longrightarrow> 0 < p \<Longrightarrow> rnd p qmin x = x"
  by (intro antisym rnd_le rnd_ge) simp_all

lemma rnd_err:
  assumes "x \<noteq> 0"
  shows "\<bar>rnd p qmin x - x\<bar> \<le> 2 powi quantum p qmin x / 2"
proof -
  let ?g = "2 powi quantum p qmin x :: rat"
  have "rnd p qmin x - x = (of_int (rne (x / ?g)) - x / ?g) * ?g"
    using assms by (simp add: rnd_def Let_def left_diff_distrib)
  then have "\<bar>rnd p qmin x - x\<bar> = \<bar>of_int (rne (x / ?g)) - x / ?g\<bar> * ?g"
    by (simp add: abs_mult)
  also have "\<dots> \<le> 1 / 2 * ?g" by (intro mult_right_mono rne_err) simp
  finally show ?thesis by simp
qed

lemma fround_between:
  assumes "representable p qmin lo" "representable p qmin hi" "lo \<le> x" "x \<le> hi" "0 < p"
    and "\<bar>lo\<bar> < 2 powi (emax + 1)" "\<bar>hi\<bar> < 2 powi (emax + 1)"
  shows "fround p qmin emax x = Fin (rnd p qmin x) \<and> lo \<le> rnd p qmin x \<and> rnd p qmin x \<le> hi"
proof -
  have b: "lo \<le> rnd p qmin x" "rnd p qmin x \<le> hi"
    using rnd_ge [OF assms(1,3,5)] rnd_le [OF assms(2,4,5)] by auto
  then have "\<bar>rnd p qmin x\<bar> \<le> max \<bar>lo\<bar> \<bar>hi\<bar>" by (auto simp: abs_le_iff max_def)
  then have "\<bar>rnd p qmin x\<bar> < 2 powi (emax + 1)" using assms(6,7) by (auto simp: max_def split: if_splits)
  then show ?thesis using b by (simp add: fround_def Let_def)
qed

section \<open>The two formats of the target\<close>

lemma powi_ge_nat: "int n \<le> k \<Longrightarrow> (2 :: rat) ^ n \<le> 2 powi k"
  using powi_mono [of "int n" k] by simp

lemma int_below_powi:
  assumes "\<bar>k\<bar> \<le> 2 ^ n" "int n < e"
  shows "\<bar>of_int k\<bar> < (2 :: rat) powi e"
proof -
  have "(of_int \<bar>k\<bar> :: rat) \<le> of_int (2 ^ n)" using assms(1) by (simp only: of_int_le_iff)
  also have "\<dots> < 2 ^ Suc n" by simp
  also have "\<dots> \<le> 2 powi e" by (rule powi_ge_nat) (use assms(2) in simp)
  finally show ?thesis by simp
qed

lemma fround_int_bounds:
  assumes "0 < p" "qmin \<le> 0" "int p \<le> emax" "\<bar>lo\<bar> \<le> 2 ^ p" "\<bar>hi\<bar> \<le> 2 ^ p"
    and "of_int lo \<le> x" "x \<le> of_int hi"
  shows "\<exists>y. fround p qmin emax x = Fin y \<and> of_int lo \<le> y \<and> y \<le> of_int hi"
  using fround_between [OF representable_int [OF assms(4,2)] representable_int [OF assms(5,2)]
      assms(6,7,1), of emax] int_below_powi [OF assms(4), of "emax + 1"]
    int_below_powi [OF assms(5), of "emax + 1"] assms(3) by auto

lemma to_f32_int_bounds:
  "\<bar>lo\<bar> \<le> 2 ^ 24 \<Longrightarrow> \<bar>hi\<bar> \<le> 2 ^ 24 \<Longrightarrow> of_int lo \<le> x \<Longrightarrow> x \<le> of_int hi \<Longrightarrow>
    \<exists>y. to_f32 x = Fin y \<and> of_int lo \<le> y \<and> y \<le> of_int hi"
  unfolding to_f32_def by (rule fround_int_bounds) auto

lemma to_f64_int_bounds:
  "\<bar>lo\<bar> \<le> 2 ^ 53 \<Longrightarrow> \<bar>hi\<bar> \<le> 2 ^ 53 \<Longrightarrow> of_int lo \<le> x \<Longrightarrow> x \<le> of_int hi \<Longrightarrow>
    \<exists>y. to_f64 x = Fin y \<and> of_int lo \<le> y \<and> y \<le> of_int hi"
  unfolding to_f64_def by (rule fround_int_bounds) auto

lemma to_f32_int: "\<bar>k\<bar> \<le> 2 ^ 24 \<Longrightarrow> to_f32 (of_int k) = Fin (of_int k)"
  using to_f32_int_bounds [of k k "of_int k"] by auto

lemma to_f64_int: "\<bar>k\<bar> \<le> 2 ^ 53 \<Longrightarrow> to_f64 (of_int k) = Fin (of_int k)"
  using to_f64_int_bounds [of k k "of_int k"] by auto

text \<open>Between the two integers next to the exact value, after rounding.\<close>

lemma power24: "(2 :: int) ^ 24 = 16777216"
  by simp

lemma to_f32_floor_ceiling:
  assumes "\<bar>x\<bar> \<le> 2 ^ 24"
  shows "\<exists>y. to_f32 x = Fin y \<and> of_int \<lfloor>x\<rfloor> \<le> y \<and> y \<le> of_int \<lceil>x\<rceil>"
proof (rule to_f32_int_bounds)
  have x: "- (2 ^ 24) \<le> x" "x \<le> 2 ^ 24" using assms by linarith+
  have "\<lfloor>- (2 ^ 24) :: rat\<rfloor> \<le> \<lfloor>x\<rfloor>" "\<lfloor>x\<rfloor> \<le> \<lfloor>2 ^ 24 :: rat\<rfloor>"
    "\<lceil>- (2 ^ 24) :: rat\<rceil> \<le> \<lceil>x\<rceil>" "\<lceil>x\<rceil> \<le> \<lceil>2 ^ 24 :: rat\<rceil>"
    using x by (blast intro: floor_mono ceiling_mono)+
  then have "- 16777216 \<le> \<lfloor>x\<rfloor>" "\<lfloor>x\<rfloor> \<le> 16777216" "- 16777216 \<le> \<lceil>x\<rceil>" "\<lceil>x\<rceil> \<le> 16777216"
    by simp_all
  then show "\<bar>\<lfloor>x\<rfloor>\<bar> \<le> 2 ^ 24" "\<bar>\<lceil>x\<rceil>\<bar> \<le> 2 ^ 24" unfolding power24 by (intro abs_leI; linarith)+
qed simp_all

lemma trunc_nonneg: "0 \<le> x \<Longrightarrow> trunc x = \<lfloor>x\<rfloor>"
  by (simp add: trunc_def)

lemma trunc_neg_le: "x \<le> - 1 \<Longrightarrow> trunc x \<le> - 1"
proof -
  assume "x \<le> - 1"
  then have "1 \<le> - x" by simp
  then have "1 \<le> \<lfloor>- x\<rfloor>" by (simp add: le_floor_iff)
  then show ?thesis using \<open>x \<le> - 1\<close> by (simp add: trunc_def)
qed

lemma f_to_int_between:
  assumes "0 \<le> lo" "of_int lo \<le> y" "y \<le> of_int hi"
  shows "f_to_int lo hi (Fin y) = Inr \<lfloor>y\<rfloor> \<and> lo \<le> \<lfloor>y\<rfloor> \<and> \<lfloor>y\<rfloor> \<le> hi"
proof -
  have "0 \<le> y" using assms(1,2) by (meson of_int_0_le_iff order_trans)
  moreover have "lo \<le> \<lfloor>y\<rfloor>" using assms(2) by (simp add: le_floor_iff)
  moreover have "\<lfloor>y\<rfloor> \<le> hi" using floor_mono [OF assms(3)] by simp
  ultimately show ?thesis by (simp add: trunc_nonneg)
qed

text \<open>What every scaled encoding does to a value in range: the integer stored is one of
  the two neighbours of the exact product.\<close>

lemma f_to_u16_near:
  assumes "0 \<le> x" "x \<le> 65535"
  shows "\<exists>v. f_to_u16 (to_f32 x) = Inr v \<and> \<lfloor>x\<rfloor> \<le> uint v \<and> uint v \<le> \<lceil>x\<rceil>"
proof -
  have "\<bar>x\<bar> \<le> 2 ^ 24" using assms by simp
  from to_f32_floor_ceiling [OF this] obtain y where
    y: "to_f32 x = Fin y" "of_int \<lfloor>x\<rfloor> \<le> y" "y \<le> of_int \<lceil>x\<rceil>" by blast
  have lo: "0 \<le> \<lfloor>x\<rfloor>" and hi: "\<lceil>x\<rceil> \<le> 65535"
    using assms by (simp_all add: le_floor_iff ceiling_le_iff)
  have fl: "\<lfloor>x\<rfloor> \<le> \<lfloor>y\<rfloor>" "\<lfloor>y\<rfloor> \<le> \<lceil>x\<rceil>"
    using y(2) floor_mono [OF y(3)] by (simp_all add: le_floor_iff)
  have "(0::rat) \<le> of_int \<lfloor>x\<rfloor>" using lo by simp
  then have "0 \<le> y" using y(2) by linarith
  moreover have y0: "0 \<le> \<lfloor>y\<rfloor>" "\<lfloor>y\<rfloor> \<le> 65535" using fl lo hi by linarith+
  ultimately have "f_to_u16 (to_f32 x) = Inr (word_of_int \<lfloor>y\<rfloor>)"
    by (simp add: f_to_u16_def y(1) trunc_nonneg del: zero_le_floor floor_le_numeral)
  moreover have "uint (word_of_int \<lfloor>y\<rfloor> :: u16) = \<lfloor>y\<rfloor>"
  proof -
    have "\<lfloor>y\<rfloor> mod 65536 = \<lfloor>y\<rfloor>" by (rule mod_pos_pos_trivial) (use y0 in linarith)+
    then show ?thesis by (simp add: uint_word_of_int)
  qed
  ultimately show ?thesis using fl by auto
qed

text \<open>Evaluating a rounding: name the significand and the exponent and check the distance.\<close>

lemma rlog2_unique: "2 powi k \<le> x \<Longrightarrow> x < 2 powi (k + 1) \<Longrightarrow> rlog2 x = k"
proof (rule ccontr)
  assume x: "2 powi k \<le> x" "x < 2 powi (k + 1)" and "rlog2 x \<noteq> k"
  have "0 < x" using x(1) powi_pos [of k] by linarith
  from rlog2_bounds [OF this] have r: "2 powi rlog2 x \<le> x" "x < 2 powi (rlog2 x + 1)" by auto
  from \<open>rlog2 x \<noteq> k\<close> consider "rlog2 x + 1 \<le> k" | "k + 1 \<le> rlog2 x" by linarith
  then show False
  proof cases
    case 1
    then show False using powi_mono [OF 1] r(2) x(1) by linarith
  next
    case 2
    then show False using powi_mono [OF 2] r(1) x(2) by linarith
  qed
qed

lemma rne_unique: "\<bar>x - of_int m\<bar> < 1 / 2 \<Longrightarrow> rne x = m"
proof -
  assume m: "\<bar>x - of_int m\<bar> < 1 / 2"
  have "\<bar>of_int (rne x) - x\<bar> \<le> 1 / 2" by (rule rne_err)
  then have "\<bar>of_int (rne x) - of_int m\<bar> < (1 :: rat)" using m by linarith
  then have "\<bar>of_int (rne x - m)\<bar> < (1 :: rat)" by simp
  then show ?thesis by linarith
qed

lemma fround_certificate:
  assumes "2 powi (q + int p - 1) \<le> \<bar>x\<bar>" "\<bar>x\<bar> < 2 powi (q + int p)" "qmin \<le> q"
    and "\<bar>x - of_int m * 2 powi q\<bar> < 2 powi q / 2"
    and "\<bar>of_int m * 2 powi q\<bar> < (2 :: rat) powi (emax + 1)"
  shows "fround p qmin emax x = Fin (of_int m * 2 powi q)"
proof -
  have "rlog2 \<bar>x\<bar> = q + int p - 1" by (rule rlog2_unique) (use assms(1,2) in simp_all)
  then have q: "quantum p qmin x = q" using assms(3) by (simp add: quantum_def)
  have nz: "x \<noteq> 0" using assms(1) powi_pos [of "q + int p - 1"] by force
  have "\<bar>x / 2 powi q - of_int m\<bar> = \<bar>x - of_int m * 2 powi q\<bar> / 2 powi q"
    using powi_pos [of q] by (simp add: abs_div_pos diff_divide_distrib)
  also have "\<dots> < 1 / 2" using assms(4) by (simp add: divide_less_eq)
  finally have "rne (x / 2 powi q) = m" by (rule rne_unique)
  then have "rnd p qmin x = of_int m * 2 powi q" using nz by (simp add: rnd_def q Let_def)
  then show ?thesis using assms(5) by (simp add: fround_def Let_def)
qed

section \<open>Absolute rounding errors\<close>

lemma quantum_le:
  assumes "x \<noteq> 0" "\<bar>x\<bar> < 2 powi e" "qmin \<le> e - int p"
  shows "quantum p qmin x \<le> e - int p"
proof -
  have "2 powi rlog2 \<bar>x\<bar> \<le> \<bar>x\<bar>" using rlog2_bounds [of "\<bar>x\<bar>"] assms(1) by simp
  have "rlog2 \<bar>x\<bar> < e"
  proof (rule ccontr)
    assume "\<not> rlog2 \<bar>x\<bar> < e"
    then have "(2 :: rat) powi e \<le> 2 powi rlog2 \<bar>x\<bar>" by (intro powi_mono) simp
    with \<open>2 powi rlog2 \<bar>x\<bar> \<le> \<bar>x\<bar>\<close> assms(2) show False by linarith
  qed
  then show ?thesis using assms(3) by (simp add: quantum_def)
qed

lemma rnd_err_below:
  assumes "\<bar>x\<bar> < 2 powi e" "qmin \<le> e - int p"
  shows "\<bar>rnd p qmin x - x\<bar> \<le> 2 powi (e - int p) / 2"
proof (cases "x = 0")
  case True
  then show ?thesis by (simp add: rnd_def)
next
  case False
  have "(2 :: rat) powi quantum p qmin x \<le> 2 powi (e - int p)"
    by (intro powi_mono quantum_le [OF False assms])
  then show ?thesis using rnd_err [OF False, of p qmin] by linarith
qed

lemma fround_err:
  assumes "\<bar>x\<bar> < 2 powi e" "qmin \<le> e - int p" "0 < p" "e \<le> emax"
  shows "\<exists>y. fround p qmin emax x = Fin y \<and> \<bar>y - x\<bar> \<le> 2 powi (e - int p) / 2"
proof -
  have err: "\<bar>rnd p qmin x - x\<bar> \<le> 2 powi (e - int p) / 2" by (rule rnd_err_below [OF assms(1,2)])
  have "2 powi (e - int p) \<le> (2 :: rat) powi e" by (intro powi_mono) simp
  then have "\<bar>rnd p qmin x\<bar> < 2 * 2 powi e" using err assms(1) by linarith
  also have "\<dots> = 2 powi (e + 1)" by (simp add: powi_split)
  also have "\<dots> \<le> 2 powi (emax + 1)" by (rule powi_mono) (use assms(4) in simp)
  finally show ?thesis using err by (simp add: fround_def Let_def)
qed

lemma to_f64_err:
  assumes "\<bar>x\<bar> < 2 ^ 24"
  shows "\<exists>y. to_f64 x = Fin y \<and> \<bar>y - x\<bar> \<le> 1 / 1000000"
proof -
  obtain y where y: "to_f64 x = Fin y" "\<bar>y - x\<bar> \<le> 2 powi (24 - int 53) / 2"
    using fround_err [of x 24 "- 1074" 53 1023] assms by (auto simp: to_f64_def)
  moreover have "(2 :: rat) powi (24 - int 53) = 1 / 536870912" by (simp add: power_int_minus_divide)
  ultimately have "\<bar>y - x\<bar> \<le> 1 / 1000000" by simp
  with y show ?thesis by blast
qed

lemma to_f32_err:
  assumes "\<bar>x\<bar> < 2 ^ 8"
  shows "\<exists>y. to_f32 x = Fin y \<and> \<bar>y - x\<bar> \<le> 1 / 65536"
proof -
  obtain y where y: "to_f32 x = Fin y" "\<bar>y - x\<bar> \<le> 2 powi (8 - int 24) / 2"
    using fround_err [of x 8 "- 149" 24 127] assms by (auto simp: to_f32_def)
  moreover have "(2 :: rat) powi (8 - int 24) = 1 / 65536" by (simp add: power_int_minus_divide)
  ultimately have "\<bar>y - x\<bar> \<le> 1 / 65536" by simp
  with y show ?thesis by blast
qed

lemma to_f32_err_below:
  assumes "\<bar>x\<bar> < 2 ^ n" "n \<le> 127"
  shows "\<exists>y. to_f32 x = Fin y \<and> \<bar>y - x\<bar> \<le> 2 ^ n / 33554432"
proof -
  obtain y where y: "to_f32 x = Fin y" "\<bar>y - x\<bar> \<le> 2 powi (int n - int 24) / 2"
    using fround_err [of x "int n" "- 149" 24 127] assms by (auto simp: to_f32_def)
  have "(2 :: rat) powi (int n - int 24) = 2 powi (int n) / 2 powi (int 24)"
    by (rule power_int_diff) simp
  then have "(2 :: rat) powi (int n - int 24) / 2 = 2 ^ n / 33554432" by simp
  with y show ?thesis by auto
qed

end
