(* ===== verification/Cayenne_LPP.thy ===== *)
theory Cayenne_LPP
  imports C_Float
begin

text \<open>
  The payload encoder \<open>components/CM-LPP-KAMMANIT/CMLPP.c\<close>: a byte buffer with a cursor,
  and one operation per measurement that appends a type byte and the value. Every
  operation has the same shape (test the room, convert the value, store the bytes one by
  one through \<open>buffer[cursor++]\<close>, return the cursor), which \<open>lpp_add\<close> states once; the
  operations give the declared size and the bytes. \<open>unsigned long\<close> has 32 bits on the
  target. \<open>mlink_mac_str2hex\<close>, which turns 12 hexadecimal digits into 6 bytes, belongs to
  ESP-MDF and is an argument.
\<close>

section \<open>Types and sizes (CMLPP.h)\<close>

abbreviation (input) LPP_DIGITAL_INPUT :: u8 where "LPP_DIGITAL_INPUT \<equiv> 0"
abbreviation (input) LPP_DIGITAL_OUTPUT :: u8 where "LPP_DIGITAL_OUTPUT \<equiv> 1"
abbreviation (input) LPP_ANALOG_INPUT :: u8 where "LPP_ANALOG_INPUT \<equiv> 2"
abbreviation (input) LPP_ANALOG_OUTPUT :: u8 where "LPP_ANALOG_OUTPUT \<equiv> 3"
abbreviation (input) LPP_LUMINOSITY :: u8 where "LPP_LUMINOSITY \<equiv> 101"
abbreviation (input) LPP_PRESENCE :: u8 where "LPP_PRESENCE \<equiv> 102"
abbreviation (input) LPP_TEMPERATURE :: u8 where "LPP_TEMPERATURE \<equiv> 103"
abbreviation (input) LPP_RELATIVE_HUMIDITY :: u8 where "LPP_RELATIVE_HUMIDITY \<equiv> 104"
abbreviation (input) LPP_ACCELEROMETER :: u8 where "LPP_ACCELEROMETER \<equiv> 113"
abbreviation (input) LPP_BAROMETRIC_PRESSURE :: u8 where "LPP_BAROMETRIC_PRESSURE \<equiv> 115"
abbreviation (input) LPP_GYROMETER :: u8 where "LPP_GYROMETER \<equiv> 134"
abbreviation (input) LPP_GPS :: u8 where "LPP_GPS \<equiv> 136"
abbreviation (input) CM_LPP_ACTUATION :: u8 where "CM_LPP_ACTUATION \<equiv> 106"
abbreviation (input) CM_LPP_LIGHT_CONTROL :: u8 where "CM_LPP_LIGHT_CONTROL \<equiv> 111"
abbreviation (input) CM_LPP_VOLTAGE :: u8 where "CM_LPP_VOLTAGE \<equiv> 116"
abbreviation (input) CM_LPP_POWER :: u8 where "CM_LPP_POWER \<equiv> 128"
abbreviation (input) CM_LPP_COLOR :: u8 where "CM_LPP_COLOR \<equiv> 135"
abbreviation (input) CM_LPP_ERR_CODE :: u8 where "CM_LPP_ERR_CODE \<equiv> 146"
abbreviation (input) CM_LPP_GEN :: u8 where "CM_LPP_GEN \<equiv> 147"
abbreviation (input) CM_LPP_MODEL :: u8 where "CM_LPP_MODEL \<equiv> 148"
abbreviation (input) CM_LPP_POWER_INDEX :: u8 where "CM_LPP_POWER_INDEX \<equiv> 149"
abbreviation (input) CM_LPP_NODE_ID :: u8 where "CM_LPP_NODE_ID \<equiv> 150"
abbreviation (input) CM_LPP_PARENT_ID :: u8 where "CM_LPP_PARENT_ID \<equiv> 151"
abbreviation (input) CM_LPP_READ_GPS :: u8 where "CM_LPP_READ_GPS \<equiv> 152"
abbreviation (input) CM_LPP_MESH_ID :: u8 where "CM_LPP_MESH_ID \<equiv> 153"
abbreviation (input) CM_LPP_MESH_CH :: u8 where "CM_LPP_MESH_CH \<equiv> 154"
abbreviation (input) CM_LPP_TYPE_CONTROL :: u8 where "CM_LPP_TYPE_CONTROL \<equiv> 155"

abbreviation (input) LPP_DIGITAL_INPUT_SIZE :: nat where "LPP_DIGITAL_INPUT_SIZE \<equiv> 3"
abbreviation (input) LPP_DIGITAL_OUTPUT_SIZE :: nat where "LPP_DIGITAL_OUTPUT_SIZE \<equiv> 3"
abbreviation (input) LPP_ANALOG_INPUT_SIZE :: nat where "LPP_ANALOG_INPUT_SIZE \<equiv> 4"
abbreviation (input) LPP_ANALOG_OUTPUT_SIZE :: nat where "LPP_ANALOG_OUTPUT_SIZE \<equiv> 4"
abbreviation (input) LPP_LUMINOSITY_SIZE :: nat where "LPP_LUMINOSITY_SIZE \<equiv> 4"
abbreviation (input) LPP_PRESENCE_SIZE :: nat where "LPP_PRESENCE_SIZE \<equiv> 3"
abbreviation (input) LPP_TEMPERATURE_SIZE :: nat where "LPP_TEMPERATURE_SIZE \<equiv> 4"
abbreviation (input) LPP_RELATIVE_HUMIDITY_SIZE :: nat where "LPP_RELATIVE_HUMIDITY_SIZE \<equiv> 3"
abbreviation (input) LPP_ACCELEROMETER_SIZE :: nat where "LPP_ACCELEROMETER_SIZE \<equiv> 8"
abbreviation (input) LPP_BAROMETRIC_PRESSURE_SIZE :: nat where "LPP_BAROMETRIC_PRESSURE_SIZE \<equiv> 4"
abbreviation (input) LPP_GYROMETER_SIZE :: nat where "LPP_GYROMETER_SIZE \<equiv> 8"
abbreviation (input) LPP_GPS_SIZE :: nat where "LPP_GPS_SIZE \<equiv> 11"
abbreviation (input) CM_LPP_ACTUATION_SIZE :: nat where "CM_LPP_ACTUATION_SIZE \<equiv> 6"
abbreviation (input) CM_LPP_LIGHT_CONTROL_SIZE :: nat where "CM_LPP_LIGHT_CONTROL_SIZE \<equiv> 2"
abbreviation (input) CM_LPP_VOLTAGE_SIZE :: nat where "CM_LPP_VOLTAGE_SIZE \<equiv> 3"
abbreviation (input) CM_LPP_POWER_SIZE :: nat where "CM_LPP_POWER_SIZE \<equiv> 3"
abbreviation (input) CM_LPP_COLOR_SIZE :: nat where "CM_LPP_COLOR_SIZE \<equiv> 3"
abbreviation (input) CM_LPP_ERR_CODE_SIZE :: nat where "CM_LPP_ERR_CODE_SIZE \<equiv> 2"
abbreviation (input) CM_LPP_GEN_SIZE :: nat where "CM_LPP_GEN_SIZE \<equiv> 2"
abbreviation (input) CM_LPP_MODEL_SIZE :: nat where "CM_LPP_MODEL_SIZE \<equiv> 2"
abbreviation (input) CM_LPP_POWER_INDEX_SIZE :: nat where "CM_LPP_POWER_INDEX_SIZE \<equiv> 2"
abbreviation (input) CM_LPP_NODE_ID_SIZE :: nat where "CM_LPP_NODE_ID_SIZE \<equiv> 7"
abbreviation (input) CM_LPP_PARENT_ID_SIZE :: nat where "CM_LPP_PARENT_ID_SIZE \<equiv> 7"
abbreviation (input) CM_LPP_READ_GPS_SIZE :: nat where "CM_LPP_READ_GPS_SIZE \<equiv> 2"
abbreviation (input) CM_LPP_MESH_ID_SIZE :: nat where "CM_LPP_MESH_ID_SIZE \<equiv> 4"
abbreviation (input) CM_LPP_MESH_CH_SIZE :: nat where "CM_LPP_MESH_CH_SIZE \<equiv> 2"
abbreviation (input) CM_LPP_TYPE_CONTROL_SIZE :: nat where "CM_LPP_TYPE_CONTROL_SIZE \<equiv> 2"

section \<open>State\<close>

record cayenne =
  lpp_buffer :: "u8 list"     \<comment> \<open>the malloc'ed block\<close>
  lpp_maxsize :: u8
  lpp_cursor :: u8

text \<open>\<open>block\<close> is the memory \<open>malloc (size)\<close> returned: \<open>size\<close> bytes of any content.\<close>

definition CayenneLPP__create :: "u8 list \<Rightarrow> cayenne" where
  "CayenneLPP__create block = \<lparr>lpp_buffer = block, lpp_maxsize = 255, lpp_cursor = 0\<rparr>"

definition CayenneLPP__reset :: "cayenne \<Rightarrow> cayenne" where
  "CayenneLPP__reset self = self\<lparr>lpp_cursor := 0\<rparr>"

text \<open>\<open>free (self)\<close> alone: the memory that stays allocated, which nothing points to any more.\<close>

definition CayenneLPP__destroy :: "cayenne option \<Rightarrow> u8 list option" where
  "CayenneLPP__destroy self =
     (case self of None \<Rightarrow> None | Some self \<Rightarrow> Some (lpp_buffer (CayenneLPP__reset self)))"

definition CayenneLPP__getSize :: "cayenne \<Rightarrow> u8" where
  "CayenneLPP__getSize self = lpp_cursor self"

definition CayenneLPP__getBuffer :: "cayenne \<Rightarrow> u8 list" where
  "CayenneLPP__getBuffer self = lpp_buffer self"

text \<open>\<open>memcpy (dst, buffer, cursor)\<close>\<close>

definition CayenneLPP__copy :: "cayenne \<Rightarrow> u8 list \<Rightarrow> fault + (u8 \<times> u8 list)" where
  "CayenneLPP__copy self dst =
     (let n = unat (lpp_cursor self) in
      if n \<le> length (lpp_buffer self) \<and> n \<le> length dst
      then Inr (lpp_cursor self, take n (lpp_buffer self) @ drop n dst)
      else Inl Out_Of_Bounds)"

text \<open>\<open>self->buffer[self->cursor++] = b\<close>, once and for each byte of a list.\<close>

definition put_byte :: "cayenne \<Rightarrow> u8 \<Rightarrow> fault + cayenne" where
  "put_byte self b =
     andthen (wr (lpp_buffer self) (unat (lpp_cursor self)) b)
       (\<lambda>buf. Inr (self\<lparr>lpp_buffer := buf, lpp_cursor := lpp_cursor self + 1\<rparr>))"

fun put_bytes :: "cayenne \<Rightarrow> u8 list \<Rightarrow> fault + cayenne" where
  "put_bytes self [] = Inr self"
| "put_bytes self (b # bs) = andthen (put_byte self b) (\<lambda>self'. put_bytes self' bs)"

definition lpp_add :: "cayenne \<Rightarrow> nat \<Rightarrow> (fault + u8 list) \<Rightarrow> fault + (u8 \<times> cayenne)" where
  "lpp_add self declared bytes =
     (if unat (lpp_cursor self) + declared > unat (lpp_maxsize self) then Inr (0, self)
      else andthen bytes (\<lambda>bs. andthen (put_bytes self bs)
             (\<lambda>self'. Inr (lpp_cursor self', self'))))"

text \<open>\<open>(unsigned char) (w >> n)\<close>\<close>

definition byte :: "nat \<Rightarrow> 'a::len word \<Rightarrow> u8" where
  "byte n w = ucast (drop_bit n w)"

definition be16 :: "u16 \<Rightarrow> u8 list" where
  "be16 v = [byte 8 v, byte 0 v]"

definition be24 :: "u32 \<Rightarrow> u8 list" where
  "be24 v = [byte 16 v, byte 8 v, byte 0 v]"

text \<open>\<open>unsigned short int val = value * k\<close> for a \<open>float\<close> and an integer constant.\<close>

definition scale16 :: "c_float \<Rightarrow> rat \<Rightarrow> fault + u16" where
  "scale16 value k = f_to_u16 (f_mul to_f32 value (Fin k))"

definition scale32 :: "c_float \<Rightarrow> rat \<Rightarrow> fault + u32" where
  "scale32 value k = f_to_u32 (f_mul to_f32 value (Fin k))"

section \<open>The operations\<close>

definition CayenneLPP__addDigitalInput :: "cayenne \<Rightarrow> u8 \<Rightarrow> fault + (u8 \<times> cayenne)" where
  "CayenneLPP__addDigitalInput self value =
     lpp_add self LPP_DIGITAL_INPUT_SIZE (Inr [LPP_DIGITAL_INPUT, value])"

definition CayenneLPP__addDigitalOutput :: "cayenne \<Rightarrow> u8 \<Rightarrow> fault + (u8 \<times> cayenne)" where
  "CayenneLPP__addDigitalOutput self value =
     lpp_add self LPP_DIGITAL_OUTPUT_SIZE (Inr [LPP_DIGITAL_OUTPUT, value])"

definition CayenneLPP__addAnalogInput :: "cayenne \<Rightarrow> c_float \<Rightarrow> fault + (u8 \<times> cayenne)" where
  "CayenneLPP__addAnalogInput self value =
     lpp_add self LPP_ANALOG_INPUT_SIZE
       (andthen (scale16 value 100) (\<lambda>val. Inr (LPP_ANALOG_INPUT # be16 val)))"

definition CayenneLPP__addAnalogOutput :: "cayenne \<Rightarrow> c_float \<Rightarrow> fault + (u8 \<times> cayenne)" where
  "CayenneLPP__addAnalogOutput self value =
     lpp_add self LPP_ANALOG_OUTPUT_SIZE
       (andthen (scale16 value 100) (\<lambda>val. Inr (LPP_ANALOG_OUTPUT # be16 val)))"

definition CayenneLPP__addLuminosity :: "cayenne \<Rightarrow> u16 \<Rightarrow> fault + (u8 \<times> cayenne)" where
  "CayenneLPP__addLuminosity self lux =
     lpp_add self LPP_LUMINOSITY_SIZE (Inr (LPP_LUMINOSITY # be16 lux))"

definition CayenneLPP__addPresence :: "cayenne \<Rightarrow> u8 \<Rightarrow> fault + (u8 \<times> cayenne)" where
  "CayenneLPP__addPresence self value =
     lpp_add self LPP_PRESENCE_SIZE (Inr [LPP_PRESENCE, value])"

definition CayenneLPP__addTemperature :: "cayenne \<Rightarrow> c_float \<Rightarrow> fault + (u8 \<times> cayenne)" where
  "CayenneLPP__addTemperature self celsius =
     lpp_add self LPP_TEMPERATURE_SIZE
       (andthen (scale16 celsius 10) (\<lambda>val. Inr (LPP_TEMPERATURE # be16 val)))"

definition CayenneLPP__addRelativeHumidity :: "cayenne \<Rightarrow> c_float \<Rightarrow> fault + (u8 \<times> cayenne)" where
  "CayenneLPP__addRelativeHumidity self rh =
     lpp_add self LPP_RELATIVE_HUMIDITY_SIZE
       (andthen (f_to_u8 (f_mul to_f32 rh (Fin 2))) (\<lambda>val. Inr [LPP_RELATIVE_HUMIDITY, val]))"

definition CayenneLPP__addAccelerometer ::
  "cayenne \<Rightarrow> c_float \<Rightarrow> c_float \<Rightarrow> c_float \<Rightarrow> fault + (u8 \<times> cayenne)" where
  "CayenneLPP__addAccelerometer self x y z =
     lpp_add self LPP_ACCELEROMETER_SIZE
       (andthen (scale16 x 1000) (\<lambda>vx. andthen (scale16 y 1000) (\<lambda>vy.
        andthen (scale16 z 1000) (\<lambda>vz.
        Inr (LPP_ACCELEROMETER # be16 vx @ be16 vy @ be16 vz)))))"

definition CayenneLPP__addBarometricPressure :: "cayenne \<Rightarrow> c_float \<Rightarrow> fault + (u8 \<times> cayenne)" where
  "CayenneLPP__addBarometricPressure self hpa =
     lpp_add self LPP_BAROMETRIC_PRESSURE_SIZE
       (andthen (scale16 hpa 10) (\<lambda>val. Inr (LPP_BAROMETRIC_PRESSURE # be16 val)))"

definition CayenneLPP__addGyrometer ::
  "cayenne \<Rightarrow> c_float \<Rightarrow> c_float \<Rightarrow> c_float \<Rightarrow> fault + (u8 \<times> cayenne)" where
  "CayenneLPP__addGyrometer self x y z =
     lpp_add self LPP_GYROMETER_SIZE
       (andthen (scale16 x 100) (\<lambda>vx. andthen (scale16 y 100) (\<lambda>vy.
        andthen (scale16 z 100) (\<lambda>vz.
        Inr (LPP_GYROMETER # be16 vx @ be16 vy @ be16 vz)))))"

definition CayenneLPP__addGPS ::
  "cayenne \<Rightarrow> c_float \<Rightarrow> c_float \<Rightarrow> c_float \<Rightarrow> fault + (u8 \<times> cayenne)" where
  "CayenneLPP__addGPS self latitude longitude meters =
     lpp_add self LPP_GPS_SIZE
       (andthen (scale32 latitude 10000) (\<lambda>lat. andthen (scale32 longitude 10000) (\<lambda>lon.
        andthen (scale32 meters 100) (\<lambda>alt.
        Inr (LPP_GPS # be24 lat @ be24 lon @ be24 alt)))))"

definition CayenneLPP__addError_code :: "cayenne \<Rightarrow> u8 \<Rightarrow> fault + (u8 \<times> cayenne)" where
  "CayenneLPP__addError_code self value =
     lpp_add self CM_LPP_ERR_CODE_SIZE (Inr [CM_LPP_ERR_CODE, value])"

definition CayenneLPP__addGen :: "cayenne \<Rightarrow> u8 \<Rightarrow> fault + (u8 \<times> cayenne)" where
  "CayenneLPP__addGen self value = lpp_add self CM_LPP_GEN_SIZE (Inr [CM_LPP_GEN, value])"

definition CayenneLPP__addModel :: "cayenne \<Rightarrow> u8 \<Rightarrow> fault + (u8 \<times> cayenne)" where
  "CayenneLPP__addModel self value = lpp_add self CM_LPP_MODEL_SIZE (Inr [CM_LPP_MODEL, value])"

definition CayenneLPP__addPowerINDEX :: "cayenne \<Rightarrow> u8 \<Rightarrow> fault + (u8 \<times> cayenne)" where
  "CayenneLPP__addPowerINDEX self value =
     lpp_add self CM_LPP_POWER_INDEX_SIZE (Inr [CM_LPP_POWER_INDEX, value])"

text \<open>\<open>mac_str2hex\<close> is \<open>mlink_mac_str2hex\<close>: the six bytes of \<open>values\<close> after the call.\<close>

definition CayenneLPP__addNodeID ::
  "(string \<Rightarrow> u8 list) \<Rightarrow> cayenne \<Rightarrow> string \<Rightarrow> fault + (u8 \<times> cayenne)" where
  "CayenneLPP__addNodeID mac_str2hex self val =
     lpp_add self CM_LPP_NODE_ID_SIZE
       (let values = mac_str2hex val in
        Inr [CM_LPP_NODE_ID, values ! 0, values ! 1, values ! 2, values ! 3, values ! 4, values ! 5])"

definition CayenneLPP__addParentID ::
  "(string \<Rightarrow> u8 list) \<Rightarrow> cayenne \<Rightarrow> string \<Rightarrow> fault + (u8 \<times> cayenne)" where
  "CayenneLPP__addParentID mac_str2hex self val =
     lpp_add self CM_LPP_PARENT_ID_SIZE
       (let values = mac_str2hex val in
        Inr [CM_LPP_PARENT_ID, values ! 0, values ! 1, values ! 2, values ! 3, values ! 4, values ! 5])"

definition CayenneLPP__addColor :: "cayenne \<Rightarrow> u16 \<Rightarrow> fault + (u8 \<times> cayenne)" where
  "CayenneLPP__addColor self val = lpp_add self CM_LPP_COLOR_SIZE (Inr (CM_LPP_COLOR # be16 val))"

definition CayenneLPP__addLightControl :: "cayenne \<Rightarrow> u8 \<Rightarrow> fault + (u8 \<times> cayenne)" where
  "CayenneLPP__addLightControl self value =
     lpp_add self CM_LPP_LIGHT_CONTROL_SIZE (Inr [CM_LPP_LIGHT_CONTROL, value])"

definition CayenneLPP__addVoltage :: "cayenne \<Rightarrow> c_float \<Rightarrow> fault + (u8 \<times> cayenne)" where
  "CayenneLPP__addVoltage self value =
     lpp_add self CM_LPP_VOLTAGE_SIZE
       (andthen (scale16 value 10) (\<lambda>val. Inr (CM_LPP_VOLTAGE # be16 val)))"

definition CayenneLPP__addPower :: "cayenne \<Rightarrow> u16 \<Rightarrow> fault + (u8 \<times> cayenne)" where
  "CayenneLPP__addPower self val = lpp_add self CM_LPP_POWER_SIZE (Inr (CM_LPP_POWER # be16 val))"

definition CayenneLPP__addActuation :: "cayenne \<Rightarrow> u64 \<Rightarrow> fault + (u8 \<times> cayenne)" where
  "CayenneLPP__addActuation self val =
     lpp_add self CM_LPP_ACTUATION_SIZE
       (Inr [CM_LPP_ACTUATION, byte 40 val, byte 32 val, byte 24 val, byte 16 val, byte 8 val, byte 0 val])"

definition CayenneLPP__addMESHID :: "cayenne \<Rightarrow> u32 \<Rightarrow> fault + (u8 \<times> cayenne)" where
  "CayenneLPP__addMESHID self val =
     lpp_add self CM_LPP_MESH_ID_SIZE (Inr (CM_LPP_MESH_ID # be24 val))"

definition CayenneLPP__addMESHCH :: "cayenne \<Rightarrow> u16 \<Rightarrow> fault + (u8 \<times> cayenne)" where
  "CayenneLPP__addMESHCH self val =
     lpp_add self CM_LPP_MESH_CH_SIZE (Inr [CM_LPP_MESH_CH, byte 0 val])"

section \<open>Calls as data\<close>

text \<open>One value per call of an operation, the operation it stands for, the bytes it
  appends and the size its room test declares.\<close>

datatype lpp_field =
    Digital_Input u8 | Digital_Output u8 | Analog_Input c_float | Analog_Output c_float
  | Luminosity u16 | Presence u8 | Temperature c_float | Relative_Humidity c_float
  | Accelerometer c_float c_float c_float | Barometric_Pressure c_float
  | Gyrometer c_float c_float c_float | GPS c_float c_float c_float
  | Error_Code u8 | Gen u8 | Model u8 | Power_Index u8 | Node_ID string | Parent_ID string
  | Color u16 | Light_Control u8 | Voltage c_float | Power u16 | Actuation u64
  | Mesh_ID u32 | Mesh_CH u16

fun lpp_op :: "(string \<Rightarrow> u8 list) \<Rightarrow> lpp_field \<Rightarrow> cayenne \<Rightarrow> fault + (u8 \<times> cayenne)" where
  "lpp_op m (Digital_Input v) self = CayenneLPP__addDigitalInput self v"
| "lpp_op m (Digital_Output v) self = CayenneLPP__addDigitalOutput self v"
| "lpp_op m (Analog_Input v) self = CayenneLPP__addAnalogInput self v"
| "lpp_op m (Analog_Output v) self = CayenneLPP__addAnalogOutput self v"
| "lpp_op m (Luminosity v) self = CayenneLPP__addLuminosity self v"
| "lpp_op m (Presence v) self = CayenneLPP__addPresence self v"
| "lpp_op m (Temperature v) self = CayenneLPP__addTemperature self v"
| "lpp_op m (Relative_Humidity v) self = CayenneLPP__addRelativeHumidity self v"
| "lpp_op m (Accelerometer x y z) self = CayenneLPP__addAccelerometer self x y z"
| "lpp_op m (Barometric_Pressure v) self = CayenneLPP__addBarometricPressure self v"
| "lpp_op m (Gyrometer x y z) self = CayenneLPP__addGyrometer self x y z"
| "lpp_op m (GPS x y z) self = CayenneLPP__addGPS self x y z"
| "lpp_op m (Error_Code v) self = CayenneLPP__addError_code self v"
| "lpp_op m (Gen v) self = CayenneLPP__addGen self v"
| "lpp_op m (Model v) self = CayenneLPP__addModel self v"
| "lpp_op m (Power_Index v) self = CayenneLPP__addPowerINDEX self v"
| "lpp_op m (Node_ID s) self = CayenneLPP__addNodeID m self s"
| "lpp_op m (Parent_ID s) self = CayenneLPP__addParentID m self s"
| "lpp_op m (Color v) self = CayenneLPP__addColor self v"
| "lpp_op m (Light_Control v) self = CayenneLPP__addLightControl self v"
| "lpp_op m (Voltage v) self = CayenneLPP__addVoltage self v"
| "lpp_op m (Power v) self = CayenneLPP__addPower self v"
| "lpp_op m (Actuation v) self = CayenneLPP__addActuation self v"
| "lpp_op m (Mesh_ID v) self = CayenneLPP__addMESHID self v"
| "lpp_op m (Mesh_CH v) self = CayenneLPP__addMESHCH self v"

fun lpp_ops :: "(string \<Rightarrow> u8 list) \<Rightarrow> lpp_field list \<Rightarrow> cayenne \<Rightarrow> fault + cayenne" where
  "lpp_ops m [] self = Inr self"
| "lpp_ops m (f # fs) self = andthen (lpp_op m f self) (\<lambda>(_, self'). lpp_ops m fs self')"

definition mac_bytes :: "u8 list \<Rightarrow> u8 list" where
  "mac_bytes v = [v ! 0, v ! 1, v ! 2, v ! 3, v ! 4, v ! 5]"

definition scaled :: "u8 \<Rightarrow> c_float \<Rightarrow> rat \<Rightarrow> fault + u8 list" where
  "scaled t v k = andthen (scale16 v k) (\<lambda>val. Inr (t # be16 val))"

definition scaled3 :: "u8 \<Rightarrow> c_float \<Rightarrow> c_float \<Rightarrow> c_float \<Rightarrow> rat \<Rightarrow> fault + u8 list" where
  "scaled3 t x y z k =
     andthen (scale16 x k) (\<lambda>vx. andthen (scale16 y k) (\<lambda>vy. andthen (scale16 z k) (\<lambda>vz.
     Inr (t # be16 vx @ be16 vy @ be16 vz))))"

fun lpp_encode :: "(string \<Rightarrow> u8 list) \<Rightarrow> lpp_field \<Rightarrow> fault + u8 list" where
  "lpp_encode m (Digital_Input v) = Inr [0, v]"
| "lpp_encode m (Digital_Output v) = Inr [1, v]"
| "lpp_encode m (Analog_Input v) = scaled 2 v 100"
| "lpp_encode m (Analog_Output v) = scaled 3 v 100"
| "lpp_encode m (Luminosity v) = Inr (101 # be16 v)"
| "lpp_encode m (Presence v) = Inr [102, v]"
| "lpp_encode m (Temperature v) = scaled 103 v 10"
| "lpp_encode m (Relative_Humidity v) =
     andthen (f_to_u8 (f_mul to_f32 v (Fin 2))) (\<lambda>val. Inr [104, val])"
| "lpp_encode m (Accelerometer x y z) = scaled3 113 x y z 1000"
| "lpp_encode m (Barometric_Pressure v) = scaled 115 v 10"
| "lpp_encode m (Gyrometer x y z) = scaled3 134 x y z 100"
| "lpp_encode m (GPS x y z) =
     andthen (scale32 x 10000) (\<lambda>lat. andthen (scale32 y 10000) (\<lambda>lon.
     andthen (scale32 z 100) (\<lambda>alt. Inr (136 # be24 lat @ be24 lon @ be24 alt))))"
| "lpp_encode m (Error_Code v) = Inr [146, v]"
| "lpp_encode m (Gen v) = Inr [147, v]"
| "lpp_encode m (Model v) = Inr [148, v]"
| "lpp_encode m (Power_Index v) = Inr [149, v]"
| "lpp_encode m (Node_ID s) = Inr (150 # mac_bytes (m s))"
| "lpp_encode m (Parent_ID s) = Inr (151 # mac_bytes (m s))"
| "lpp_encode m (Color v) = Inr (135 # be16 v)"
| "lpp_encode m (Light_Control v) = Inr [111, v]"
| "lpp_encode m (Voltage v) = scaled 116 v 10"
| "lpp_encode m (Power v) = Inr (128 # be16 v)"
| "lpp_encode m (Actuation v) =
     Inr [106, byte 40 v, byte 32 v, byte 24 v, byte 16 v, byte 8 v, byte 0 v]"
| "lpp_encode m (Mesh_ID v) = Inr (153 # be24 v)"
| "lpp_encode m (Mesh_CH v) = Inr [154, byte 0 v]"

fun lpp_declared :: "lpp_field \<Rightarrow> nat" where
  "lpp_declared (Digital_Input v) = 3" | "lpp_declared (Digital_Output v) = 3"
| "lpp_declared (Analog_Input v) = 4" | "lpp_declared (Analog_Output v) = 4"
| "lpp_declared (Luminosity v) = 4" | "lpp_declared (Presence v) = 3"
| "lpp_declared (Temperature v) = 4" | "lpp_declared (Relative_Humidity v) = 3"
| "lpp_declared (Accelerometer x y z) = 8" | "lpp_declared (Barometric_Pressure v) = 4"
| "lpp_declared (Gyrometer x y z) = 8" | "lpp_declared (GPS x y z) = 11"
| "lpp_declared (Error_Code v) = 2" | "lpp_declared (Gen v) = 2" | "lpp_declared (Model v) = 2"
| "lpp_declared (Power_Index v) = 2" | "lpp_declared (Node_ID s) = 7"
| "lpp_declared (Parent_ID s) = 7" | "lpp_declared (Color v) = 3"
| "lpp_declared (Light_Control v) = 2" | "lpp_declared (Voltage v) = 3"
| "lpp_declared (Power v) = 3" | "lpp_declared (Actuation v) = 6"
| "lpp_declared (Mesh_ID v) = 4" | "lpp_declared (Mesh_CH v) = 2"

lemmas lpp_operation_defs =
  CayenneLPP__addDigitalInput_def CayenneLPP__addDigitalOutput_def CayenneLPP__addAnalogInput_def
  CayenneLPP__addAnalogOutput_def CayenneLPP__addLuminosity_def CayenneLPP__addPresence_def
  CayenneLPP__addTemperature_def CayenneLPP__addRelativeHumidity_def
  CayenneLPP__addAccelerometer_def CayenneLPP__addBarometricPressure_def
  CayenneLPP__addGyrometer_def CayenneLPP__addGPS_def CayenneLPP__addError_code_def
  CayenneLPP__addGen_def CayenneLPP__addModel_def CayenneLPP__addPowerINDEX_def
  CayenneLPP__addNodeID_def CayenneLPP__addParentID_def CayenneLPP__addColor_def
  CayenneLPP__addLightControl_def CayenneLPP__addVoltage_def CayenneLPP__addPower_def
  CayenneLPP__addActuation_def CayenneLPP__addMESHID_def CayenneLPP__addMESHCH_def

lemma lpp_op_add: "lpp_op m f self = lpp_add self (lpp_declared f) (lpp_encode m f)"
  by (cases f) (simp_all add: lpp_operation_defs scaled_def scaled3_def mac_bytes_def Let_def)

lemma length_be [simp]: "length (be16 v) = 2" "length (be24 w) = 3" "length (mac_bytes l) = 6"
  by (simp_all add: be16_def be24_def mac_bytes_def)

fun is_actuation :: "lpp_field \<Rightarrow> bool" where
  "is_actuation (Actuation v) = True"
| "is_actuation f = False"

text \<open>The declared size covers the bytes stored, except for \<open>addActuation\<close>: 7 against 6.\<close>

lemma encoded_size:
  assumes "lpp_encode m f = Inr bs"
  shows "(\<not> is_actuation f \<longrightarrow> length bs \<le> lpp_declared f) \<and> (is_actuation f \<longrightarrow> length bs = 7)
    \<and> lpp_declared f \<le> Suc (length bs) \<and> 2 \<le> length bs \<and> length bs \<le> 10"
  using assms
  by (cases f) (auto simp: scaled_def scaled3_def andthen_eq_Inr)

section \<open>What storing the bytes does\<close>

definition lpp_wf :: "nat \<Rightarrow> cayenne \<Rightarrow> bool" where
  "lpp_wf n self \<longleftrightarrow>
     length (lpp_buffer self) = n \<and> lpp_maxsize self = 255 \<and> unat (lpp_cursor self) \<le> n"

definition payload :: "cayenne \<Rightarrow> u8 list" where
  "payload self = take (unat (lpp_cursor self)) (lpp_buffer self)"

text \<open>The state after storing \<open>bs\<close> at the cursor.\<close>

definition stored :: "cayenne \<Rightarrow> u8 list \<Rightarrow> cayenne" where
  "stored self bs =
     (let c = unat (lpp_cursor self) in
      self\<lparr>lpp_buffer := take c (lpp_buffer self) @ bs @ drop (c + length bs) (lpp_buffer self),
           lpp_cursor := of_nat (c + length bs)\<rparr>)"

lemma create_wf: "lpp_wf (length block) (CayenneLPP__create block)"
    "payload (CayenneLPP__create block) = []"
  by (simp_all add: lpp_wf_def CayenneLPP__create_def payload_def)

lemma unat_cursor_stored:
  "unat (lpp_cursor self) + length bs < 256 \<Longrightarrow>
    unat (lpp_cursor (stored self bs)) = unat (lpp_cursor self) + length bs"
  by (simp add: stored_def Let_def unat_of_nat del: of_nat_add)

lemma stored_wf:
  assumes "lpp_wf n self" "unat (lpp_cursor self) + length bs \<le> n" "n < 256"
  shows "lpp_wf n (stored self bs) \<and> payload (stored self bs) = payload self @ bs"
proof -
  have c: "unat (lpp_cursor (stored self bs)) = unat (lpp_cursor self) + length bs"
    by (rule unat_cursor_stored) (use assms in simp)
  have "lpp_buffer (stored self bs) = payload self @ bs
      @ drop (unat (lpp_cursor self) + length bs) (lpp_buffer self)"
    by (simp add: stored_def Let_def payload_def)
  moreover have "length (payload self) = unat (lpp_cursor self)"
    using assms(1) by (simp add: payload_def lpp_wf_def)
  moreover have "lpp_maxsize (stored self bs) = lpp_maxsize self"
    by (simp add: stored_def Let_def)
  ultimately show ?thesis using assms c by (simp add: lpp_wf_def payload_def [of "stored self bs"])
qed

lemma stored_Cons:
  assumes "unat (lpp_cursor self) < length (lpp_buffer self)" "Suc (unat (lpp_cursor self)) < 256"
  shows "put_byte self b = Inr (stored self [b])"
    and "stored (stored self [b]) bs = stored self (b # bs)"
proof -
  let ?c = "unat (lpp_cursor self)"
  have c1: "lpp_cursor self + 1 = of_nat (Suc ?c)" by simp
  have "(lpp_buffer self)[?c := b] = take ?c (lpp_buffer self) @ b # drop (Suc ?c) (lpp_buffer self)"
    by (rule upd_conv_take_nth_drop [OF assms(1)])
  then show "put_byte self b = Inr (stored self [b])"
    using assms(1) by (simp add: put_byte_def stored_def Let_def c1)
  have c: "unat (lpp_cursor (stored self [b])) = Suc ?c"
    using unat_cursor_stored [of self "[b]"] assms(2) by simp
  have buf: "lpp_buffer (stored self [b]) =
      take ?c (lpp_buffer self) @ b # drop (Suc ?c) (lpp_buffer self)"
    by (simp add: stored_def Let_def)
  show "stored (stored self [b]) bs = stored self (b # bs)"
    unfolding stored_def [of "stored self [b]" bs] Let_def c buf
    using assms(1) by (simp add: stored_def Let_def min_absorb2 add.commute)
qed

lemma put_bytes_stored:
  "unat (lpp_cursor self) + length bs \<le> length (lpp_buffer self) \<Longrightarrow>
    unat (lpp_cursor self) + length bs < 256 \<Longrightarrow> bs \<noteq> [] \<Longrightarrow>
    put_bytes self bs = Inr (stored self bs)"
proof (induction bs arbitrary: self)
  case Nil
  then show ?case by simp
next
  case (Cons b bs)
  let ?c = "unat (lpp_cursor self)"
  have c: "?c < length (lpp_buffer self)" "Suc ?c < 256" using Cons.prems by auto
  note step = stored_Cons [OF c]
  show ?case
  proof (cases "bs = []")
    case True
    then show ?thesis by (simp add: step(1))
  next
    case False
    have c': "unat (lpp_cursor (stored self [b])) = Suc ?c"
      using unat_cursor_stored [of self "[b]"] c(2) by simp
    have "length (lpp_buffer (stored self [b])) = length (lpp_buffer self)"
      using c(1) by (simp add: stored_def Let_def)
    with Cons.IH [of "stored self [b]"] Cons.prems False c' show ?thesis
      by (simp add: step)
  qed
qed

lemma put_bytes_overrun:
  "unat (lpp_cursor self) \<le> length (lpp_buffer self) \<Longrightarrow> length (lpp_buffer self) < 256 \<Longrightarrow>
    length (lpp_buffer self) < unat (lpp_cursor self) + length bs \<Longrightarrow>
    put_bytes self bs = Inl Out_Of_Bounds"
proof (induction bs arbitrary: self)
  case Nil
  then show ?case by simp
next
  case (Cons b bs)
  let ?c = "unat (lpp_cursor self)"
  show ?case
  proof (cases "?c < length (lpp_buffer self)")
    case True
    then have c: "Suc ?c < 256 \<or> length (lpp_buffer self) = 256" using Cons.prems by auto
    then have c: "Suc ?c < 256" using Cons.prems True by auto
    note step = stored_Cons [OF True c]
    have "unat (lpp_cursor (stored self [b])) = Suc ?c"
      using unat_cursor_stored [of self "[b]"] c by simp
    moreover have "length (lpp_buffer (stored self [b])) = length (lpp_buffer self)"
      using True by (simp add: stored_def Let_def)
    ultimately show ?thesis using Cons.IH [of "stored self [b]"] Cons.prems True
      by (simp add: step(1))
  next
    case False
    then show ?thesis by (simp add: put_byte_def)
  qed
qed

text \<open>Every operation on a block of up to 255 bytes, on every branch.\<close>

lemma lpp_op_spec:
  assumes wf: "lpp_wf n self" and n: "n \<le> 255" and enc: "lpp_encode m f = Inr bs"
  shows "lpp_op m f self =
    (if unat (lpp_cursor self) + lpp_declared f > 255 then Inr (0, self)
     else if unat (lpp_cursor self) + length bs \<le> n
     then Inr (of_nat (unat (lpp_cursor self) + length bs), stored self bs)
     else Inl Out_Of_Bounds)"
proof -
  let ?c = "unat (lpp_cursor self)"
  have max: "unat (lpp_maxsize self) = 255" and len: "length (lpp_buffer self) = n" and c: "?c \<le> n"
    using wf by (simp_all add: lpp_wf_def)
  have ne: "bs \<noteq> []" using encoded_size [OF enc] by auto
  show ?thesis
  proof (cases "?c + length bs \<le> n")
    case True
    have "put_bytes self bs = Inr (stored self bs)"
      by (rule put_bytes_stored) (use True n ne len in auto)
    moreover have "lpp_cursor (stored self bs) = of_nat (?c + length bs)"
      by (simp add: stored_def Let_def)
    ultimately show ?thesis using True by (simp add: lpp_op_add lpp_add_def max enc)
  next
    case False
    have "put_bytes self bs = Inl Out_Of_Bounds"
      by (rule put_bytes_overrun) (use False n len c in auto)
    then show ?thesis using False by (simp add: lpp_op_add lpp_add_def max enc)
  qed
qed

lemma lpp_op_conversion_fault:
  assumes "lpp_wf n self" "lpp_encode m f = Inl e"
  shows "lpp_op m f self =
    (if unat (lpp_cursor self) + lpp_declared f > 255 then Inr (0, self) else Inl e)"
  using assms by (simp add: lpp_op_add lpp_add_def lpp_wf_def)

lemma lpp_ops_append:
  assumes "list_all2 (\<lambda>f bs. lpp_encode m f = Inr bs) fs bss"
    and "lpp_wf n self" "n < 255" "unat (lpp_cursor self) + length (concat bss) \<le> n"
  shows "\<exists>self'. lpp_ops m fs self = Inr self' \<and> lpp_wf n self'
    \<and> payload self' = payload self @ concat bss"
  using assms
proof (induction fs bss arbitrary: self rule: list_all2_induct)
  case Nil
  then show ?case by simp
next
  case (Cons f fs bs bss)
  let ?c = "unat (lpp_cursor self)"
  have fit: "?c + length bs \<le> n" using Cons.prems by simp
  have "lpp_declared f \<le> Suc (length bs)" using encoded_size [OF Cons.hyps(1)] by simp
  then have op: "lpp_op m f self = Inr (of_nat (?c + length bs), stored self bs)"
    using lpp_op_spec [OF Cons.prems(1) _ Cons.hyps(1)] fit Cons.prems(2) by simp
  have wf: "lpp_wf n (stored self bs)" "payload (stored self bs) = payload self @ bs"
    using stored_wf [OF Cons.prems(1) fit] Cons.prems(2) by auto
  have "unat (lpp_cursor (stored self bs)) = ?c + length bs"
    by (rule unat_cursor_stored) (use fit Cons.prems(2) in simp)
  with Cons.IH [OF wf(1) Cons.prems(2)] Cons.prems(3) op wf(2) show ?case by simp
qed

section \<open>Values of the stored bytes\<close>

definition be_value :: "u8 list \<Rightarrow> nat" where
  "be_value bs = foldl (\<lambda>v b. v * 256 + unat b) 0 bs"

lemma unat_byte: "unat (byte n w) = unat w div 2 ^ n mod 256"
proof -
  have "unat (drop_bit n w) = unat w div 2 ^ n"
    by (simp only: unat_drop_bit_eq drop_bit_eq_div [of n "unat w"])
  then show ?thesis
    by (simp only: byte_def unsigned_ucast_eq take_bit_eq_mod) simp
qed

lemma div_mod_join: "(x :: nat) div (a * b) mod c * b + x div a mod b = x div a mod (b * c)"
  by (simp add: mod_mult2_eq div_mult2_eq mult.commute)

lemma be_value_be16: "be_value (be16 v) = unat v"
proof -
  have "unat v < 65536" using unsigned_less [where 'a = nat and w = v] by simp
  then show ?thesis using div_mod_join [of "unat v" 1 256 256]
    by (simp add: be_value_def be16_def unat_byte)
qed

lemma be_value_be24: "be_value (be24 v) = unat v mod 2 ^ 24"
  using div_mod_join [of "unat v" 256 256 256] div_mod_join [of "unat v" 1 256 65536]
  by (simp add: be_value_def be24_def unat_byte)

lemma be_value_actuation:
  "be_value [byte 40 v, byte 32 v, byte 24 v, byte 16 v, byte 8 v, byte 0 v] = unat v mod 2 ^ 48"
  using div_mod_join [of "unat v" "2 ^ 32" 256 256] div_mod_join [of "unat v" "2 ^ 24" 256 "2 ^ 16"]
    div_mod_join [of "unat v" "2 ^ 16" 256 "2 ^ 24"] div_mod_join [of "unat v" "2 ^ 8" 256 "2 ^ 32"]
    div_mod_join [of "unat v" 1 256 "2 ^ 40"]
  by (simp add: be_value_def unat_byte)

section \<open>Properties\<close>

text \<open>C14: A payload built by any sequence of operations in a fresh block is the
  concatenation of the encodings of its fields, and no store leaves the block, whenever
  their total length fits the block (of at most 254 bytes).\<close>

theorem lpp_message_is_concatenation:
  assumes "list_all2 (\<lambda>f bs. lpp_encode m f = Inr bs) fs bss"
    and "length (concat bss) \<le> length block" and "length block < 255"
  shows "\<exists>self. lpp_ops m fs (CayenneLPP__create block) = Inr self
    \<and> unat (CayenneLPP__getSize self) = length (concat bss)
    \<and> take (length (concat bss)) (CayenneLPP__getBuffer self) = concat bss"
proof -
  have fit: "unat (lpp_cursor (CayenneLPP__create block)) + length (concat bss) \<le> length block"
    using assms(2) by (simp add: CayenneLPP__create_def)
  obtain self where self: "lpp_ops m fs (CayenneLPP__create block) = Inr self"
      "lpp_wf (length block) self" "payload self = concat bss"
    using lpp_ops_append [OF assms(1) create_wf(1) assms(3) fit] by (auto simp: create_wf(2))
  have "length (payload self) = unat (lpp_cursor self)"
    using self(2) by (simp add: payload_def lpp_wf_def)
  then have "unat (lpp_cursor self) = length (concat bss)" using self(3) by simp
  then show ?thesis using self by (auto simp: CayenneLPP__getSize_def CayenneLPP__getBuffer_def payload_def)
qed

theorem lpp_message_is_concatenation_witness:
  "\<exists>self. lpp_ops (\<lambda>_. [1, 2, 3, 4, 5, 6]) [Node_ID ''010203040506'', Color 2700, Light_Control 50]
      (CayenneLPP__create (replicate 51 0)) = Inr self
    \<and> take 12 (lpp_buffer self) = [150, 1, 2, 3, 4, 5, 6, 135, 10, 140, 111, 50]"
proof -
  let ?m = "\<lambda>_ :: string. [1, 2, 3, 4, 5, 6] :: u8 list"
  have "list_all2 (\<lambda>f bs. lpp_encode ?m f = Inr bs)
      [Node_ID ''010203040506'', Color 2700, Light_Control 50]
      [[150, 1, 2, 3, 4, 5, 6], [135, 10, 140], [111, 50]]"
    by (simp add: mac_bytes_def be16_def byte_def)
  from lpp_message_is_concatenation [OF this, of "replicate 51 0"] show ?thesis
    by (simp only: CayenneLPP__getBuffer_def) (auto simp: eval_nat_numeral)
qed

text \<open>What an operation does on a block of at most 255 bytes, on every branch: it
  refuses and returns 0 when the declared size does not fit 255, appends its encoding and
  returns the new cursor when the bytes fit the block, and otherwise stores past the end
  of the block, because the room test compares with 255 and never with the size given to
  \<open>CayenneLPP__create\<close>.\<close>

theorem lpp_operation_branches:
  assumes "lpp_wf n self" and "n \<le> 255" and "lpp_encode m f = Inr bs"
  shows "lpp_op m f self =
    (if unat (lpp_cursor self) + lpp_declared f > 255 then Inr (0, self)
     else if unat (lpp_cursor self) + length bs \<le> n
     then Inr (of_nat (unat (lpp_cursor self) + length bs), stored self bs)
     else Inl Out_Of_Bounds)"
  by (rule lpp_op_spec [OF assms])

theorem lpp_operation_branches_witness:
  "lpp_op (\<lambda>_. []) (Color 2700) (CayenneLPP__create [0, 0]) = Inl Out_Of_Bounds"
  using lpp_operation_branches [of 2 "CayenneLPP__create [0, 0]" "\<lambda>_. []" "Color 2700" "135 # be16 2700"]
    create_wf(1) [of "[0, 0]"]
  by (simp add: CayenneLPP__create_def numeral_2_eq_2)

text \<open>C34: In a block of 255 bytes, the size the room test assumes, the test protects every
  operation but one: the only store past the block is \<open>addActuation\<close> at cursor 249, whose
  declared size is one byte short.\<close>

theorem only_actuation_overruns:
  assumes "lpp_wf 255 self"
  shows "lpp_op m f self = Inl Out_Of_Bounds \<longleftrightarrow> is_actuation f \<and> unat (lpp_cursor self) = 249"
proof (cases "lpp_encode m f")
  case (Inl e)
  have "e = Float_Range"
    using Inl by (cases f) (auto simp: scaled_def scaled3_def scale16_def scale32_def f_to_u8_def
      f_to_u16_def f_to_u32_def andthen_eq_Inl elim!: f_to_int.elims split: if_splits)
  moreover have "\<not> is_actuation f" using Inl by (cases f) auto
  ultimately show ?thesis using lpp_op_conversion_fault [OF assms Inl] by simp
next
  case (Inr bs)
  note spec = lpp_op_spec [OF assms order_refl Inr] and size = encoded_size [OF Inr]
  show ?thesis
  proof (cases "is_actuation f")
    case True
    then obtain v where "f = Actuation v" by (cases f) auto
    then show ?thesis using spec size by auto
  next
    case False
    then show ?thesis using spec size by auto
  qed
qed

theorem only_actuation_overruns_witness:
  "lpp_op (\<lambda>_. []) (Actuation 1)
    \<lparr>lpp_buffer = replicate 255 0, lpp_maxsize = 255, lpp_cursor = 249\<rparr> = Inl Out_Of_Bounds"
  using only_actuation_overruns [of "\<lparr>lpp_buffer = replicate 255 0, lpp_maxsize = 255, lpp_cursor = 249\<rparr>"
      "\<lambda>_. []" "Actuation 1"]
  by (simp add: lpp_wf_def del: replicate.simps)

text \<open>A temperature from 0 to 6553.5 degrees is stored as one of the two integers next
  to ten times its value; one of at most -0.1 degrees is converted out of the range of
  \<open>unsigned short\<close>, although the header calls the field signed.\<close>

lemma temperature_encoding:
  assumes "lpp_wf n self" and "unat (lpp_cursor self) + 4 \<le> 255"
  shows "(0 \<le> c \<and> c \<le> 6553 + 1 / 2 \<longrightarrow>
      (\<exists>v. CayenneLPP__addTemperature self (Fin c) = lpp_add self 4 (Inr (103 # be16 v))
        \<and> \<lfloor>c * 10\<rfloor> \<le> int (be_value (be16 v)) \<and> int (be_value (be16 v)) \<le> \<lceil>c * 10\<rceil>))
    \<and> (- 1000000 \<le> c \<and> c \<le> - 1 / 10 \<longrightarrow> CayenneLPP__addTemperature self (Fin c) = Inl Float_Range)"
proof (intro conjI impI)
  assume "0 \<le> c \<and> c \<le> 6553 + 1 / 2"
  then have "0 \<le> c * 10" "c * 10 \<le> 65535" by auto
  from f_to_u16_near [OF this] obtain v where
    v: "f_to_u16 (to_f32 (c * 10)) = Inr v" "\<lfloor>c * 10\<rfloor> \<le> uint v" "uint v \<le> \<lceil>c * 10\<rceil>" by blast
  then show "\<exists>v. CayenneLPP__addTemperature self (Fin c) = lpp_add self 4 (Inr (103 # be16 v))
      \<and> \<lfloor>c * 10\<rfloor> \<le> int (be_value (be16 v)) \<and> int (be_value (be16 v)) \<le> \<lceil>c * 10\<rceil>"
    by (intro exI [of _ v])
      (simp add: CayenneLPP__addTemperature_def scale16_def be_value_be16 flip: uint_nat)
next
  assume "- 1000000 \<le> c \<and> c \<le> - 1 / 10"
  then have "of_int (- 10000000) \<le> c * 10" "c * 10 \<le> of_int (- 1)" by auto
  then obtain y where y: "to_f32 (c * 10) = Fin y" "y \<le> - 1"
    using to_f32_int_bounds [of "- 10000000" "- 1" "c * 10"] by auto
  then have "trunc y \<le> - 1" using trunc_neg_le by blast
  then have "scale16 (Fin c) 10 = Inl Float_Range"
    by (simp add: scale16_def f_to_u16_def y(1))
  then show "CayenneLPP__addTemperature self (Fin c) = Inl Float_Range"
    using assms by (simp add: CayenneLPP__addTemperature_def lpp_add_def lpp_wf_def)
qed

end
