(* ===== verification/LPP_Decoder.thy ===== *)
theory LPP_Decoder
  imports Cayenne_LPP
begin

text \<open>
  The downlink decoder \<open>components/CM-LPPDEC/CMLPPDec.cpp\<close>. \<open>ParseCMLPP\<close> walks over a
  buffer whose length it is told in one byte and reports each item it knows with a call of
  cJSON. The JSON object is the list of those calls in their order; cJSON itself and
  \<open>mlink_mac_hex2str\<close> (6 bytes to 12 hexadecimal digits) are not part of the repository,
  the latter is an argument. The values of a GPS item are computed and dropped by the
  code; \<open>gps_tvalue\<close> is that computation.
\<close>

section \<open>The decoder\<close>

datatype json_item = AddNumber string int | AddString string string

text \<open>\<open>(b1 << 16) | (b2 << 8) | b3\<close>, with \<open>0xFF000000\<close> added when the high nibble of
  \<open>b1\<close> is \<open>F\<close>; the bits of the \<open>int32_t\<close>.\<close>

definition gps_tvalue :: "u8 \<Rightarrow> u8 \<Rightarrow> u8 \<Rightarrow> u32" where
  "gps_tvalue b1 b2 b3 =
     (let tvalue = push_bit 16 (ucast b1) OR push_bit 8 (ucast b2) OR ucast b3
      in if b1 AND 0xF0 = 0xF0 then tvalue OR 0xFF000000 else tvalue)"

definition gps_values :: "u8 list \<Rightarrow> fault + (c_float \<times> c_float \<times> c_float)" where
  "gps_values p =
     andthen (rd p 9) (\<lambda>b9.
     let value = (\<lambda>i k. f_div_const to_f32 (to_f32 (of_int (sint
           (gps_tvalue (p ! i) (p ! (i + 1)) (p ! (i + 2)))))) k)
     in Inr (value 1 10000, value 4 10000, value 7 100))"

definition get16 :: "u8 \<Rightarrow> u8 \<Rightarrow> u16" where
  "get16 b1 b2 = push_bit 8 (ucast b1) OR ucast b2"

lemma unat_Len_minus: "k \<le> unat Len \<Longrightarrow> unat ((Len :: u8) - of_nat k) = unat Len - k"
proof -
  assume k: "k \<le> unat Len"
  have "unat Len < 256" by (rule unat_u8_lt)
  with k have "unat (of_nat k :: u8) = k" by (simp add: unat_of_nat)
  with k show ?thesis by (simp add: unat_sub word_le_nat_alt)
qed

function parse_loop ::
  "(u8 list \<Rightarrow> string) \<Rightarrow> u8 list \<Rightarrow> u8 \<Rightarrow> json_item list \<Rightarrow> fault + (bool \<times> json_item list)" where
  "parse_loop mac_hex2str p Len obj =
     (if unat Len < 2 then Inr (Len = 0, obj)
      else andthen (rd p 0) (\<lambda>lpp_type.
        if lpp_type = LPP_GPS then
          (if unat Len < LPP_GPS_SIZE then Inr (False, obj)
           else andthen (gps_values p) (\<lambda>_.
             parse_loop mac_hex2str (drop LPP_GPS_SIZE p) (Len - of_nat LPP_GPS_SIZE) obj))
        else if lpp_type = CM_LPP_COLOR then
          (if unat Len < CM_LPP_COLOR_SIZE then Inr (False, obj)
           else andthen (rd p 2) (\<lambda>b2.
             parse_loop mac_hex2str (drop CM_LPP_COLOR_SIZE p) (Len - of_nat CM_LPP_COLOR_SIZE)
               (obj @ [AddNumber ''color'' (uint (get16 (p ! 1) b2))])))
        else if lpp_type = CM_LPP_LIGHT_CONTROL then
          (if unat Len < CM_LPP_LIGHT_CONTROL_SIZE then Inr (False, obj)
           else andthen (rd p 1) (\<lambda>b1.
             parse_loop mac_hex2str (drop CM_LPP_LIGHT_CONTROL_SIZE p)
               (Len - of_nat CM_LPP_LIGHT_CONTROL_SIZE)
               (obj @ [AddNumber ''brightness'' (uint b1)])))
        else if lpp_type = CM_LPP_NODE_ID then
          (if unat Len < CM_LPP_NODE_ID_SIZE then Inr (False, obj)
           else andthen (rd p 6) (\<lambda>b6.
             parse_loop mac_hex2str (drop CM_LPP_NODE_ID_SIZE p) (Len - of_nat CM_LPP_NODE_ID_SIZE)
               (obj @ [AddString ''nodeid''
                  (mac_hex2str [p ! 1, p ! 2, p ! 3, p ! 4, p ! 5, b6])])))
        else if lpp_type = CM_LPP_READ_GPS then
          (if unat Len < CM_LPP_READ_GPS_SIZE then Inr (False, obj)
           else andthen (rd p 1) (\<lambda>b1.
             parse_loop mac_hex2str (drop CM_LPP_READ_GPS_SIZE p) (Len - of_nat CM_LPP_READ_GPS_SIZE)
               (obj @ [AddNumber ''read_gps'' (uint b1)])))
        else if lpp_type = CM_LPP_TYPE_CONTROL then
          (if unat Len < CM_LPP_TYPE_CONTROL_SIZE then Inr (False, obj)
           else andthen (rd p 1) (\<lambda>b1.
             parse_loop mac_hex2str (drop CM_LPP_TYPE_CONTROL_SIZE p)
               (Len - of_nat CM_LPP_TYPE_CONTROL_SIZE)
               (obj @ [AddNumber ''type_control'' (uint b1)])))
        else Inr (False, obj)))"
  by pat_completeness auto

termination
  by (relation "measure (\<lambda>(_, _, Len, _). unat Len)")
    (auto simp: unat_Len_minus simp del: of_nat_numeral)

declare parse_loop.simps [simp del]

definition ParseCMLPP ::
  "(u8 list \<Rightarrow> string) \<Rightarrow> u8 list \<Rightarrow> u8 \<Rightarrow> fault + (bool \<times> json_item list)" where
  "ParseCMLPP mac_hex2str pBuffer Len = parse_loop mac_hex2str pBuffer Len []"

section \<open>Items\<close>

text \<open>What the decoder accepts, as data: the items, their bytes and the calls they give.\<close>

datatype downlink_item =
    D_Gps "u8 list" | D_Color u16 | D_Brightness u8 | D_Nodeid "u8 list" | D_Read_Gps u8 | D_Type u8

fun item_wf :: "downlink_item \<Rightarrow> bool" where
  "item_wf (D_Gps bs) = (length bs = 10)"
| "item_wf (D_Nodeid bs) = (length bs = 6)"
| "item_wf _ = True"

fun item_bytes :: "downlink_item \<Rightarrow> u8 list" where
  "item_bytes (D_Gps bs) = LPP_GPS # bs"
| "item_bytes (D_Color v) = CM_LPP_COLOR # be16 v"
| "item_bytes (D_Brightness v) = [CM_LPP_LIGHT_CONTROL, v]"
| "item_bytes (D_Nodeid bs) = CM_LPP_NODE_ID # bs"
| "item_bytes (D_Read_Gps v) = [CM_LPP_READ_GPS, v]"
| "item_bytes (D_Type v) = [CM_LPP_TYPE_CONTROL, v]"

fun item_json :: "(u8 list \<Rightarrow> string) \<Rightarrow> downlink_item \<Rightarrow> json_item list" where
  "item_json f (D_Gps bs) = []"
| "item_json f (D_Color v) = [AddNumber ''color'' (uint v)]"
| "item_json f (D_Brightness v) = [AddNumber ''brightness'' (uint v)]"
| "item_json f (D_Nodeid bs) = [AddString ''nodeid'' (f bs)]"
| "item_json f (D_Read_Gps v) = [AddNumber ''read_gps'' (uint v)]"
| "item_json f (D_Type v) = [AddNumber ''type_control'' (uint v)]"

definition starts_item :: "u8 list \<Rightarrow> bool" where
  "starts_item p \<longleftrightarrow> (\<exists>i r. item_wf i \<and> p = item_bytes i @ r)"

lemma get16_be16: "get16 (byte 8 v) (byte 0 v) = v"
  by (rule bit_word_eqI)
    (auto simp: get16_def byte_def bit_simps)

lemma be16_get16: "be16 (get16 b1 b2) = [b1, b2]"
  unfolding be16_def byte_def get16_def
  by (intro list.inject [THEN iffD2] conjI bit_word_eqI)
    (auto simp: bit_simps dest: bit_imp_le_length)

lemma length_six: "length bs = 6 \<Longrightarrow> [bs ! 0, bs ! 1, bs ! 2, bs ! 3, bs ! 4, bs ! 5] = bs"
  by (rule nth_equalityI) (auto simp: less_Suc_eq numeral_eq_Suc)

lemma item_bytes_ge2: "item_wf i \<Longrightarrow> 2 \<le> length (item_bytes i)"
  by (cases i) simp_all

lemma gps_values_in: "10 \<le> length p \<Longrightarrow> \<exists>v. gps_values p = Inr v"
  by (simp add: gps_values_def Let_def)

lemma parse_item:
  assumes "item_wf i" "length (item_bytes i) \<le> unat Len"
  shows "parse_loop f (item_bytes i @ r) Len js
    = parse_loop f r (Len - of_nat (length (item_bytes i))) (js @ item_json f i)"
proof (cases i)
  case (D_Gps bs)
  then obtain v where "gps_values (LPP_GPS # bs @ r) = Inr v"
    using gps_values_in [of "LPP_GPS # bs @ r"] assms(1) by auto
  then show ?thesis using D_Gps assms by (simp add: parse_loop.simps [of f "_ # _"])
next
  case (D_Nodeid bs)
  then have "length bs = 6" using assms(1) by simp
  then have "[bs ! 0, bs ! 1, bs ! 2, bs ! 3, bs ! 4, bs ! 5] = bs" by (rule length_six)
  then show ?thesis using D_Nodeid assms by (simp add: parse_loop.simps [of f "_ # _"] nth_append)
qed (use assms in \<open>simp_all add: parse_loop.simps [of f "_ # _"] be16_def get16_be16\<close>)

lemma not_starts_Nil [simp]: "\<not> starts_item []"
proof
  assume "starts_item []"
  then obtain i where "item_wf i" "item_bytes i = []" by (auto simp: starts_item_def)
  then show False using item_bytes_ge2 [of i] by simp
qed

lemma starts_item_sizes:
  assumes "\<not> starts_item (t # q)"
  shows "(t = LPP_GPS \<longrightarrow> length q < 10) \<and> (t = CM_LPP_COLOR \<longrightarrow> length q < 2)
    \<and> (t = CM_LPP_NODE_ID \<longrightarrow> length q < 6)
    \<and> (t \<in> {CM_LPP_LIGHT_CONTROL, CM_LPP_READ_GPS, CM_LPP_TYPE_CONTROL} \<longrightarrow> q = [])"
proof -
  have no: "\<not> (item_wf i \<and> t # q = item_bytes i @ r)" for i r
    using assms by (auto simp: starts_item_def)
  have "t = LPP_GPS \<longrightarrow> length q < 10" using no [of "D_Gps (take 10 q)" "drop 10 q"] by auto
  moreover have "t = CM_LPP_NODE_ID \<longrightarrow> length q < 6"
    using no [of "D_Nodeid (take 6 q)" "drop 6 q"] by auto
  moreover have "t = CM_LPP_COLOR \<longrightarrow> length q < 2"
    using no [of "D_Color (get16 (q ! 0) (q ! 1))" "drop 2 q"]
    by (cases q rule: remdups_adj.cases) (auto simp: be16_get16)
  moreover have "t \<in> {CM_LPP_LIGHT_CONTROL, CM_LPP_READ_GPS, CM_LPP_TYPE_CONTROL} \<longrightarrow> q = []"
    using no [of "D_Brightness (hd q)" "tl q"] no [of "D_Read_Gps (hd q)" "tl q"]
      no [of "D_Type (hd q)" "tl q"] by (cases q) auto
  ultimately show ?thesis by blast
qed

lemma parse_stuck:
  assumes "\<not> starts_item p" "length p = unat Len"
  shows "parse_loop f p Len js = Inr (p = [], js)"
proof (cases p)
  case Nil
  then have "unat Len = 0" using assms(2) by simp
  then show ?thesis using Nil by (simp add: parse_loop.simps [of f "[]"] unat_eq_0)
next
  case (Cons t q)
  note short = starts_item_sizes [OF assms(1) [unfolded Cons]]
  have Len: "unat Len = Suc (length q)" "Len \<noteq> 0" using Cons assms(2) by auto
  show ?thesis
    by (cases "q = []") (use short in \<open>auto simp: parse_loop.simps [of f "_ # _"] Cons Len\<close>)
qed

fun items_bytes :: "downlink_item list \<Rightarrow> u8 list" where
  "items_bytes [] = []"
| "items_bytes (i # is) = item_bytes i @ items_bytes is"

fun items_json :: "(u8 list \<Rightarrow> string) \<Rightarrow> downlink_item list \<Rightarrow> json_item list" where
  "items_json f [] = []"
| "items_json f (i # is) = item_json f i @ items_json f is"

lemma parse_items:
  assumes "\<forall>i \<in> set is. item_wf i" "length (items_bytes is @ r) = unat Len"
  shows "parse_loop f (items_bytes is @ r) Len js
    = parse_loop f r (of_nat (length r)) (js @ items_json f is)"
  using assms
proof (induction "is" arbitrary: Len js)
  case Nil
  then have "length r = unat Len" by simp
  then show ?case by simp
next
  case (Cons i "is")
  let ?k = "length (item_bytes i)"
  have k: "?k \<le> unat Len" using Cons.prems(2) by simp
  have "length (items_bytes is @ r) = unat (Len - of_nat ?k)"
    using unat_Len_minus [OF k] Cons.prems(2) by simp
  then show ?case
    using parse_item [of i Len f "items_bytes is @ r" js] k Cons.IH [of "Len - of_nat ?k"] Cons.prems(1)
    by simp
qed

text \<open>Every buffer is a sequence of items followed by a rest that starts with none.\<close>

lemma split_items:
  "\<exists>is r. (\<forall>i \<in> set is. item_wf i) \<and> p = items_bytes is @ r \<and> \<not> starts_item r"
proof (induction p rule: length_induct)
  case (1 p)
  show ?case
  proof (cases "starts_item p")
    case False
    then show ?thesis by (intro exI [of _ "[]"] exI [of _ p]) simp
  next
    case True
    then obtain i r where i: "item_wf i" "p = item_bytes i @ r" by (auto simp: starts_item_def)
    then have "length p = length (item_bytes i) + length r" by simp
    then have "length r < length p" using item_bytes_ge2 [OF i(1)] by linarith
    with 1 obtain "is" r' where
      "\<forall>i \<in> set is. item_wf i" "r = items_bytes is @ r'" "\<not> starts_item r'" by blast
    with i show ?thesis by (intro exI [of _ "i # is"] exI [of _ r']) simp
  qed
qed

lemma parse_split:
  assumes "\<forall>i \<in> set is. item_wf i" "\<not> starts_item r" "length (items_bytes is @ r) = unat Len"
  shows "ParseCMLPP f (items_bytes is @ r) Len = Inr (r = [], items_json f is)"
proof -
  have "length r < 256" using assms(3) unat_u8_lt [of Len] by simp
  then have "length r = unat (of_nat (length r) :: u8)" by (simp add: unat_of_nat)
  with parse_stuck [OF assms(2)] show ?thesis
    using parse_items [OF assms(1,3)] by (simp add: ParseCMLPP_def)
qed

section \<open>Properties\<close>

text \<open>C12: The decoder never reads outside a buffer as long as the length it is told; it
  reports exactly the items the buffer starts with, in their order, and returns true
  exactly when nothing is left over.\<close>

theorem parse_reports_items:
  assumes "length p = unat Len"
  shows "\<exists>is r. (\<forall>i \<in> set is. item_wf i) \<and> p = items_bytes is @ r \<and> \<not> starts_item r
    \<and> ParseCMLPP f p Len = Inr (r = [], items_json f is)"
proof -
  obtain "is" r where "\<forall>i \<in> set is. item_wf i" "p = items_bytes is @ r" "\<not> starts_item r"
    using split_items by blast
  with parse_split assms show ?thesis by blast
qed

theorem parse_reports_items_witness:
  "\<exists>is r. (\<forall>i \<in> set is. item_wf i) \<and> [111, 50, 7] = items_bytes is @ r \<and> \<not> starts_item r
    \<and> ParseCMLPP (\<lambda>_. []) [111, 50, 7] 3 = Inr (r = [], items_json (\<lambda>_. []) is)"
  by (rule parse_reports_items) simp

text \<open>A buffer made of items is decoded to the calls of those items, and accepted; no
  other buffer of that length is accepted.\<close>

theorem parse_accepts_iff_items:
  assumes "length p = unat Len"
  shows "ParseCMLPP f p Len = Inr (True, js) \<longleftrightarrow>
    (\<exists>is. (\<forall>i \<in> set is. item_wf i) \<and> p = items_bytes is \<and> js = items_json f is)"
proof
  assume acc: "ParseCMLPP f p Len = Inr (True, js)"
  obtain "is" r where "\<forall>i \<in> set is. item_wf i" "p = items_bytes is @ r" "\<not> starts_item r"
    using split_items by blast
  with parse_split [of "is" r Len f] assms acc
  show "\<exists>is. (\<forall>i \<in> set is. item_wf i) \<and> p = items_bytes is \<and> js = items_json f is" by auto
next
  assume "\<exists>is. (\<forall>i \<in> set is. item_wf i) \<and> p = items_bytes is \<and> js = items_json f is"
  then show "ParseCMLPP f p Len = Inr (True, js)"
    using parse_split [of _ "[]" Len f] assms by auto
qed

theorem parse_accepts_iff_items_witness:
  "ParseCMLPP (\<lambda>_. []) [135, 10, 140, 111, 50] 5
    = Inr (True, [AddNumber ''color'' 2700, AddNumber ''brightness'' 50])"
proof (rule parse_accepts_iff_items [THEN iffD2])
  show "\<exists>is. (\<forall>i \<in> set is. item_wf i) \<and> [135, 10, 140, 111, 50] = items_bytes is
      \<and> [AddNumber ''color'' 2700, AddNumber ''brightness'' 50] = items_json (\<lambda>_. []) is"
    by (intro exI [of _ "[D_Color 2700, D_Brightness 50]"]) (simp add: be16_def byte_def)
qed simp

section \<open>Against the encoder\<close>

text \<open>The fields of the encoder the decoder knows, except GPS.\<close>

fun item_of :: "(string \<Rightarrow> u8 list) \<Rightarrow> lpp_field \<Rightarrow> downlink_item option" where
  "item_of m (Color v) = Some (D_Color v)"
| "item_of m (Light_Control v) = Some (D_Brightness v)"
| "item_of m (Node_ID s) = Some (D_Nodeid (mac_bytes (m s)))"
| "item_of m _ = None"

lemma item_of_encode:
  "item_of m fld = Some i \<Longrightarrow> lpp_encode m fld = Inr (item_bytes i) \<and> item_wf i"
  by (cases fld) auto

lemma items_bytes_concat: "items_bytes is = concat (map item_bytes is)"
  by (induction "is") simp_all

lemma items_of_encode:
  "map (item_of m) fs = map Some is \<Longrightarrow>
    list_all2 (\<lambda>fld bs. lpp_encode m fld = Inr bs) fs (map item_bytes is) \<and> (\<forall>i \<in> set is. item_wf i)"
proof (induction fs arbitrary: "is")
  case Nil
  then show ?case by simp
next
  case (Cons fld fs)
  then show ?case using item_of_encode by (cases "is") auto
qed

text \<open>C13: What the encoder writes for node id, color and brightness fields, the decoder
  reads back as the same values in the same order.\<close>

theorem encode_decode:
  assumes "map (item_of m) fs = map Some is"
    and "length (items_bytes is) \<le> length block" and "length block < 255"
  shows "\<exists>self. lpp_ops m fs (CayenneLPP__create block) = Inr self
    \<and> ParseCMLPP f (take (unat (CayenneLPP__getSize self)) (CayenneLPP__getBuffer self))
        (CayenneLPP__getSize self) = Inr (True, items_json f is)"
proof -
  note enc = items_of_encode [OF assms(1)]
  have fit: "unat (lpp_cursor (CayenneLPP__create block)) + length (concat (map item_bytes is))
      \<le> length block"
    using assms(2) by (simp add: items_bytes_concat CayenneLPP__create_def)
  obtain self where self: "lpp_ops m fs (CayenneLPP__create block) = Inr self"
      "lpp_wf (length block) self" "payload self = items_bytes is"
    using lpp_ops_append [OF enc [THEN conjunct1] create_wf(1) assms(3) fit]
    by (auto simp: create_wf(2) items_bytes_concat)
  have "length (payload self) = unat (lpp_cursor self)"
    using self(2) by (simp add: payload_def lpp_wf_def)
  then have "ParseCMLPP f (payload self) (lpp_cursor self) = Inr (True, items_json f is)"
    using parse_split [of "is" "[]" "lpp_cursor self" f] enc self(3) by simp
  with self(1) show ?thesis
    by (auto simp: payload_def CayenneLPP__getSize_def CayenneLPP__getBuffer_def)
qed

theorem encode_decode_witness:
  "\<exists>self. lpp_ops (\<lambda>_. [1, 2, 3, 4, 5, 6]) [Node_ID ''010203040506'', Color 2700]
      (CayenneLPP__create (replicate 51 0)) = Inr self
    \<and> ParseCMLPP (\<lambda>_. ''010203040506'')
        (take (unat (CayenneLPP__getSize self)) (CayenneLPP__getBuffer self))
        (CayenneLPP__getSize self)
      = Inr (True, [AddString ''nodeid'' ''010203040506'', AddNumber ''color'' 2700])"
  using encode_decode [of "\<lambda>_. [1, 2, 3, 4, 5, 6]" "[Node_ID ''010203040506'', Color 2700]"
      "[D_Nodeid [1, 2, 3, 4, 5, 6], D_Color 2700]" "replicate 51 0" "\<lambda>_. ''010203040506''"]
  by (simp add: mac_bytes_def)

lemma gps_encoding:
  "lpp_encode m (GPS x y z) = Inr bs \<Longrightarrow> \<exists>vs. bs = LPP_GPS # vs \<and> length vs = 9"
  by (auto simp: andthen_eq_Inr)

text \<open>Encoder and decoder disagree on the size of a GPS item: the encoder writes 10
  bytes, the decoder refuses 10 and, when a byte follows, takes it as part of the item.\<close>

lemma gps_item_loses_sync:
  assumes "lpp_encode m (GPS x y z) = Inr bs" and "length q \<le> 244"
  shows "ParseCMLPP f bs 10 = Inr (False, [])
    \<and> ParseCMLPP f (bs @ b # q) (of_nat (11 + length q)) = ParseCMLPP f q (of_nat (length q))"
proof -
  obtain vs where vs: "bs = LPP_GPS # vs" "length vs = 9" using gps_encoding assms(1) by blast
  have stuck: "\<not> starts_item bs"
  proof
    assume "starts_item bs"
    then obtain i r where "item_wf i" "bs = item_bytes i @ r" by (auto simp: starts_item_def)
    with vs show False by (cases i) auto
  qed
  have "bs @ b # q = items_bytes [D_Gps (vs @ [b])] @ q" using vs by simp
  moreover have "length (items_bytes [D_Gps (vs @ [b])] @ q) = unat (of_nat (11 + length q) :: u8)"
    using vs assms(2) by (simp add: unat_of_nat del: of_nat_add)
  ultimately show ?thesis
    using parse_items [of "[D_Gps (vs @ [b])]" q _ f "[]"] parse_stuck [OF stuck, of 10] vs
    by (simp add: ParseCMLPP_def)
qed

section \<open>The sign of a GPS value\<close>

lemma high_nibble: "(b :: u8) AND 0xF0 = 0xF0 \<longleftrightarrow> 240 \<le> unat b"
proof -
  have f0: "(0xF0 :: u8) = push_bit 4 (mask 4)" by (simp add: mask_eq_exp_minus_1)
  have "b AND push_bit 4 (mask 4) = push_bit 4 (drop_bit 4 b)"
    by (rule bit_word_eqI) (auto simp: bit_simps)
  then have "unat (b AND 0xF0) = unat (push_bit 4 (drop_bit 4 b))" by (simp only: f0)
  also have "\<dots> = take_bit 8 (push_bit 4 (unat b div 2 ^ 4))"
    by (simp only: unsigned_push_bit_eq unat_drop_bit_eq drop_bit_eq_div [of 4 "unat b"]) simp
  also have "\<dots> = unat b div 16 * 16"
    using unat_u8_lt [of b] by (simp add: push_bit_eq_mult take_bit_eq_mod)
  finally have v: "unat (b AND 0xF0) = unat b div 16 * 16" .
  have "b AND 0xF0 = 0xF0 \<longleftrightarrow> unat (b AND 0xF0) = unat (0xF0 :: u8)"
    by (simp only: word_unat_eq_iff)
  then have "b AND 0xF0 = 0xF0 \<longleftrightarrow> unat b div 16 * 16 = 240" unfolding v by simp
  then show ?thesis using unat_u8_lt [of b] by auto
qed

lemma top_byte: "take_bit 24 (w::u32) OR 0xFF000000 = take_bit 24 w + 0xFF000000"
proof -
  have f: "(0xFF000000 :: u32) = NOT (mask 24)" by (simp add: mask_eq_exp_minus_1)
  have "take_bit 24 w OR NOT (mask 24) = take_bit 24 w + NOT (mask 24)"
    by (rule disjunctive_add [symmetric]) (auto simp: bit_simps)
  then show ?thesis unfolding f .
qed

lemma uint_low24: "uint (take_bit 24 (w :: u32)) = uint w mod 2 ^ 24"
  by (simp only: unsigned_take_bit_eq take_bit_eq_mod [of _ "uint w"])


lemma gps_join: "push_bit 16 (ucast (byte 16 w)) OR push_bit 8 (ucast (byte 8 w)) OR ucast (byte 0 w)
   = (take_bit 24 w :: u32)"
proof (rule bit_word_eqI)
  fix n assume "n < LENGTH(32)"
  show "bit (push_bit 16 (ucast (byte 16 w)) OR push_bit 8 (ucast (byte 8 w)) OR ucast (byte 0 w) :: u32) n
    = bit (take_bit 24 w) n"
    by (cases "n < 8"; cases "n < 16") (auto simp: byte_def bit_simps)
qed

lemma uint_gps_tvalue:
  fixes w :: u32
  defines "u \<equiv> uint w mod 2 ^ 24"
  shows "uint (gps_tvalue (byte 16 w) (byte 8 w) (byte 0 w)) =
    (if 0xF00000 \<le> u then u + 0xFF000000 else u)"
proof -
  have u: "uint (take_bit 24 w) = u" unfolding u_def by (rule uint_low24)
  have n: "u = int (unat w mod 2 ^ 24)" by (simp add: u_def zmod_int)
  have "unat (byte 16 w) = unat w mod 2 ^ 24 div 2 ^ 16"
    using mod_mult2_eq [of "unat w" "2 ^ 16" 256] by (simp add: unat_byte)
  then have "240 \<le> unat (byte 16 w) \<longleftrightarrow> 0xF00000 \<le> u"
    unfolding n using less_eq_div_iff_mult_less_eq [of "2 ^ 16" 240 "unat w mod 2 ^ 24"] by simp
  moreover have "u < 2 ^ 24" "0 \<le> u" by (simp_all add: u_def)
  then have "uint (take_bit 24 w + 0xFF000000) = u + 0xFF000000"
    unfolding uint_word_ariths u by simp
  ultimately show ?thesis using u
    by (simp only: gps_tvalue_def gps_join high_nibble top_byte Let_def split: if_split) simp
qed

text \<open>Of a 24-bit two's complement value, the decoder restores the sign only from
  \<open>-2^20\<close> up (it asks for four leading ones): below, that is west of about -104.86
  degrees for a longitude, it reads the value plus \<open>2^24\<close>.\<close>

lemma gps_value_sign:
  assumes "- (2 ^ 23) \<le> v" "v < 2 ^ 23" "be24 (word_of_int v) = [b1, b2, b3]"
  shows "sint (gps_tvalue b1 b2 b3) = (if v < - (2 ^ 20) then v + 2 ^ 24 else v)"
proof -
  let ?u = "uint (word_of_int v :: u32) mod 2 ^ 24"
  have "?u = v mod 2 ^ 24"
    by (simp add: uint_word_of_int mod_mod_cancel)
  moreover have "v mod 2 ^ 24 = (if v < 0 then v + 2 ^ 24 else v)"
  proof (cases "v < 0")
    case True
    have "v mod 2 ^ 24 = (v + 2 ^ 24) mod 2 ^ 24" by (rule mod_add_self2 [symmetric])
    also have "\<dots> = v + 2 ^ 24" by (rule mod_pos_pos_trivial) (use True assms in simp_all)
    finally show ?thesis using True by simp
  next
    case False
    then show ?thesis using assms by (simp add: mod_pos_pos_trivial)
  qed
  ultimately have u: "?u = (if v < 0 then v + 2 ^ 24 else v)" by (rule trans)
  let ?g = "gps_tvalue b1 b2 b3"
  have "uint ?g = (if 0xF00000 \<le> ?u then ?u + 0xFF000000 else ?u)" 
    using uint_gps_tvalue [of "word_of_int v"] assms(3) by (simp only: be24_def list.inject)
  then have g: "uint ?g = (if v < - (2 ^ 20) then v + 2 ^ 24 else if v < 0 then v + 2 ^ 32 else v)"
    unfolding u using assms by auto
  have "sint ?g = (uint ?g + 2 ^ 31) mod 2 ^ 32 - 2 ^ 31"
    using int_word_sint [where 'a = 32, of "uint ?g"] by simp
  moreover have "(uint ?g + 2 ^ 31) mod 2 ^ 32 = (if v < - (2 ^ 20) then v + 2 ^ 24 else v) + 2 ^ 31"
    by (rule int_mod_pos_eq [of _ _ "if v < - (2 ^ 20) \<or> 0 \<le> v then 0 else 1"])
      (use g assms in \<open>auto split: if_splits\<close>)
  ultimately show ?thesis by simp
qed

end
