(* ===== verification/Led_Driver.thy ===== *)
theory Led_Driver
  imports Prelude "HOL-Library.Signed_Division"
begin

text \<open>
  The stored profile (\<open>components/CM-NVS/include/st_profile.h\<close>) and the lamp driver
  \<open>components/CM-LED-KAMMANIT/led_driver.c\<close>, which maps a color temperature and a
  brightness to duty cycles of the two PWM channels. The LED controller of ESP-IDF is
  outside the repository: what the driver does is the list of calls it makes.
  C's \<open>/\<close> on \<open>int\<close> is \<open>sdiv\<close>; \<open>status_led\<close> is passed as an argument.
\<close>

section \<open>The profile\<close>

record led_status =
  meshid :: "int list"      \<comment> \<open>\<open>int meshid[6]\<close>\<close>
  meshch :: u8
  mycolor :: u16
  mybrightness :: u8
  ledworking :: u64
  MAX_PWM :: u8
  LOW_PWM :: u8
  MODEL :: u16
  GEN :: u8

text \<open>What \<open>app_main\<close> stores when nothing was saved before (\<open>main/main.c\<close>).\<close>

definition default_profile :: led_status where
  "default_profile = \<lparr>meshid = [1, 2, 3, 4, 5, 6], meshch = 10, mycolor = 2700, mybrightness = 100,
     ledworking = 0, MAX_PWM = 185, LOW_PWM = 41, MODEL = 90, GEN = 1\<rparr>"

section \<open>Calls of the LED controller\<close>

datatype ledc_channel = LEDC_CHANNEL_0 | LEDC_CHANNEL_1

abbreviation LEDC_COLOR_CHANNEL :: ledc_channel where "LEDC_COLOR_CHANNEL \<equiv> LEDC_CHANNEL_0"
abbreviation LEDC_BRIGHTNESS_CHANNEL :: ledc_channel where "LEDC_BRIGHTNESS_CHANNEL \<equiv> LEDC_CHANNEL_1"

datatype ledc_call =
    Timer_Config nat nat                    \<comment> \<open>resolution in bits, frequency\<close>
  | Channel_Config ledc_channel nat nat     \<comment> \<open>channel, duty, pin\<close>
  | Fade_Install
  | Set_Fade ledc_channel u16 nat           \<comment> \<open>channel, target duty, milliseconds\<close>
  | Fade_Start ledc_channel
  | Delay_Ms nat

abbreviation (input) LEDC_FADE_TIME :: nat where "LEDC_FADE_TIME \<equiv> 1000"

definition fade :: "ledc_channel \<Rightarrow> u16 \<Rightarrow> ledc_call list" where
  "fade ch val = [Set_Fade ch val LEDC_FADE_TIME, Fade_Start ch, Delay_Ms LEDC_FADE_TIME]"

section \<open>The driver\<close>

definition color_duty :: "u16 \<Rightarrow> u16" where
  "color_duty value =
     (let v = (if uint value > 6500 \<or> uint value < 2700 then 6500 else uint value)
      in word_of_int (((v - 2700) * (255 - 0)) sdiv (6500 - 2700) + 0))"

definition Set_Color :: "u16 \<Rightarrow> ledc_call list" where
  "Set_Color value = fade LEDC_COLOR_CHANNEL (color_duty value)"

definition brightness_duty :: "led_status \<Rightarrow> u8 \<Rightarrow> u16" where
  "brightness_duty status_led value =
     (let v = (if uint value > 100 \<or> uint value < 10 then 100 else value);
          v' = (word_of_int (100 - uint v) :: u8)
      in word_of_int (((uint v' - 10) * (uint (MAX_PWM status_led) - uint (LOW_PWM status_led)))
           sdiv (100 - 10) + uint (LOW_PWM status_led)))"

definition Set_Brightness :: "led_status \<Rightarrow> u8 \<Rightarrow> ledc_call list" where
  "Set_Brightness status_led value =
     fade LEDC_BRIGHTNESS_CHANNEL (brightness_duty status_led value)"

definition init_led :: "led_status \<Rightarrow> ledc_call list" where
  "init_led status_led =
     [Timer_Config 8 5000, Channel_Config LEDC_COLOR_CHANNEL 0 25,
      Channel_Config LEDC_BRIGHTNESS_CHANNEL 0 26, Fade_Install]
     @ Set_Color (mycolor status_led)
     @ Set_Brightness status_led (mybrightness status_led)"

section \<open>Lemmas\<close>

lemma sdiv_nonneg: "0 \<le> a \<Longrightarrow> 0 < b \<Longrightarrow> a sdiv b = a div (b :: int)"
  by (cases "a = 0") (auto simp: signed_divide_int_def)

lemma sdiv_nonpos: "a \<le> 0 \<Longrightarrow> 0 < b \<Longrightarrow> a sdiv b = - ((- a) div (b :: int))"
  by (cases "a = 0") (auto simp: signed_divide_int_def)

lemma sdiv_mono:
  assumes "a \<le> a'" "0 < (b :: int)"
  shows "a sdiv b \<le> a' sdiv b"
proof -
  consider "0 \<le> a" | "a < 0" "0 \<le> a'" | "a' < 0" by linarith
  then show ?thesis
  proof cases
    case 1
    then show ?thesis using assms by (simp add: sdiv_nonneg zdiv_mono1)
  next
    case 2
    then have "0 \<le> a' div b" "0 \<le> (- a) div b"
      using assms by (simp_all add: pos_imp_zdiv_nonneg_iff)
    then show ?thesis using 2 assms by (simp add: sdiv_nonneg sdiv_nonpos)
  next
    case 3
    then show ?thesis using assms by (simp add: sdiv_nonpos zdiv_mono1)
  qed
qed

lemma uint_u16_small: "0 \<le> i \<Longrightarrow> i < 65536 \<Longrightarrow> uint (word_of_int i :: u16) = i"
  by (simp add: uint_word_of_int)

text \<open>The value the driver works with: 100 for what is out of the range.\<close>

definition effective_brightness :: "u8 \<Rightarrow> int" where
  "effective_brightness value = (if 10 \<le> uint value \<and> uint value \<le> 100 then uint value else 100)"

definition effective_color :: "u16 \<Rightarrow> int" where
  "effective_color value = (if 2700 \<le> uint value \<and> uint value \<le> 6500 then uint value else 6500)"

lemma color_duty_int:
  "uint (color_duty value) = (effective_color value - 2700) * 255 div 3800"
  "0 \<le> (effective_color value - 2700) * 255 div 3800"
  "(effective_color value - 2700) * 255 div 3800 \<le> 255"
proof -
  have e: "(if uint value > 6500 \<or> uint value < 2700 then 6500 else uint value) = effective_color value"
    by (auto simp: effective_color_def)
  have r: "2700 \<le> effective_color value" "effective_color value \<le> 6500"
    by (auto simp: effective_color_def)
  then show "0 \<le> (effective_color value - 2700) * 255 div 3800"
      "(effective_color value - 2700) * 255 div 3800 \<le> 255" by auto
  then show "uint (color_duty value) = (effective_color value - 2700) * 255 div 3800"
    unfolding color_duty_def Let_def e using r by (simp add: sdiv_nonneg uint_u16_small)
qed

text \<open>The duty before the conversion to \<open>uint16_t\<close>.\<close>

definition duty_int :: "led_status \<Rightarrow> u8 \<Rightarrow> int" where
  "duty_int st value =
     ((90 - effective_brightness value) * (uint (MAX_PWM st) - uint (LOW_PWM st))) sdiv 90
     + uint (LOW_PWM st)"

lemma effective_range: "10 \<le> effective_brightness v" "effective_brightness v \<le> 100"
  by (auto simp: effective_brightness_def)

lemma brightness_duty_int: "brightness_duty st value = word_of_int (duty_int st value)"
proof -
  let ?v = "if uint value > 100 \<or> uint value < 10 then 100 else value"
  have e: "uint ?v = effective_brightness value"
    by (auto simp: effective_brightness_def)
  have "uint (word_of_int (100 - uint ?v) :: u8) = 100 - effective_brightness value"
    using effective_range [of "value"] unfolding e
    by (simp add: uint_word_of_int del: of_int_diff)
  then show ?thesis unfolding brightness_duty_def Let_def duty_int_def by simp
qed

lemma duty_int_range:
  assumes "uint (LOW_PWM st) \<le> uint (MAX_PWM st)"
  shows "uint (LOW_PWM st) - (uint (MAX_PWM st) - uint (LOW_PWM st)) div 9 \<le> duty_int st value"
    and "duty_int st value \<le> uint (LOW_PWM st) + (8 * (uint (MAX_PWM st) - uint (LOW_PWM st))) div 9"
proof -
  let ?d = "uint (MAX_PWM st) - uint (LOW_PWM st)" and ?e = "effective_brightness value"
  have d: "0 \<le> ?d" using assms by simp
  have "(90 - ?e) * ?d \<le> 80 * ?d" "- 10 * ?d \<le> (90 - ?e) * ?d"
    using effective_range [of "value"] d by (intro mult_right_mono; simp)+
  then have "((90 - ?e) * ?d) sdiv 90 \<le> (80 * ?d) sdiv 90" "(- 10 * ?d) sdiv 90 \<le> ((90 - ?e) * ?d) sdiv 90"
    by (auto intro!: sdiv_mono)
  moreover have "(80 * ?d) sdiv 90 = (8 * ?d) div 9"
    using d div_mult_mult1 [of 10 "8 * ?d" 9] by (simp add: sdiv_nonneg)
  moreover have "(- 10 * ?d) sdiv 90 = - (?d div 9)"
    using d div_mult_mult1 [of 10 "?d" 9] sdiv_nonpos [of "- 10 * ?d" 90] by simp
  ultimately show "uint (LOW_PWM st) - ?d div 9 \<le> duty_int st value"
      "duty_int st value \<le> uint (LOW_PWM st) + (8 * ?d) div 9"
    by (simp_all add: duty_int_def)
qed

section \<open>Properties\<close>

text \<open>The color duty is the linear map of 2700..6500 onto 0..255, rounded down, with
  everything outside that range treated as 6500: it always fits the 8 bits of the timer,
  and grows with the color temperature.\<close>

theorem color_duty_linear:
  "uint (color_duty value) = (effective_color value - 2700) * 255 div 3800
    \<and> uint (color_duty value) \<le> 255
    \<and> (effective_color value \<le> effective_color value' \<longrightarrow> color_duty value \<le> color_duty value')"
proof (intro conjI impI)
  assume "effective_color value \<le> effective_color value'"
  then have "(effective_color value - 2700) * 255 div 3800
      \<le> (effective_color value' - 2700) * 255 div 3800"
    by (intro zdiv_mono1) simp_all
  then show "color_duty value \<le> color_duty value'"
    by (simp add: word_le_def color_duty_int(1))
next
  show "uint (color_duty value) \<le> 255" unfolding color_duty_int(1) by (rule color_duty_int(3))
qed (rule color_duty_int(1))

theorem color_duty_linear_witness:
  "color_duty 2700 = 0 \<and> color_duty 6500 = 255 \<and> color_duty 0 = 255 \<and> color_duty 2700 \<le> color_duty 4600"
proof -
  have "effective_color 2700 \<le> effective_color 4600" by (simp add: effective_color_def)
  with color_duty_linear [of 2700 4600] show ?thesis
    by (auto simp: color_duty_def Let_def sdiv_nonneg)
qed

text \<open>C32: For \<open>LOW_PWM \<le> MAX_PWM\<close> the brightness duty is an 8-bit value for every request
  exactly when \<open>LOW_PWM\<close> is at least a ninth of the range; it then falls as the
  brightness grows, and lies between \<open>LOW_PWM\<close> minus a ninth and \<open>LOW_PWM\<close> plus eight
  ninths of the range, so \<open>MAX_PWM\<close> itself is only reached when the two are equal.
  Otherwise full brightness wraps around to a duty near 65536.\<close>

theorem brightness_duty_range:
  assumes "uint (LOW_PWM st) \<le> uint (MAX_PWM st)"
  defines "d \<equiv> uint (MAX_PWM st) - uint (LOW_PWM st)"
  shows "(d div 9 \<le> uint (LOW_PWM st) \<longrightarrow>
      (\<forall>v. uint (LOW_PWM st) - d div 9 \<le> uint (brightness_duty st v)
         \<and> uint (brightness_duty st v) \<le> uint (LOW_PWM st) + 8 * d div 9)
      \<and> (\<forall>v w. effective_brightness v \<le> effective_brightness w
           \<longrightarrow> brightness_duty st w \<le> brightness_duty st v))
    \<and> (uint (LOW_PWM st) < d div 9 \<longrightarrow> 65508 \<le> uint (brightness_duty st 100))"
proof (intro conjI impI allI)
  note range = duty_int_range [OF assms(1), folded d_def]
  have max: "uint (MAX_PWM st) < 256" "0 \<le> uint (LOW_PWM st)" "0 \<le> d"
    using uint_lt2p [of "MAX_PWM st"] assms(1) by (simp_all add: d_def)
  have top: "uint (LOW_PWM st) + 8 * d div 9 \<le> 255" using max by (simp add: d_def)
  { assume "d div 9 \<le> uint (LOW_PWM st)"
    then have duty: "uint (brightness_duty st v) = duty_int st v" for v
      using range [of v] top by (simp add: brightness_duty_int uint_u16_small)
    { fix v
      show "uint (LOW_PWM st) - d div 9 \<le> uint (brightness_duty st v)"
        "uint (brightness_duty st v) \<le> uint (LOW_PWM st) + 8 * d div 9"
        using range [of v] duty by simp_all }
    { fix v w assume "effective_brightness v \<le> effective_brightness w"
      then have "(90 - effective_brightness w) * d \<le> (90 - effective_brightness v) * d"
        using max by (intro mult_right_mono) simp_all
      then have "duty_int st w \<le> duty_int st v"
        by (simp add: duty_int_def d_def sdiv_mono)
      then show "brightness_duty st w \<le> brightness_duty st v"
        by (simp add: word_le_def duty) } }
  assume low: "uint (LOW_PWM st) < d div 9"
  have e: "effective_brightness 100 = 100" by (simp add: effective_brightness_def)
  have "duty_int st 100 = uint (LOW_PWM st) - d div 9"
    using max sdiv_nonpos [of "- 10 * d" 90] div_mult_mult1 [of 10 d 9]
    by (simp add: duty_int_def e flip: d_def)
  moreover have "uint (MAX_PWM st) < 256" using uint_lt2p [of "MAX_PWM st"] by simp
  then have "d \<le> 255" using uint_ge_0 [of "LOW_PWM st"] unfolding d_def by linarith
  then have "d div 9 \<le> 28" using zdiv_mono1 [of d 255 9] by simp
  moreover have "0 \<le> uint (LOW_PWM st)" by (rule uint_ge_0)
  ultimately have i: "- 28 \<le> duty_int st 100" "duty_int st 100 < 0" using low by linarith+
  then have "duty_int st 100 mod 65536 = duty_int st 100 + 65536"
    by (intro int_mod_pos_eq [of _ _ "- 1"]) simp_all
  with i show "65508 \<le> uint (brightness_duty st 100)"
    by (simp add: brightness_duty_int uint_word_of_int)
qed

theorem brightness_duty_range_witness:
  "25 \<le> uint (brightness_duty default_profile 100) \<and> uint (brightness_duty default_profile 10) \<le> 169
   \<and> brightness_duty default_profile 100 \<le> brightness_duty default_profile 10
   \<and> 65508 \<le> uint (brightness_duty (default_profile\<lparr>MAX_PWM := 255, LOW_PWM := 0\<rparr>) 100)"
  using brightness_duty_range [of default_profile]
    brightness_duty_range [of "default_profile\<lparr>MAX_PWM := 255, LOW_PWM := 0\<rparr>"]
  by (simp add: default_profile_def effective_brightness_def)

end
