(* ===== verification/Si7021.thy ===== *)
theory Si7021
  imports C_Float
begin

text \<open>
  The temperature and humidity sensor \<open>components/CM-SI7021/si_7006.c\<close>: one transaction
  on the I2C bus per call, a CRC over each measurement, and the conversion of a raw value.
  The bus driver of ESP-IDF and the sensor behind it are a parameter \<open>bus\<close>: it takes a
  state and the steps of a transaction and returns the error code, the bytes the read
  steps received and the new state.
\<close>

section \<open>The bus\<close>

datatype i2c_step = I2C_Start | I2C_Write u8 | I2C_Read bool | I2C_Stop   \<comment> \<open>acknowledge the byte?\<close>

type_synonym 's bus = "'s \<Rightarrow> i2c_step list \<Rightarrow> esp_err \<times> u8 list \<times> 's"

datatype si7021_err =
    SI7021_ERR_OK | SI7021_ERR_NOTFOUND | SI7021_ERR_INVALID_ARG | SI7021_ERR_FAIL
  | SI7021_ERR_INVALID_STATE | SI7021_ERR_TIMEOUT

abbreviation (input) SI7021_MEASRH_NOHOLD_CMD :: u8 where "SI7021_MEASRH_NOHOLD_CMD \<equiv> 0xF5"
abbreviation (input) SI7021_MEASTEMP_NOHOLD_CMD :: u8 where "SI7021_MEASTEMP_NOHOLD_CMD \<equiv> 0xF3"
abbreviation (input) SI7021_WRITERHT_REG_CMD :: u8 where "SI7021_WRITERHT_REG_CMD \<equiv> 0xE6"
abbreviation (input) SI7021_READRHT_REG_CMD :: u8 where "SI7021_READRHT_REG_CMD \<equiv> 0xE7"
abbreviation (input) ADDR_WRITE :: u8 where "ADDR_WRITE \<equiv> 0x80"   \<comment> \<open>\<open>(SI7021_ADDR << 1) | I2C_MASTER_WRITE\<close>\<close>
abbreviation (input) ADDR_READ :: u8 where "ADDR_READ \<equiv> 0x81"

section \<open>The checksum\<close>

definition crc_step :: "u32 \<times> u32 \<Rightarrow> nat \<Rightarrow> u32 \<times> u32" where
  "crc_step = (\<lambda>(row, divisor) i.
     (if row AND push_bit (23 - i) 1 \<noteq> 0 then row XOR divisor else row, drop_bit 1 divisor))"

definition crc_row :: "u16 \<Rightarrow> u8 \<Rightarrow> u32" where
  "crc_row val crc = push_bit 8 (ucast val) OR ucast crc"

definition crc_remainder :: "u32 \<Rightarrow> u32" where
  "crc_remainder row = fst (foldl crc_step (row, 0x988000) [0..<16])"

definition is_crc_valid :: "u16 \<Rightarrow> u8 \<Rightarrow> bool" where
  "is_crc_valid val crc \<longleftrightarrow> crc_remainder (crc_row val crc) = 0"

section \<open>Operations\<close>

definition si7021_check_availability :: "'s bus \<Rightarrow> 's \<Rightarrow> si7021_err \<times> 's" where
  "si7021_check_availability bus s =
     (case bus s [I2C_Start, I2C_Write ADDR_WRITE, I2C_Stop] of (err, _, s') \<Rightarrow>
      (if err \<noteq> ESP_OK then SI7021_ERR_NOTFOUND else SI7021_ERR_OK, s'))"

text \<open>The printed line of an invalid CRC is the second component of the result.\<close>

definition si7021_read :: "'s bus \<Rightarrow> 's \<Rightarrow> u8 \<Rightarrow> fault + (u16 \<times> bool \<times> 's)" where
  "si7021_read bus s command =
     (case bus s [I2C_Start, I2C_Write ADDR_WRITE, I2C_Write command, I2C_Stop] of (err, _, s1) \<Rightarrow>
      if err \<noteq> ESP_OK then Inr (0, False, s1)
      else case bus s1 [I2C_Start, I2C_Write ADDR_READ, I2C_Read True, I2C_Read True,
                        I2C_Read False, I2C_Stop] of (err, bytes, s2) \<Rightarrow>
      if err \<noteq> ESP_OK then Inr (0, False, s2)
      else case bytes of
        [msb, lsb, crc] \<Rightarrow>
          (let raw_value = push_bit 8 (ucast msb) OR ucast lsb
           in Inr (raw_value AND 0xFFFC, \<not> is_crc_valid raw_value crc, s2))
      | _ \<Rightarrow> Inl Uninit_Read)"

abbreviation d_literal :: "rat \<Rightarrow> c_float" where   \<comment> \<open>a \<open>double\<close> constant\<close>
  "d_literal \<equiv> to_f64"

definition temperature_of_raw :: "u16 \<Rightarrow> c_float" where
  "temperature_of_raw raw_temp =
     narrow (f_sub to_f64
       (f_div_const to_f64 (f_mul to_f64 (Fin (of_int (uint raw_temp))) (d_literal (17572 / 100))) 65536)
       (d_literal (4685 / 100)))"

definition humidity_of_raw :: "u16 \<Rightarrow> c_float" where
  "humidity_of_raw raw_humidity =
     narrow (f_sub to_f64
       (f_div_const to_f64 (f_mul to_f64 (d_literal 125) (Fin (of_int (uint raw_humidity)))) 65536)
       (d_literal 6))"

definition si7021_read_temperature :: "'s bus \<Rightarrow> 's \<Rightarrow> fault + (c_float \<times> bool \<times> 's)" where
  "si7021_read_temperature bus s =
     andthen (si7021_read bus s SI7021_MEASTEMP_NOHOLD_CMD) (\<lambda>(raw_temp, printed, s').
     Inr (if raw_temp = 0 then NaN else temperature_of_raw raw_temp, printed, s'))"

definition si7021_read_humidity :: "'s bus \<Rightarrow> 's \<Rightarrow> fault + (c_float \<times> bool \<times> 's)" where
  "si7021_read_humidity bus s =
     andthen (si7021_read bus s SI7021_MEASRH_NOHOLD_CMD) (\<lambda>(raw_humidity, printed, s').
     Inr (if raw_humidity = 0 then NaN else humidity_of_raw raw_humidity, printed, s'))"

definition si7021_read_user_register :: "'s bus \<Rightarrow> 's \<Rightarrow> fault + (u8 \<times> 's)" where
  "si7021_read_user_register bus s =
     (case bus s [I2C_Start, I2C_Write ADDR_WRITE, I2C_Write SI7021_READRHT_REG_CMD, I2C_Stop]
      of (err, _, s1) \<Rightarrow>
      if err \<noteq> ESP_OK then Inr (0, s1)
      else case bus s1 [I2C_Start, I2C_Write ADDR_READ, I2C_Read False, I2C_Stop] of (err, bytes, s2) \<Rightarrow>
      if err \<noteq> ESP_OK then Inr (0, s2)
      else case bytes of [reg_value] \<Rightarrow> Inr (reg_value, s2) | _ \<Rightarrow> Inl Uninit_Read)"

definition si7021_write_user_register :: "'s bus \<Rightarrow> 's \<Rightarrow> u8 \<Rightarrow> si7021_err \<times> 's" where
  "si7021_write_user_register bus s val =
     (case bus s [I2C_Start, I2C_Write ADDR_WRITE, I2C_Write SI7021_WRITERHT_REG_CMD,
                  I2C_Write val, I2C_Stop] of (err, _, s') \<Rightarrow>
      (case err of
         ESP_ERR_INVALID_ARG \<Rightarrow> SI7021_ERR_INVALID_ARG
       | ESP_FAIL \<Rightarrow> SI7021_ERR_FAIL
       | ESP_ERR_INVALID_STATE \<Rightarrow> SI7021_ERR_INVALID_STATE
       | ESP_ERR_TIMEOUT \<Rightarrow> SI7021_ERR_TIMEOUT
       | _ \<Rightarrow> SI7021_ERR_OK, s'))"

definition si7021_get_resolution :: "'s bus \<Rightarrow> 's \<Rightarrow> fault + (u8 \<times> 's)" where
  "si7021_get_resolution bus s =
     andthen (si7021_read_user_register bus s) (\<lambda>(reg_value, s'). Inr (reg_value AND 0x81, s'))"

definition resolution_bits :: "u8 \<Rightarrow> u8 \<Rightarrow> u8" where
  "resolution_bits resolution current_reg_value =
     (let r0 = (if resolution AND push_bit 0 1 \<noteq> 0
                then (current_reg_value AND NOT (push_bit 0 1)) OR push_bit 0 1
                else (current_reg_value AND NOT (push_bit 0 1)) OR push_bit 0 0)
      in if resolution AND push_bit 7 1 \<noteq> 0
         then (r0 AND NOT (push_bit 7 1)) OR push_bit 7 1
         else (r0 AND NOT (push_bit 7 1)) OR push_bit 7 0)"

definition si7021_set_resolution :: "'s bus \<Rightarrow> 's \<Rightarrow> u8 \<Rightarrow> fault + (si7021_err \<times> 's)" where
  "si7021_set_resolution bus s resolution =
     andthen (si7021_read_user_register bus s) (\<lambda>(current_reg_value, s').
     Inr (si7021_write_user_register bus s' (resolution_bits resolution current_reg_value)))"

section \<open>The checksum is linear\<close>

lemma and_bit: "(w :: u32) AND push_bit k 1 \<noteq> 0 \<longleftrightarrow> bit w k"
  by (simp add: push_bit_eq_mult and_exp_eq_0_iff_not_bit)

lemma crc_step_xor:
  "crc_step (a XOR b, d) i =
    (fst (crc_step (a, d) i) XOR fst (crc_step (b, d) i), snd (crc_step (a, d) i))"
  by (simp only: crc_step_def and_bit bit_xor_iff split)
    (cases "bit a (23 - i)"; cases "bit b (23 - i)"; auto simp: bit_xor_iff intro!: bit_word_eqI)

lemma crc_fold_xor:
  "fst (foldl crc_step (a XOR b, d) is) = fst (foldl crc_step (a, d) is) XOR fst (foldl crc_step (b, d) is)"
proof (induction "is" arbitrary: a b d)
  case Nil
  then show ?case by simp
next
  case (Cons i "is")
  have s: "snd (crc_step (b, d) i) = snd (crc_step (a, d) i)" by (simp add: crc_step_def)
  show ?case
    using Cons.IH [of "fst (crc_step (a, d) i)" "fst (crc_step (b, d) i)" "snd (crc_step (a, d) i)"]
    by (simp add: crc_step_xor) (metis s prod.collapse)
qed

lemma crc_remainder_xor: "crc_remainder (a XOR b) = crc_remainder a XOR crc_remainder b"
  unfolding crc_remainder_def by (rule crc_fold_xor)

lemma crc_remainder_0 [simp]: "crc_remainder 0 = 0"
  using crc_remainder_xor [of 0 0] by simp

lemma upt_16: "[0..<16] = [0, 1, 2, 3, 4, 5, 6, 7, 8, 9, 10, 11, 12, 13, 14, 15]"
  by code_simp

lemmas crc_eval = crc_remainder_def upt_16 crc_step_def drop_bit_eq_div

text \<open>The remainders of the 24 single bits.\<close>

lemma crc_table [simp]:
    "crc_remainder 1 = 1"
    "crc_remainder 0x2 = 2"
    "crc_remainder 0x4 = 4"
    "crc_remainder 0x8 = 8"
    "crc_remainder 0x10 = 16"
    "crc_remainder 0x20 = 32"
    "crc_remainder 0x40 = 64"
    "crc_remainder 0x80 = 128"
    "crc_remainder 0x100 = 49"
    "crc_remainder 0x200 = 98"
    "crc_remainder 0x400 = 196"
    "crc_remainder 0x800 = 185"
    "crc_remainder 0x1000 = 67"
    "crc_remainder 0x2000 = 134"
    "crc_remainder 0x4000 = 61"
    "crc_remainder 0x8000 = 122"
    "crc_remainder 0x10000 = 244"
    "crc_remainder 0x20000 = 217"
    "crc_remainder 0x40000 = 131"
    "crc_remainder 0x80000 = 55"
    "crc_remainder 0x100000 = 110"
    "crc_remainder 0x200000 = 220"
    "crc_remainder 0x400000 = 137"
    "crc_remainder 0x800000 = 35"
  by (simp_all add: crc_eval)

text \<open>Every row of 24 bits is a sum of single bits.\<close>

lemma xor_induct:
  assumes "P 0" and "\<And>a b. P a \<Longrightarrow> P b \<Longrightarrow> P (a XOR b)" and "\<And>i. i < n \<Longrightarrow> P (2 ^ i)"
  shows "P (take_bit n (w :: u32))"
  using assms(3)
proof (induction n)
  case 0
  then show ?case using assms(1) by simp
next
  case (Suc n)
  have "take_bit (Suc n) w = take_bit n w XOR (if bit w n then 2 ^ n else 0)"
    by (rule bit_word_eqI) (auto simp: bit_simps less_Suc_eq bit_exp_iff)
  then show ?case using Suc assms(1,2) by auto
qed

lemma less_24: "i < 24 \<longleftrightarrow> i \<in> {0, 1, 2, 3, 4, 5, 6, 7, 8, 9, 10, 11, 12, 13, 14, 15, 16, 17, 18, 19, 20, 21, 22, 23 :: nat}"
  by (auto simp: less_Suc_eq numeral_eq_Suc)

lemma less_8: "i < 8 \<longleftrightarrow> i \<in> {0, 1, 2, 3, 4, 5, 6, 7 :: nat}"
  by (auto simp: less_Suc_eq numeral_eq_Suc)

lemma crc_remainder_bits: "bit (crc_remainder (take_bit 24 w)) k \<Longrightarrow> k < 8"
proof -
  let ?P = "\<lambda>w. take_bit 8 (crc_remainder w) = crc_remainder w"
  have "?P (take_bit 24 w)"
  proof (rule xor_induct)
    show "?P (2 ^ i)" if "i < 24" for i
      using that unfolding less_24 by (elim insertE emptyE) simp_all
  qed (simp_all add: crc_remainder_xor)
  then show "bit (crc_remainder (take_bit 24 w)) k \<Longrightarrow> k < 8" by (metis bit_take_bit_iff)
qed

lemma crc_remainder_0_iff_crc:
  "crc_remainder (crc_row val crc) = crc_remainder (crc_row val 0) XOR ucast crc"
proof -
  have "crc_row val crc = crc_row val 0 XOR ucast crc"
    by (rule bit_word_eqI) (auto simp: crc_row_def bit_simps dest: bit_imp_le_length)
  moreover have "crc_remainder (take_bit 8 w) = take_bit 8 w" for w
  proof (rule xor_induct)
    show "crc_remainder (2 ^ i) = 2 ^ i" if "i < 8" for i
      using that unfolding less_8 by (elim insertE emptyE) simp_all
  qed (simp_all add: crc_remainder_xor)
  moreover have "take_bit 8 (ucast crc :: u32) = ucast crc"
    by (rule bit_word_eqI) (auto simp: bit_simps dest: bit_imp_le_length)
  ultimately show ?thesis by (metis crc_remainder_xor)
qed

section \<open>Weight of an error pattern\<close>

definition weight :: "u32 \<Rightarrow> nat" where
  "weight w = length (filter (bit w) [0..<32])"

lemma weight_card: "weight w = card {i. bit w i}"
proof -
  have "{i. bit w i} = set (filter (bit w) [0..<32])"
    by (auto dest: bit_imp_le_length)
  then show ?thesis using distinct_card [of "filter (bit w) [0..<32]"] by (simp add: weight_def)
qed

lemma even_weight_xor: "even (weight (a XOR b)) \<longleftrightarrow> (even (weight a) \<longleftrightarrow> even (weight b))"
proof -
  let ?A = "{i. bit a i}" and ?B = "{i. bit b i}"
  have fin: "finite ?A" "finite ?B"
    by (rule finite_subset [of _ "{..<32}"]; auto dest: bit_imp_le_length)+
  have "{i. bit (a XOR b) i} = (?A - ?B) \<union> (?B - ?A)" by (auto simp: bit_xor_iff)
  then have "weight (a XOR b) = card (?A - ?B) + card (?B - ?A)"
    using fin by (simp add: weight_card card_Un_disjoint Diff_Int_distrib2)
  moreover have "weight a = card (?A - ?B) + card (?A \<inter> ?B)" "weight b = card (?B - ?A) + card (?A \<inter> ?B)"
    using fin card_Int_Diff [of ?A ?B] card_Int_Diff [of ?B ?A]
    by (simp_all add: weight_card Int_commute)
  ultimately show ?thesis by auto
qed

lemma upt_32: "[0..<32] = [0, 1, 2, 3, 4, 5, 6, 7, 8, 9, 10, 11, 12, 13, 14, 15, 16, 17, 18, 19, 20,
    21, 22, 23, 24, 25, 26, 27, 28, 29, 30, 31]"
  by code_simp

text \<open>The remainder has the parity of the row, since the divisor has four terms.\<close>

lemma even_weight_remainder:
  "even (weight (crc_remainder (take_bit 24 w))) \<longleftrightarrow> even (weight (take_bit 24 w))"
proof (rule xor_induct)
  show "even (weight (crc_remainder (2 ^ i))) \<longleftrightarrow> even (weight (2 ^ i))" if "i < 24" for i
    using that unfolding less_24
    by (elim insertE emptyE) (simp_all add: weight_def upt_32 bit_numeral_rec bit_1_iff)
qed (simp_all add: crc_remainder_xor even_weight_xor)

lemma upt_24: "[0..<24] = [0, 1, 2, 3, 4, 5, 6, 7, 8, 9, 10, 11, 12, 13, 14, 15, 16, 17, 18, 19, 20, 21, 22, 23]"
  by code_simp

lemma crc_table_inj: "inj_on (\<lambda>i. crc_remainder (2 ^ i)) {..<24}"
proof -
  have "distinct (map (\<lambda>i. crc_remainder (2 ^ i)) [0..<24])" by (simp add: upt_24)
  then show ?thesis by (simp add: distinct_map atLeast_upt lessThan_atLeast0)
qed

lemma bits_of_24: "take_bit 24 w = w \<Longrightarrow> bit (w :: u32) i \<Longrightarrow> i < 24"
  by (metis bit_take_bit_iff)

lemma weight_at_least_4:
  assumes e: "take_bit 24 e = e" "e \<noteq> 0" and r: "crc_remainder e = 0"
  shows "4 \<le> weight e"
proof -
  have even: "even (weight e)"
    using even_weight_remainder [of e] e(1) r by (simp add: weight_def)
  have "{i. bit e i} \<noteq> {}" using e(2) by (auto simp: bit_eq_iff)
  moreover have fin: "finite {i. bit e i}"
    by (rule finite_subset [of _ "{..<32}"]) (auto dest: bit_imp_le_length)
  ultimately have "weight e \<noteq> 0" by (simp add: weight_card)
  moreover have "weight e \<noteq> 2"
  proof
    assume "weight e = 2"
    then obtain i j where ij: "{k. bit e k} = {i, j}" "i \<noteq> j"
      by (auto simp: weight_card card_2_iff)
    then have lt: "i < 24" "j < 24" using bits_of_24 [OF e(1)] by blast+
    have "bit e k \<longleftrightarrow> k = i \<or> k = j" for k using ij(1) by auto
    then have "e = 2 ^ i XOR 2 ^ j"
      using ij(2) by (intro bit_word_eqI) (auto simp: bit_xor_iff bit_exp_iff)
    then have "crc_remainder (2 ^ i) XOR crc_remainder (2 ^ j) = 0"
      using r by (simp add: crc_remainder_xor)
    then have "crc_remainder (2 ^ i) = crc_remainder (2 ^ j)"
      by (auto simp: bit_eq_iff bit_xor_iff)
    with crc_table_inj lt ij(2) show False by (auto simp: inj_on_def)
  qed
  ultimately show ?thesis using even by presburger
qed

lemma crc_row_24: "take_bit 24 (crc_row val crc) = crc_row val crc"
  by (rule bit_word_eqI) (auto simp: crc_row_def bit_simps dest: bit_imp_le_length)

lemma crc_row_inject: "crc_row v c = crc_row v' c' \<longleftrightarrow> v = v' \<and> c = c'"
proof
  assume eq: "crc_row v c = crc_row v' c'"
  have "ucast (crc_row v c) = c" "ucast (drop_bit 8 (crc_row v c)) = v" for v c
    by (rule bit_word_eqI; auto simp: crc_row_def bit_simps dest: bit_imp_le_length)+
  with eq show "v = v' \<and> c = c'" by metis
qed simp

section \<open>Properties\<close>

text \<open>Every measurement has exactly one checksum the test accepts.\<close>

theorem crc_unique: "\<exists>!crc. is_crc_valid val crc"
proof
  let ?r = "crc_remainder (crc_row val 0)"
  have r8: "take_bit 8 ?r = ?r"
    using crc_remainder_bits [of "crc_row val 0"]
    by (intro bit_word_eqI) (auto simp: bit_take_bit_iff crc_row_24)
  have "ucast (ucast ?r :: u8) = take_bit 8 ?r"
    by (rule bit_word_eqI) (auto simp: bit_simps)
  then have "ucast (ucast ?r :: u8) = ?r" by (rule trans [OF _ r8])
  then show "is_crc_valid val (ucast ?r)"
    by (simp add: is_crc_valid_def crc_remainder_0_iff_crc [of val "ucast ?r"])
next
  fix crc assume "is_crc_valid val crc"
  then have "crc_remainder (crc_row val 0) = ucast crc"
    by (auto simp: is_crc_valid_def crc_remainder_0_iff_crc [of val crc] bit_eq_iff bit_xor_iff)
  then have "ucast (crc_remainder (crc_row val 0)) = (ucast (ucast crc :: u32) :: u8)" by simp
  also have "\<dots> = crc" by (rule bit_word_eqI) (auto simp: bit_simps)
  finally show "crc = ucast (crc_remainder (crc_row val 0))" by simp
qed

text \<open>C30: Two different accepted measurements differ in at least four of their 24 bits: the
  test detects every error in one, two or three bits.\<close>

theorem crc_distance_four:
  assumes "is_crc_valid v c" "is_crc_valid v' c'" "(v, c) \<noteq> (v', c')"
  shows "4 \<le> card {i. bit (crc_row v c XOR crc_row v' c') i}"
proof -
  let ?e = "crc_row v c XOR crc_row v' c'"
  have "take_bit 24 ?e = ?e" using crc_row_24 by (simp add: take_bit_xor)
  moreover have "?e \<noteq> 0" using assms(3) crc_row_inject [of v c v' c']
    by (auto simp: bit_eq_iff bit_xor_iff)
  moreover have "crc_remainder ?e = 0"
    using assms(1,2) by (simp add: crc_remainder_xor is_crc_valid_def)
  ultimately show ?thesis using weight_at_least_4 by (simp add: weight_card)
qed

theorem crc_distance_four_witness:
  "4 \<le> card {i. bit (crc_row 0 0 XOR crc_row 1 49) i}"
  by (rule crc_distance_four) (simp_all add: is_crc_valid_def crc_row_def crc_eval)

section \<open>Readings\<close>

text \<open>The transactions of a measurement, for the hypotheses on the bus.\<close>

definition command_steps :: "u8 \<Rightarrow> i2c_step list" where
  "command_steps command = [I2C_Start, I2C_Write 0x80, I2C_Write command, I2C_Stop]"

definition fetch_steps :: "i2c_step list" where
  "fetch_steps = [I2C_Start, I2C_Write 0x81, I2C_Read True, I2C_Read True, I2C_Read False, I2C_Stop]"

definition raw_of :: "u8 \<Rightarrow> u8 \<Rightarrow> int" where
  "raw_of msb lsb = 256 * uint msb + 4 * (uint lsb div 4)"

lemma uint_raw:
  "uint ((push_bit 8 (ucast (msb :: u8)) OR ucast (lsb :: u8) :: u16) AND 0xFFFC) = raw_of msb lsb"
proof -
  have d: "(256 * a + b) div 4 = 64 * a + b div 4" for a b :: nat by presburger
  have "unat ((push_bit 8 (ucast msb) OR ucast lsb :: u16) AND 0xFFFC)
      = 256 * unat msb + 4 * (unat lsb div 4)"
    by (simp add: unat_and_FFFC unat_join16 d)
  then have "int (unat ((push_bit 8 (ucast msb) OR ucast lsb :: u16) AND 0xFFFC))
      = int (256 * unat msb + 4 * (unat lsb div 4))" by (rule arg_cong)
  then show ?thesis by (simp add: raw_of_def zdiv_int)
qed

lemma f_mul_commute: "f_mul r a b = f_mul r b a"
  by (cases a; cases b) (auto simp: mult.commute)

lemma conversion_accuracy:
  assumes i: "0 \<le> i" "i < 65536" and K: "0 < K" "K < 200" and C: "0 < C" "C < 50"
  shows "\<exists>y. narrow (f_sub to_f64 (f_div_const to_f64 (f_mul to_f64 (Fin (of_int i)) (to_f64 K)) 65536)
      (to_f64 C)) = Fin y \<and> \<bar>y - (of_int i * K / 65536 - C)\<bar> \<le> 1 / 10000"
proof -
  let ?r = "of_int i :: rat"
  have r: "0 \<le> ?r" "?r < 65536" using i by simp_all
  have p24: "(2 :: rat) ^ 24 = 16777216" and p8: "(2 :: rat) ^ 8 = 256" by simp_all
  obtain k where k: "to_f64 K = Fin k" "\<bar>k - K\<bar> \<le> 1 / 1000000"
    using to_f64_err [of K] K by auto
  obtain c where c: "to_f64 C = Fin c" "\<bar>c - C\<bar> \<le> 1 / 1000000"
    using to_f64_err [of C] C by auto
  have p: "\<bar>?r * k - ?r * K\<bar> \<le> 65536 / 1000000"
  proof -
    have "\<bar>?r * k - ?r * K\<bar> = ?r * \<bar>k - K\<bar>"
      using r by (simp add: abs_mult flip: right_diff_distrib)
    also have "\<dots> \<le> 65536 * (1 / 1000000)" by (rule mult_mono) (use r k in simp_all)
    finally show ?thesis by simp
  qed
  have rK: "?r * K \<le> 65536 * 200" "0 \<le> ?r * K" using r K
    by (intro mult_mono mult_nonneg_nonneg; simp)+
  then have "\<bar>?r * k\<bar> < 2 ^ 24" using p unfolding p24 by linarith
  then obtain m where m: "to_f64 (?r * k) = Fin m" "\<bar>m - ?r * k\<bar> \<le> 1 / 1000000"
    using to_f64_err by blast
  have mK: "\<bar>m - ?r * K\<bar> \<le> 65537 / 1000000" using m(2) p by linarith
  then have d: "\<bar>m / 65536 - ?r * K / 65536\<bar> \<le> 2 / 1000000" "\<bar>m / 65536\<bar> \<le> 201"
    using rK by linarith+
  then have "\<bar>m / 65536\<bar> < 2 ^ 24" unfolding p24 by linarith
  then obtain q where q: "to_f64 (m / 65536) = Fin q" "\<bar>q - m / 65536\<bar> \<le> 1 / 1000000"
    using to_f64_err by blast
  have "\<bar>q - c\<bar> < 2 ^ 24" using q d c C unfolding p24 by linarith
  then obtain u where u: "to_f64 (q - c) = Fin u" "\<bar>u - (q - c)\<bar> \<le> 1 / 1000000"
    using to_f64_err by blast
  have e: "\<bar>u - (?r * K / 65536 - C)\<bar> \<le> 5 / 1000000" using u(2) q(2) d(1) c(2) by linarith
  have "- 50 \<le> ?r * K / 65536 - C" "?r * K / 65536 - C \<le> 200" using rK C by simp_all
  then have "\<bar>u\<bar> < 2 ^ 8" using e unfolding p8 by linarith
  then obtain y where y: "to_f32 u = Fin y" "\<bar>y - u\<bar> \<le> 1 / 65536" using to_f32_err by blast
  have "\<bar>y - (?r * K / 65536 - C)\<bar> \<le> 1 / 10000" using e y(2) by linarith
  then show ?thesis using k c m q u y by (simp add: f_sub_def)
qed

lemma si7021_read_ok:
  assumes "bus s (command_steps command) = (ESP_OK, b, s1)"
    and "bus s1 fetch_steps = (ESP_OK, [msb, lsb, crc], s2)"
  shows "\<exists>raw. si7021_read bus s command = Inr (raw, \<not> is_crc_valid (push_bit 8 (ucast msb) OR ucast lsb) crc, s2)
    \<and> uint raw = raw_of msb lsb"
  using assms unfolding command_steps_def fetch_steps_def
  by (simp add: si7021_read_def Let_def uint_raw)

lemma si7021_read_failed:
  assumes "fst (bus s (command_steps command)) \<noteq> ESP_OK
    \<or> fst (bus (snd (snd (bus s (command_steps command)))) fetch_steps) \<noteq> ESP_OK"
  shows "\<exists>s'. si7021_read bus s command = Inr (0, False, s')"
  using assms unfolding command_steps_def fetch_steps_def
  by (auto simp: si7021_read_def split: prod.splits)

text \<open>C31: When both transactions succeed, a temperature is within a ten-thousandth of a
  degree of \<open>175.72 raw / 65536 - 46.85\<close> and a humidity within a ten-thousandth of
  \<open>125 raw / 65536 - 6\<close>, where the two low bits of the raw value are dropped, and raw 0 is
  not a number. A checksum that does not fit only shows in the printed line: the value
  is returned all the same.\<close>

theorem sensor_readings:
  assumes "bus s (command_steps command) = (ESP_OK, b, s1)"
    and "bus s1 fetch_steps = (ESP_OK, [msb, lsb, crc], s2)"
  defines "raw \<equiv> raw_of msb lsb" and "bad \<equiv> \<not> is_crc_valid (push_bit 8 (ucast msb) OR ucast lsb) crc"
  shows "(command = 0xF3 \<longrightarrow> (\<exists>t. si7021_read_temperature bus s = Inr (t, bad, s2)
      \<and> (if raw = 0 then t = NaN
         else \<exists>y. t = Fin y \<and> \<bar>y - (of_int raw * (17572 / 100) / 65536 - 4685 / 100)\<bar> \<le> 1 / 10000)))
    \<and> (command = 0xF5 \<longrightarrow> (\<exists>t. si7021_read_humidity bus s = Inr (t, bad, s2)
      \<and> (if raw = 0 then t = NaN
         else \<exists>y. t = Fin y \<and> \<bar>y - (of_int raw * 125 / 65536 - 6)\<bar> \<le> 1 / 10000)))"
proof -
  obtain w where w: "si7021_read bus s command = Inr (w, bad, s2)" "uint w = raw"
    using si7021_read_ok [of bus s command b s1 msb lsb crc s2] assms by blast
  have zero: "w = 0 \<longleftrightarrow> raw = 0" using uint_0_iff [of w] unfolding w(2) by blast
  have b: "0 \<le> raw" "raw < 65536" using uint_lt2p [of w] uint_ge_0 [of w] unfolding w(2) by simp_all
  have T: "\<exists>y. temperature_of_raw w = Fin y
      \<and> \<bar>y - (of_int raw * (17572 / 100) / 65536 - 4685 / 100)\<bar> \<le> 1 / 10000"
    unfolding temperature_of_raw_def w(2) by (rule conversion_accuracy [OF b]) simp_all
  have H: "\<exists>y. humidity_of_raw w = Fin y \<and> \<bar>y - (of_int raw * 125 / 65536 - 6)\<bar> \<le> 1 / 10000"
    unfolding humidity_of_raw_def w(2) f_mul_commute [of _ "to_f64 125"]
    by (rule conversion_accuracy [OF b]) simp_all
  show ?thesis
  proof (intro conjI impI)
    assume "command = 0xF3"
    then have "si7021_read_temperature bus s
        = Inr (if w = 0 then NaN else temperature_of_raw w, bad, s2)"
      using w(1) by (simp add: si7021_read_temperature_def)
    then show "\<exists>t. si7021_read_temperature bus s = Inr (t, bad, s2)
        \<and> (if raw = 0 then t = NaN
           else \<exists>y. t = Fin y \<and> \<bar>y - (of_int raw * (17572 / 100) / 65536 - 4685 / 100)\<bar> \<le> 1 / 10000)"
      using T zero by (cases "raw = 0") auto
  next
    assume "command = 0xF5"
    then have "si7021_read_humidity bus s
        = Inr (if w = 0 then NaN else humidity_of_raw w, bad, s2)"
      using w(1) by (simp add: si7021_read_humidity_def)
    then show "\<exists>t. si7021_read_humidity bus s = Inr (t, bad, s2)
        \<and> (if raw = 0 then t = NaN
           else \<exists>y. t = Fin y \<and> \<bar>y - (of_int raw * 125 / 65536 - 6)\<bar> \<le> 1 / 10000)"
      using H zero by (cases "raw = 0") auto
  qed
qed

theorem sensor_readings_witness:
  "\<exists>y. si7021_read_temperature
      (\<lambda>n steps. if n = 0 then (ESP_OK, [], 1) else (ESP_OK, [0x66, 0x4C, 0], n + 1)) (0 :: nat)
      = Inr (Fin y, True, 2) \<and> \<bar>y - (26188 * (17572 / 100) / 65536 - 4685 / 100)\<bar> \<le> 1 / 10000"
proof -
  let ?bus = "\<lambda>n steps. if n = 0 then (ESP_OK, [], 1) else (ESP_OK, [0x66, 0x4C, 0], n + 1 :: nat)"
  have "\<not> is_crc_valid 0x664C 0" by (simp add: is_crc_valid_def crc_row_def crc_eval)
  then show ?thesis
    using sensor_readings [of ?bus 0 "0xF3" "[]" 1 "0x66" "0x4C" 0 2]
    by (simp add: raw_of_def) force
qed

lemma bit_resolution_bits:
  "n < 8 \<Longrightarrow> bit (resolution_bits r c) n \<longleftrightarrow> (if n = 0 \<or> n = 7 then bit r n else bit c n)"
proof -
  have b: "(r :: u8) AND 2 ^ k \<noteq> 0 \<longleftrightarrow> bit r k" for k by (simp add: and_exp_eq_0_iff_not_bit)
  have "r AND 1 \<noteq> 0 \<longleftrightarrow> bit r 0" using b [of 0] by simp
  moreover have "r AND 128 \<noteq> 0 \<longleftrightarrow> bit r 7" using b [of 7] by simp
  ultimately show "n < 8 \<Longrightarrow> bit (resolution_bits r c) n \<longleftrightarrow> (if n = 0 \<or> n = 7 then bit r n else bit c n)"
    unfolding less_8
    by (elim insertE emptyE) (simp_all add: resolution_bits_def Let_def bit_simps bit_numeral_rec)
qed

lemma mask_resolution: "v AND (0x81 :: u8) = w AND 0x81 \<longleftrightarrow> (bit v 0 \<longleftrightarrow> bit w 0) \<and> (bit v 7 \<longleftrightarrow> bit w 7)"
  "v AND NOT (0x81 :: u8) = w AND NOT 0x81 \<longleftrightarrow> (\<forall>n<8. n \<noteq> 0 \<longrightarrow> n \<noteq> 7 \<longrightarrow> bit v n = bit w n)"
proof -
  have eq: "x = y \<longleftrightarrow> (\<forall>n<8. bit x n = bit y n)" for x y :: u8 by (auto intro: bit_word_eqI)
  have all8: "(\<forall>n<8. P n) \<longleftrightarrow> P 0 \<and> P 1 \<and> P 2 \<and> P 3 \<and> P 4 \<and> P 5 \<and> P 6 \<and> P 7" for P :: "nat \<Rightarrow> bool"
    by (simp only: less_8 Ball_def [symmetric] ball_simps simp_thms)
  have c: "bit (0x81 :: u8) 0 = True" "bit (0x81 :: u8) 1 = False" "bit (0x81 :: u8) 2 = False"
      "bit (0x81 :: u8) 3 = False" "bit (0x81 :: u8) 4 = False" "bit (0x81 :: u8) 5 = False"
      "bit (0x81 :: u8) 6 = False" "bit (0x81 :: u8) 7 = True"
    by (simp_all add: bit_numeral_rec)
  have p: "possible_bit TYPE(u8) n" if "n < 8" for n using that by simp
  show "v AND (0x81 :: u8) = w AND 0x81 \<longleftrightarrow> (bit v 0 \<longleftrightarrow> bit w 0) \<and> (bit v 7 \<longleftrightarrow> bit w 7)"
    unfolding eq all8 bit_and_iff c by simp
  show "v AND NOT (0x81 :: u8) = w AND NOT 0x81 \<longleftrightarrow> (\<forall>n<8. n \<noteq> 0 \<longrightarrow> n \<noteq> 7 \<longrightarrow> bit v n = bit w n)"
    unfolding eq all8 bit_and_iff bit_not_iff c by (simp add: p)
qed

definition register_fetch :: "i2c_step list" where
  "register_fetch = [I2C_Start, I2C_Write 0x81, I2C_Read False, I2C_Stop]"

text \<open>Setting the resolution writes a register value with the two resolution bits as asked.
  The other bits are those read from the sensor, but all zero when the reading failed:
  the failure is not noticed and, for instance, a heater that was on is switched off.\<close>

lemma set_resolution_writes:
  assumes "bus s (command_steps 0xE7) = (e1, b1, s1)"
    and "bus s1 register_fetch = (e2, b2, s2)"
    and "e1 = ESP_OK \<and> e2 = ESP_OK \<longrightarrow> b2 = [reg]"
  shows "\<exists>v. si7021_set_resolution bus s r
      = Inr (si7021_write_user_register bus (if e1 = ESP_OK then s2 else s1) v)
    \<and> v AND 0x81 = r AND 0x81
    \<and> v AND NOT 0x81 = (if e1 = ESP_OK \<and> e2 = ESP_OK then reg else 0) AND NOT 0x81"
proof -
  let ?c = "if e1 = ESP_OK \<and> e2 = ESP_OK then reg else 0"
  have "si7021_read_user_register bus s = Inr (?c, if e1 = ESP_OK then s2 else s1)"
    using assms unfolding command_steps_def register_fetch_def
    by (simp add: si7021_read_user_register_def)
  then have "si7021_set_resolution bus s r = Inr (si7021_write_user_register bus
      (if e1 = ESP_OK then s2 else s1) (resolution_bits r ?c))"
    by (simp only: si7021_set_resolution_def andthen_Inr split)
  then show ?thesis
    by (intro exI [of _ "resolution_bits r ?c"])
      (simp only: mask_resolution bit_resolution_bits simp_thms, simp add: bit_resolution_bits)
qed

end
