(* ===== verification/Nvs_Storage.thy ===== *)
theory Nvs_Storage
  imports Led_Driver
begin

text \<open>
  Saved settings: \<open>components/CM-NVS/nvs_storage.c\<close>, and the start of \<open>app_main\<close> that loads
  the profile or stores the default one. The flash library of ESP-IDF is a parameter, a
  record of its functions on a state of its own; what is stored in the flash and how many
  handles are open are observations of that state, and \<open>nvs_laws\<close> states the documented
  behaviour a proof relies on. The blob is the profile itself.
\<close>

section \<open>The interface of the flash library\<close>

record 's nvs_api =
  nvs_open :: "string \<Rightarrow> 's \<Rightarrow> esp_err \<times> nat \<times> 's"                        \<comment> \<open>namespace; handle\<close>
  nvs_set_blob :: "nat \<Rightarrow> string \<Rightarrow> led_status \<Rightarrow> 's \<Rightarrow> esp_err \<times> 's"
  nvs_blob_size :: "nat \<Rightarrow> string \<Rightarrow> 's \<Rightarrow> esp_err \<times> nat \<times> 's"            \<comment> \<open>\<open>nvs_get_blob\<close> into NULL\<close>
  nvs_get_blob :: "nat \<Rightarrow> string \<Rightarrow> nat \<Rightarrow> 's \<Rightarrow> esp_err \<times> led_status \<times> 's"
  nvs_set_str :: "nat \<Rightarrow> string \<Rightarrow> string \<Rightarrow> 's \<Rightarrow> esp_err \<times> 's"
  nvs_get_str :: "nat \<Rightarrow> string \<Rightarrow> nat \<Rightarrow> 's \<Rightarrow> esp_err \<times> string \<times> 's"
  nvs_commit :: "nat \<Rightarrow> 's \<Rightarrow> esp_err \<times> 's"
  nvs_close :: "nat \<Rightarrow> 's \<Rightarrow> 's"

section \<open>The operations\<close>

definition save_led :: "'s nvs_api \<Rightarrow> led_status \<Rightarrow> 's \<Rightarrow> 's" where
  "save_led api ptr s =
     (case nvs_open api ''storage'' s of (err, my_handle, s1) \<Rightarrow>
      if err \<noteq> ESP_OK then s1
      else case nvs_set_blob api my_handle ''led_state'' ptr s1 of (err, s2) \<Rightarrow>
           case nvs_commit api my_handle s2 of (err, s3) \<Rightarrow> nvs_close api my_handle s3)"

text \<open>The result, \<open>*ptr\<close> after the call and the state. An error code returned as \<open>bool\<close> is
  true when it is not \<open>ESP_OK\<close>.\<close>

definition read_led :: "'s nvs_api \<Rightarrow> led_status \<Rightarrow> 's \<Rightarrow> bool \<times> led_status \<times> 's" where
  "read_led api ptr s =
     (case nvs_open api ''storage'' s of (err, my_handle, s1) \<Rightarrow>
      if err \<noteq> ESP_OK then (False, ptr, s1)
      else case nvs_blob_size api my_handle ''led_state'' s1 of (err, size_read, s2) \<Rightarrow>
        if err \<noteq> ESP_OK \<and> err \<noteq> ESP_ERR_NVS_NOT_FOUND then (err \<noteq> ESP_OK, ptr, s2)
        else case nvs_get_blob api my_handle ''led_state'' size_read s2 of (err, blob, s3) \<Rightarrow>
          (case err of
             ESP_OK \<Rightarrow> (True, blob, nvs_close api my_handle s3)
           | ESP_ERR_NVS_NOT_FOUND \<Rightarrow> (False, ptr, s3)
           | _ \<Rightarrow> (False, ptr, s3)))"

definition save_string :: "'s nvs_api \<Rightarrow> string \<Rightarrow> string \<Rightarrow> 's \<Rightarrow> 's" where
  "save_string api key str s =
     (case nvs_open api key s of (err, my_handle, s1) \<Rightarrow>
      if err \<noteq> ESP_OK then s1
      else case nvs_set_str api my_handle key str s1 of (err, s2) \<Rightarrow>
           case nvs_commit api my_handle s2 of (err, s3) \<Rightarrow> nvs_close api my_handle s3)"

definition get_string :: "'s nvs_api \<Rightarrow> string \<Rightarrow> string \<Rightarrow> nat \<Rightarrow> 's \<Rightarrow> bool \<times> string \<times> 's" where
  "get_string api key out_value len s =
     (case nvs_open api key s of (err, my_handle, s1) \<Rightarrow>
      if err \<noteq> ESP_OK then (False, out_value, s1)
      else case nvs_get_str api my_handle key len s1 of (err, str, s2) \<Rightarrow>
        (case err of
           ESP_OK \<Rightarrow> (True, str, s2)
         | ESP_ERR_NVS_NOT_FOUND \<Rightarrow> (False, out_value, s2)
         | _ \<Rightarrow> (False, out_value, s2)))"

text \<open>\<open>app_main\<close>: the profile in the global \<open>status_led\<close> after the start.\<close>

definition boot_profile :: "'s nvs_api \<Rightarrow> led_status \<Rightarrow> 's \<Rightarrow> led_status \<times> 's" where
  "boot_profile api status_led s =
     (case read_led api status_led s of (ok, status_led, s1) \<Rightarrow>
      if ok then (status_led, s1) else (default_profile, save_led api default_profile s1))"

text \<open>\<open>app_main\<close>: one of the three keys, loaded or stored with its built-in value.\<close>

definition boot_key :: "'s nvs_api \<Rightarrow> string \<Rightarrow> string \<Rightarrow> nat \<Rightarrow> 's \<Rightarrow> string \<times> 's" where
  "boot_key api key preset buf_len s =
     (case get_string api key [] buf_len s of (ok, loaded, s1) \<Rightarrow>
      if ok then (loaded, s1) else (preset, save_string api key preset s1))"

definition boot_keys :: "'s nvs_api \<Rightarrow> 's \<Rightarrow> string \<times> string \<times> string \<times> 's" where
  "boot_keys api s =
     (case boot_key api ''DEVADDR'' ''76:6D:A0:20'' 12 s of (devaddr, s1) \<Rightarrow>
      case boot_key api ''NWKSKEY'' ''28:AE:D2:2B:7E:15:16:A6:09:CF:AB:F7:15:88:4F:3C'' 48 s1
        of (nwkskey, s2) \<Rightarrow>
      case boot_key api ''APPSKEY'' ''16:28:AE:2B:7E:15:D2:A6:AB:F7:CF:4F:3C:15:88:09'' 48 s2
        of (appskey, s3) \<Rightarrow> (devaddr, nwkskey, appskey, s3))"

section \<open>Documented behaviour of the flash library\<close>

text \<open>\<open>saved\<close> is the profile in the flash, \<open>opened\<close> the number of open handles: a
  successful open adds a handle and a close removes one, a successful write is what a
  read finds afterwards, a failed one keeps what was there, reads change neither.\<close>

definition nvs_laws :: "'s nvs_api \<Rightarrow> ('s \<Rightarrow> led_status option) \<Rightarrow> ('s \<Rightarrow> nat) \<Rightarrow> bool" where
  "nvs_laws api saved opened \<longleftrightarrow>
     (\<forall>s ns err h s'. nvs_open api ns s = (err, h, s') \<longrightarrow>
        saved s' = saved s \<and> opened s' = opened s + (if err = ESP_OK then 1 else 0)) \<and>
     (\<forall>s h k v err s'. nvs_set_blob api h k v s = (err, s') \<longrightarrow>
        saved s' = (if err = ESP_OK then Some v else saved s) \<and> opened s' = opened s) \<and>
     (\<forall>s h k err n s'. nvs_blob_size api h k s = (err, n, s') \<longrightarrow>
        saved s' = saved s \<and> opened s' = opened s \<and> (err = ESP_ERR_NVS_NOT_FOUND \<longleftrightarrow> saved s = None)) \<and>
     (\<forall>s h k n err v s'. nvs_get_blob api h k n s = (err, v, s') \<longrightarrow>
        saved s' = saved s \<and> opened s' = opened s \<and> (err = ESP_OK \<longrightarrow> saved s = Some v)) \<and>
     (\<forall>s h k n err v s'. nvs_get_str api h k n s = (err, v, s') \<longrightarrow>
        saved s' = saved s \<and> opened s' = opened s) \<and>
     (\<forall>s h k v err s'. nvs_set_str api h k v s = (err, s') \<longrightarrow>
        saved s' = saved s \<and> opened s' = opened s) \<and>
     (\<forall>s h err s'. nvs_commit api h s = (err, s') \<longrightarrow> saved s' = saved s \<and> opened s' = opened s) \<and>
     (\<forall>s h. saved (nvs_close api h s) = saved s \<and> opened (nvs_close api h s) = opened s - 1)"

lemma law_open:
  assumes "nvs_laws api saved opened"
  shows "nvs_open api ns s = (err, h, s') \<Longrightarrow>
      saved s' = saved s \<and> opened s' = opened s + (if err = ESP_OK then 1 else 0)"
  using assms [unfolded nvs_laws_def, THEN conjunct1, rule_format] by blast

lemma law_set_blob:
  assumes "nvs_laws api saved opened"
  shows "nvs_set_blob api h k v s = (err, s') \<Longrightarrow>
      saved s' = (if err = ESP_OK then Some v else saved s) \<and> opened s' = opened s"
  using assms [unfolded nvs_laws_def, THEN conjunct2, THEN conjunct1, rule_format] by blast

lemma law_blob_size:
  assumes "nvs_laws api saved opened"
  shows "nvs_blob_size api h k s = (err, n, s') \<Longrightarrow>
      saved s' = saved s \<and> opened s' = opened s \<and> (err = ESP_ERR_NVS_NOT_FOUND \<longleftrightarrow> saved s = None)"
  using assms [unfolded nvs_laws_def, THEN conjunct2, THEN conjunct2, THEN conjunct1, rule_format] by blast

lemma law_get_blob:
  assumes "nvs_laws api saved opened"
  shows "nvs_get_blob api h k n s = (err, v, s') \<Longrightarrow>
      saved s' = saved s \<and> opened s' = opened s \<and> (err = ESP_OK \<longrightarrow> saved s = Some v)"
  using assms [unfolded nvs_laws_def, THEN conjunct2, THEN conjunct2, THEN conjunct2, THEN conjunct1, rule_format] by blast

lemma law_get_str:
  assumes "nvs_laws api saved opened"
  shows "nvs_get_str api h k n s = (err, str, s') \<Longrightarrow> saved s' = saved s \<and> opened s' = opened s"
  using assms [unfolded nvs_laws_def, THEN conjunct2, THEN conjunct2, THEN conjunct2, THEN conjunct2, THEN conjunct1, rule_format] by blast

lemma law_set_str:
  assumes "nvs_laws api saved opened"
  shows "nvs_set_str api h k str s = (err, s') \<Longrightarrow> saved s' = saved s \<and> opened s' = opened s"
  using assms [unfolded nvs_laws_def, THEN conjunct2, THEN conjunct2, THEN conjunct2, THEN conjunct2, THEN conjunct2, THEN conjunct1, rule_format] by blast

lemma law_commit:
  assumes "nvs_laws api saved opened"
  shows "nvs_commit api h s = (err, s') \<Longrightarrow> saved s' = saved s \<and> opened s' = opened s"
  using assms [unfolded nvs_laws_def, THEN conjunct2, THEN conjunct2, THEN conjunct2, THEN conjunct2, THEN conjunct2, THEN conjunct2, THEN conjunct1, rule_format] by blast

lemma law_close_saved:
  assumes "nvs_laws api saved opened"
  shows "saved (nvs_close api h s) = saved s"
  using assms [unfolded nvs_laws_def, THEN conjunct2, THEN conjunct2, THEN conjunct2, THEN conjunct2, THEN conjunct2, THEN conjunct2, THEN conjunct2, THEN spec, THEN spec, THEN conjunct1] by blast

lemma law_close_opened:
  assumes "nvs_laws api saved opened"
  shows "opened (nvs_close api h s) = opened s - 1"
  using assms [unfolded nvs_laws_def, THEN conjunct2, THEN conjunct2, THEN conjunct2, THEN conjunct2, THEN conjunct2, THEN conjunct2, THEN conjunct2, THEN spec, THEN spec, THEN conjunct2] by blast

lemmas lawsD = law_open law_set_blob law_blob_size law_get_blob law_get_str law_set_str law_commit law_close_saved law_close_opened

text \<open>A flash library that obeys the laws and never fails, for the witnesses.\<close>

definition ideal_nvs :: "(led_status option \<times> nat) nvs_api" where
  "ideal_nvs = \<lparr>
     nvs_open = \<lambda>ns (v, n). (ESP_OK, n, (v, n + 1)),
     nvs_set_blob = \<lambda>h k v (_, n). (ESP_OK, (Some v, n)),
     nvs_blob_size = \<lambda>h k (v, n). (if v = None then ESP_ERR_NVS_NOT_FOUND else ESP_OK, 48, (v, n)),
     nvs_get_blob = \<lambda>h k sz (v, n). (case v of None \<Rightarrow> (ESP_ERR_NVS_NOT_FOUND, default_profile, (v, n))
                                    | Some p \<Rightarrow> (ESP_OK, p, (v, n))),
     nvs_set_str = \<lambda>h k str (v, n). (ESP_OK, (v, n)),
     nvs_get_str = \<lambda>h k len (v, n). (ESP_ERR_NVS_NOT_FOUND, [], (v, n)),
     nvs_commit = \<lambda>h (v, n). (ESP_OK, (v, n)),
     nvs_close = \<lambda>h (v, n). (v, n - 1)\<rparr>"

lemma ideal_laws: "nvs_laws ideal_nvs fst snd"
  by (auto simp: nvs_laws_def ideal_nvs_def split: option.splits if_splits)

section \<open>What the operations keep\<close>

lemma save_led_effect:
  assumes "nvs_laws api saved opened"
  shows "opened (save_led api p s) = opened s \<and> saved (save_led api p s) \<in> {Some p, saved s}
    \<and> ((\<forall>ns s. fst (nvs_open api ns s) = ESP_OK) \<and> (\<forall>h k v s. fst (nvs_set_blob api h k v s) = ESP_OK)
       \<longrightarrow> saved (save_led api p s) = Some p)"
proof (cases "nvs_open api ''storage'' s")
  case (fields err h s1)
  note o1 = law_open [OF assms fields]
  show ?thesis
  proof (cases "err = ESP_OK")
    case False
    then have "\<not> (\<forall>ns s. fst (nvs_open api ns s) = ESP_OK)" using fields by (metis fst_conv)
    then show ?thesis using False fields o1 by (auto simp: save_led_def)
  next
    case True
    obtain e2 s2 where w: "nvs_set_blob api h ''led_state'' p s1 = (e2, s2)" by fastforce
    obtain e3 s3 where c: "nvs_commit api h s2 = (e3, s3)" by fastforce
    have r: "save_led api p s = nvs_close api h s3" using True fields w c by (simp add: save_led_def)
    have "fst (nvs_set_blob api h ''led_state'' p s1) = e2" using w by simp
    then show ?thesis
      using True r o1 law_set_blob [OF assms w] law_commit [OF assms c]
        law_close_saved [OF assms, of h s3] law_close_opened [OF assms, of h s3] by auto
  qed
qed

lemma save_string_effect:
  assumes "nvs_laws api saved opened"
  shows "opened (save_string api k str s) = opened s \<and> saved (save_string api k str s) = saved s"
proof (cases "nvs_open api k s")
  case (fields err h s1)
  obtain e2 s2 where w: "nvs_set_str api h k str s1 = (e2, s2)" by fastforce
  obtain e3 s3 where c: "nvs_commit api h s2 = (e3, s3)" by fastforce
  show ?thesis
    using law_open [OF assms fields] law_set_str [OF assms w] law_commit [OF assms c]
      law_close_saved [OF assms, of h s3] law_close_opened [OF assms, of h s3] fields w c
    by (simp add: save_string_def)
qed

lemma get_string_effect:
  assumes "nvs_laws api saved opened" "get_string api k out len s = (ok, str, s')"
  shows "saved s' = saved s \<and> opened s' = opened s + (if fst (nvs_open api k s) = ESP_OK then 1 else 0)"
proof (cases "nvs_open api k s")
  case (fields err h s1)
  obtain e2 v s2 where g: "nvs_get_str api h k len s1 = (e2, v, s2)" by (cases "nvs_get_str api h k len s1")
  show ?thesis
    using law_open [OF assms(1) fields] law_get_str [OF assms(1) g] assms(2) fields g
    by (auto simp: get_string_def split: if_splits esp_err.splits)
qed

lemma read_led_effect:
  assumes "nvs_laws api saved opened" and "read_led api ptr s = (ok, r, s')"
  shows "saved s' = saved s \<and>
    ((ok \<and> saved s = Some r \<and> opened s' = opened s)
     \<or> (\<not> ok \<and> r = ptr \<and> opened s' \<le> opened s + 1)
     \<or> (ok \<and> r = ptr \<and> saved s \<noteq> None \<and> opened s' = opened s + 1))"
proof (cases "nvs_open api ''storage'' s")
  case (fields err h s1)
  obtain e2 n s2 where sz: "nvs_blob_size api h ''led_state'' s1 = (e2, n, s2)"
    by (cases "nvs_blob_size api h ''led_state'' s1")
  obtain e3 v s3 where g: "nvs_get_blob api h ''led_state'' n s2 = (e3, v, s3)"
    by (cases "nvs_get_blob api h ''led_state'' n s2")
  note o1 = law_open [OF assms(1) fields] and o2 = law_blob_size [OF assms(1) sz]
    and o3 = law_get_blob [OF assms(1) g]
    and cl = law_close_saved [OF assms(1), of h s3] law_close_opened [OF assms(1), of h s3]
  consider "err \<noteq> ESP_OK" | "err = ESP_OK" "e2 \<noteq> ESP_OK" "e2 \<noteq> ESP_ERR_NVS_NOT_FOUND"
    | "err = ESP_OK" "e2 = ESP_OK \<or> e2 = ESP_ERR_NVS_NOT_FOUND" "e3 = ESP_OK"
    | "err = ESP_OK" "e2 = ESP_OK \<or> e2 = ESP_ERR_NVS_NOT_FOUND" "e3 \<noteq> ESP_OK" by blast
  then show ?thesis
  proof cases
    case 1
    then show ?thesis using assms(2) fields o1 by (auto simp: read_led_def)
  next
    case 2
    then show ?thesis using assms(2) fields sz o1 o2 by (auto simp: read_led_def)
  next
    case 3
    then show ?thesis using assms(2) fields sz g o1 o2 o3 cl by (auto simp: read_led_def)
  next
    case 4
    then have "read_led api ptr s = (False, ptr, s3)"
      using fields sz g by (auto simp: read_led_def split: esp_err.splits)
    then show ?thesis using assms(2) 4 o1 o2 o3 by auto
  qed
qed

section \<open>Properties\<close>



text \<open>A flash that accepts every write and finds what it stores.\<close>

definition nvs_reliable :: "'s nvs_api \<Rightarrow> ('s \<Rightarrow> led_status option) \<Rightarrow> bool" where
  "nvs_reliable api saved \<longleftrightarrow>
     (\<forall>ns s. fst (nvs_open api ns s) = ESP_OK) \<and> (\<forall>h k v s. fst (nvs_set_blob api h k v s) = ESP_OK) \<and>
     (\<forall>h k s. fst (nvs_blob_size api h k s) \<in> {ESP_OK, ESP_ERR_NVS_NOT_FOUND}) \<and>
     (\<forall>h k n s. saved s \<noteq> None \<longrightarrow> fst (nvs_get_blob api h k n s) = ESP_OK)"

lemma ideal_reliable: "nvs_reliable ideal_nvs fst"
  by (auto simp: nvs_reliable_def ideal_nvs_def split: option.splits)

lemma save_led_stored:
  "nvs_laws api saved opened \<Longrightarrow> nvs_reliable api saved \<Longrightarrow> saved (save_led api p s) = Some p"
  using save_led_effect by (metis nvs_reliable_def)

lemma read_led_stored:
  assumes laws: "nvs_laws api saved opened" and rel: "nvs_reliable api saved" and sv: "saved s = Some p"
  shows "\<exists>s'. read_led api z s = (True, p, s') \<and> saved s' = Some p"
proof -
  obtain e1 h s1 where o: "nvs_open api ''storage'' s = (e1, h, s1)"
    by (cases "nvs_open api ''storage'' s")
  obtain e2 n s2 where sz: "nvs_blob_size api h ''led_state'' s1 = (e2, n, s2)"
    by (cases "nvs_blob_size api h ''led_state'' s1")
  obtain e3 v s3 where g: "nvs_get_blob api h ''led_state'' n s2 = (e3, v, s3)"
    by (cases "nvs_get_blob api h ''led_state'' n s2")
  have s2: "saved s2 = Some p" using law_open [OF laws o] law_blob_size [OF laws sz] sv by simp
  have "e1 = ESP_OK" using rel o unfolding nvs_reliable_def by (metis fst_conv)
  moreover have "e2 = ESP_OK \<or> e2 = ESP_ERR_NVS_NOT_FOUND"
    using rel sz unfolding nvs_reliable_def by (metis fst_conv insertE singletonD)
  moreover have "e3 = ESP_OK" using rel s2 g unfolding nvs_reliable_def by (metis fst_conv option.distinct(1))
  moreover from this have "v = p" using law_get_blob [OF laws g] s2 by simp
  moreover have "saved (nvs_close api h s3) = Some p"
    using law_get_blob [OF laws g] s2 law_close_saved [OF laws, of h s3] by simp
  ultimately show ?thesis using o sz g by (auto simp: read_led_def)
qed

text \<open>A start loads the stored profile, or stores the one it makes; a saved profile is the one the
  next start loads.\<close>

lemma boot_profile_stored:
  assumes "nvs_laws api saved opened" "nvs_reliable api saved" "saved s = Some p"
  shows "fst (boot_profile api z s) = p"
  using read_led_stored [OF assms, of z] by (auto simp: boot_profile_def)

lemma boot_profile_durable:
  assumes laws: "nvs_laws api saved opened" and rel: "nvs_reliable api saved"
    and boot: "boot_profile api z s = (p, s')"
  shows "saved s' = Some p"
proof (cases "read_led api z s")
  case (fields ok q s1)
  show ?thesis
  proof (cases ok)
    case True
    note out = read_led_effect [OF laws fields]
    have "saved s = Some q"
    proof (cases "saved s")
      case (Some q')
      then show ?thesis using read_led_stored [OF laws rel Some, of z] fields by auto
    qed (use out True in auto)
    then show ?thesis using out boot fields True by (auto simp: boot_profile_def)
  next
    case False
    then show ?thesis using boot fields save_led_stored [OF laws rel] by (auto simp: boot_profile_def)
  qed
qed

text \<open>Every call of \<open>get_string\<close> that opens the flash leaves its handle open, so a start of
  the firmware loses one handle per key.\<close>

theorem boot_keys_leak:
  assumes "nvs_laws api saved opened" and "\<forall>ns s. fst (nvs_open api ns s) = ESP_OK"
    and "boot_keys api s = (devaddr, nwkskey, appskey, s')"
  shows "opened s' = opened s + 3 \<and> saved s' = saved s"
proof -
  have key: "opened t' = opened t + 1 \<and> saved t' = saved t" if "boot_key api k d n t = (v, t')" for k d n t v t'
  proof -
    obtain ok str t1 where g: "get_string api k [] n t = (ok, str, t1)"
      by (cases "get_string api k [] n t")
    have "opened t1 = opened t + 1 \<and> saved t1 = saved t"
      using get_string_effect [OF assms(1) g] assms(2) by simp
    then show ?thesis
      using that g save_string_effect [OF assms(1), of k d t1] by (auto simp: boot_key_def split: if_splits)
  qed
  show ?thesis using assms(3) by (auto simp: boot_keys_def split: prod.splits dest!: key)
qed

theorem boot_keys_leak_witness: "snd (snd (snd (snd (boot_keys ideal_nvs (None, 0))))) = 3"
proof -
  obtain a b c s' where r: "boot_keys ideal_nvs (None, 0) = (a, b, c, s')"
    by (cases "boot_keys ideal_nvs (None, 0)")
  have "\<forall>ns s. fst (nvs_open ideal_nvs ns s) = ESP_OK" by (auto simp: ideal_nvs_def)
  from boot_keys_leak [OF ideal_laws this r] r show ?thesis by simp
qed

end
