(* ===== verification/Nmea_Parser.thy ===== *)
theory Nmea_Parser
  imports C_Strings C_Float
begin

text \<open>
  The GPS receiver's sentences: \<open>components/CM-GPS/nmea_parser.c\<close>. The parser works one
  character at a time: it collects an item in a 16-character array, hands it to the
  function of the current sentence at each separator, and at the end of a line compares
  the checksum. When a checked sentence of every kind has come in, the collected data is
  published in the global \<open>gps_info\<close>, which is a field of the state here. All six sentence
  kinds are enabled in \<open>sdkconfig\<close>. The UART driver is a parameter: the position and the
  bytes it delivers. \<open>esp_err_t\<close> results that nobody reads are left out.
\<close>

section \<open>Reading a float\<close>

text \<open>\<open>strtof\<close>: blanks, a sign, then an infinity, a NaN, or digits with a point and an
  exponent, in base 10 or, after \<open>0x\<close>, in base 16 with a binary exponent. The parts are
  the digits before and after the point and the exponent, which is read only when it has a
  digit of its own.\<close>

definition to_lower :: "char \<Rightarrow> char" where
  "to_lower c = (let n = (of_char c :: nat) in if 65 \<le> n \<and> n \<le> 90 then char_of (n + 32) else c)"

definition scan_exponent :: "char \<Rightarrow> string \<Rightarrow> int" where
  "scan_exponent e s =
     (case s of [] \<Rightarrow> 0
      | c # cs \<Rightarrow> if to_lower c = e
          then (let (neg, t) = scan_sign cs; v = int (digits_value 10 (digits_of 10 t))
                in if neg then - v else v)
          else 0)"

definition scan_fraction :: "nat \<Rightarrow> string \<Rightarrow> nat list \<times> nat list \<times> string" where
  "scan_fraction b s =
     (let ip = digits_of b s; s1 = drop (length ip) s in
      case s1 of
        c # cs \<Rightarrow> if c = CHR ''.'' then (let fp = digits_of b cs in (ip, fp, drop (length fp) cs))
                  else (ip, [], s1)
      | [] \<Rightarrow> (ip, [], []))"

definition scan_number :: "nat \<Rightarrow> string \<Rightarrow> rat option" where
  "scan_number b s =
     (let (ip, fp, rest) = scan_fraction b s in
      if ip = [] \<and> fp = [] then None
      else Some (of_nat (digits_value b (ip @ fp)) / of_nat b ^ length fp
             * (if b = 16 then 2 powi scan_exponent CHR ''p'' rest
                else 10 powi scan_exponent CHR ''e'' rest)))"

definition strtof :: "string \<Rightarrow> c_float" where
  "strtof s =
     (let (neg, t) = scan_sign (dropWhile c_isspace s);
          lt = map to_lower t;
          signed = (\<lambda>q. to_f32 (if neg then - q else q))
      in if is_prefix ''inf'' lt then Inf neg
         else if is_prefix ''nan'' lt then NaN
         else if is_prefix ''0x'' lt \<and> scan_number 16 (drop 2 t) \<noteq> None
              then signed (the (scan_number 16 (drop 2 t)))
         else (case scan_number 10 t of None \<Rightarrow> Fin 0 | Some q \<Rightarrow> signed q))"

section \<open>State\<close>

record gps_time =
  hour :: u8
  minute :: u8
  second :: u8
  thousand :: u16

record gps_date =
  day :: u8
  month :: u8
  year :: u16

record gps_satellite =
  sat_id :: u8           \<comment> \<open>\<open>num\<close>\<close>
  elevation :: u8
  azimuth :: u16
  snr :: u8

record gps =
  latitude :: c_float
  longitude :: c_float
  altitude :: c_float
  gps_fix :: int
  sats_in_use :: u8
  tim :: gps_time
  fix_mode :: int
  sats_id_in_use :: "u8 list"
  dop_h :: c_float
  dop_p :: c_float
  dop_v :: c_float
  sats_in_view :: u8
  sats_desc_in_view :: "gps_satellite list"
  gps_date :: gps_date
  gps_valid :: bool
  speed :: c_float
  cog :: c_float
  variation :: c_float

text \<open>\<open>nmea_statement_t\<close>\<close>

abbreviation (input) STATEMENT_UNKNOWN :: u8 where "STATEMENT_UNKNOWN \<equiv> 0"
abbreviation (input) STATEMENT_GGA :: u8 where "STATEMENT_GGA \<equiv> 1"
abbreviation (input) STATEMENT_GSA :: u8 where "STATEMENT_GSA \<equiv> 2"
abbreviation (input) STATEMENT_RMC :: u8 where "STATEMENT_RMC \<equiv> 3"
abbreviation (input) STATEMENT_GSV :: u8 where "STATEMENT_GSV \<equiv> 4"
abbreviation (input) STATEMENT_GLL :: u8 where "STATEMENT_GLL \<equiv> 5"
abbreviation (input) STATEMENT_VTG :: u8 where "STATEMENT_VTG \<equiv> 6"

record esp_gps =
  item_pos :: u8
  item_num :: u8
  asterisk :: u8
  crc :: u8
  parsed_statement :: u8
  sat_num :: u8
  sat_count :: u8
  cur_statement :: u8
  all_statements :: u32
  item_str :: string
  parent :: gps
  gps_info :: gps           \<comment> \<open>the global\<close>

definition zero_gps :: gps where
  "zero_gps = \<lparr>latitude = Fin 0, longitude = Fin 0, altitude = Fin 0, gps_fix = 0, sats_in_use = 0,
     tim = \<lparr>hour = 0, minute = 0, second = 0, thousand = 0\<rparr>, fix_mode = 0,
     sats_id_in_use = replicate 12 0, dop_h = Fin 0, dop_p = Fin 0, dop_v = Fin 0, sats_in_view = 0,
     sats_desc_in_view = replicate 16 \<lparr>sat_id = 0, elevation = 0, azimuth = 0, snr = 0\<rparr>,
     gps_date = \<lparr>day = 0, month = 0, year = 0\<rparr>, gps_valid = False,
     speed = Fin 0, cog = Fin 0, variation = Fin 0\<rparr>"

text \<open>The parser object after \<open>nmea_parser_init\<close>: \<open>calloc\<close>ed, with the mask of the six kinds.\<close>

text \<open>The sentences enabled by the configuration of the build.\<close>

abbreviation (input) CONFIG_NMEA_STATEMENT_GSA :: nat where "CONFIG_NMEA_STATEMENT_GSA \<equiv> 1"
abbreviation (input) CONFIG_NMEA_STATEMENT_GSV :: nat where "CONFIG_NMEA_STATEMENT_GSV \<equiv> 1"
abbreviation (input) CONFIG_NMEA_STATEMENT_GGA :: nat where "CONFIG_NMEA_STATEMENT_GGA \<equiv> 1"
abbreviation (input) CONFIG_NMEA_STATEMENT_RMC :: nat where "CONFIG_NMEA_STATEMENT_RMC \<equiv> 1"
abbreviation (input) CONFIG_NMEA_STATEMENT_GLL :: nat where "CONFIG_NMEA_STATEMENT_GLL \<equiv> 1"
abbreviation (input) CONFIG_NMEA_STATEMENT_VTG :: nat where "CONFIG_NMEA_STATEMENT_VTG \<equiv> 1"

definition initial_gps :: esp_gps where
  "initial_gps = \<lparr>item_pos = 0, item_num = 0, asterisk = 0, crc = 0, parsed_statement = 0, sat_num = 0,
     sat_count = 0, cur_statement = 0,
     all_statements = ((if CONFIG_NMEA_STATEMENT_GSA \<noteq> 0 then push_bit 2 1 else 0)
                       OR (if CONFIG_NMEA_STATEMENT_GSV \<noteq> 0 then push_bit 4 1 else 0)
                       OR (if CONFIG_NMEA_STATEMENT_GGA \<noteq> 0 then push_bit 1 1 else 0)
                       OR (if CONFIG_NMEA_STATEMENT_RMC \<noteq> 0 then push_bit 3 1 else 0)
                       OR (if CONFIG_NMEA_STATEMENT_GLL \<noteq> 0 then push_bit 5 1 else 0)
                       OR (if CONFIG_NMEA_STATEMENT_VTG \<noteq> 0 then push_bit 6 1 else 0)) AND 0xFE,
     item_str = replicate 16 NUL, parent = zero_gps, gps_info = zero_gps\<rparr>"

section \<open>Items\<close>

definition item_float :: "esp_gps \<Rightarrow> fault + c_float" where
  "item_float g = andthen (cstr (item_str g)) (\<lambda>s. Inr (strtof s))"

definition item_long :: "esp_gps \<Rightarrow> nat \<Rightarrow> fault + int" where
  "item_long g b = andthen (cstr (item_str g)) (\<lambda>s. Inr (strtol s b))"

definition parse_lat_long :: "esp_gps \<Rightarrow> fault + c_float" where
  "parse_lat_long g =
     andthen (item_float g) (\<lambda>ll.
     andthen (f_to_i32 ll) (\<lambda>i.
     let deg = trunc (of_int i / 100);
         min = f_sub to_f32 ll (to_f32 (of_int (deg * 100)))
     in Inr (f_add to_f32 (to_f32 (of_int deg)) (f_div_const to_f32 min 60))))"

definition convert_two_digit2number :: "string \<Rightarrow> nat \<Rightarrow> fault + u8" where
  "convert_two_digit2number s off =
     andthen (rd s off) (\<lambda>c0. andthen (rd s (off + 1)) (\<lambda>c1.
     Inr (word_of_int (10 * (of_char c0 - 48) + (of_char c1 - 48)))))"

function utc_thousand :: "string \<Rightarrow> nat \<Rightarrow> u16 \<Rightarrow> fault + u16" where
  "utc_thousand s i tmp =
     andthen (rd s i) (\<lambda>c.
     if c = NUL then Inr tmp
     else utc_thousand s (i + 1) (word_of_int (10 * uint tmp + of_char c - 48)))"
  by pat_completeness auto
termination
  by (relation "measure (\<lambda>(s, i, _). length s - i)") (auto simp: rd_eq_Inr)

declare utc_thousand.simps [simp del]

definition parse_utc_time :: "esp_gps \<Rightarrow> fault + esp_gps" where
  "parse_utc_time g =
     andthen (convert_two_digit2number (item_str g) 0) (\<lambda>h.
     andthen (convert_two_digit2number (item_str g) 2) (\<lambda>m.
     andthen (convert_two_digit2number (item_str g) 4) (\<lambda>s.
     andthen (rd (item_str g) 6) (\<lambda>c6.
     andthen (if c6 = CHR ''.'' then utc_thousand (item_str g) 7 0
              else Inr (thousand (tim (parent g)))) (\<lambda>th.
     Inr (g\<lparr>parent := (parent g)\<lparr>tim := \<lparr>hour = h, minute = m, second = s, thousand = th\<rparr>\<rparr>\<rparr>))))))"

definition item_char0 :: "esp_gps \<Rightarrow> fault + char" where
  "item_char0 g = rd (item_str g) 0"

text \<open>Storing into one field of \<open>parent\<close>.\<close>

definition set_parent :: "esp_gps \<Rightarrow> (fault + 'a) \<Rightarrow> ('a \<Rightarrow> gps \<Rightarrow> gps) \<Rightarrow> fault + esp_gps" where
  "set_parent g r upd = andthen r (\<lambda>v. Inr (g\<lparr>parent := upd v (parent g)\<rparr>))"

definition negate_if :: "esp_gps \<Rightarrow> char \<Rightarrow> char \<Rightarrow> c_float \<Rightarrow> (c_float \<Rightarrow> gps \<Rightarrow> gps) \<Rightarrow> fault + esp_gps" where
  "negate_if g up low v upd =
     andthen (item_char0 g) (\<lambda>c0.
     if c0 = up \<or> c0 = low then Inr (g\<lparr>parent := upd (f_mul to_f32 v (Fin (- 1))) (parent g)\<rparr>)
     else Inr g)"

definition set_latitude :: "esp_gps \<Rightarrow> fault + esp_gps" where
  "set_latitude g = set_parent g (parse_lat_long g) (\<lambda>v p. p\<lparr>latitude := v\<rparr>)"

definition set_longitude :: "esp_gps \<Rightarrow> fault + esp_gps" where
  "set_longitude g = set_parent g (parse_lat_long g) (\<lambda>v p. p\<lparr>longitude := v\<rparr>)"

definition south :: "esp_gps \<Rightarrow> fault + esp_gps" where
  "south g = negate_if g CHR ''S'' CHR ''s'' (latitude (parent g)) (\<lambda>v p. p\<lparr>latitude := v\<rparr>)"

definition west :: "esp_gps \<Rightarrow> fault + esp_gps" where
  "west g = negate_if g CHR ''W'' CHR ''w'' (longitude (parent g)) (\<lambda>v p. p\<lparr>longitude := v\<rparr>)"

definition set_valid :: "esp_gps \<Rightarrow> fault + esp_gps" where
  "set_valid g = set_parent g (item_char0 g) (\<lambda>c p. p\<lparr>gps_valid := (c = CHR ''A'')\<rparr>)"

text \<open>\<open>strtof (...) * 1.852\<close> and \<open>/ 3.6\<close>, in \<open>double\<close>, stored as \<open>float\<close>.\<close>

definition knots :: "c_float \<Rightarrow> c_float" where
  "knots v = narrow (f_mul to_f64 v (to_f64 (1852 / 1000)))"

definition kmh :: "c_float \<Rightarrow> c_float" where
  "kmh v = narrow (case to_f64 (36 / 10) of Fin k \<Rightarrow> f_div_const to_f64 v k | _ \<Rightarrow> NaN)"

section \<open>The six sentences\<close>

definition parse_gga :: "esp_gps \<Rightarrow> fault + esp_gps" where
  "parse_gga g =
     (let n = unat (item_num g) in
      if n = 1 then parse_utc_time g
      else if n = 2 then set_latitude g
      else if n = 3 then south g
      else if n = 4 then set_longitude g
      else if n = 5 then west g
      else if n = 6 then set_parent g (item_long g 10) (\<lambda>v p. p\<lparr>gps_fix := v\<rparr>)
      else if n = 7 then set_parent g (item_long g 10) (\<lambda>v p. p\<lparr>sats_in_use := word_of_int v\<rparr>)
      else if n = 8 then set_parent g (item_float g) (\<lambda>v p. p\<lparr>dop_h := v\<rparr>)
      else if n = 9 then set_parent g (item_float g) (\<lambda>v p. p\<lparr>altitude := v\<rparr>)
      else if n = 11 then set_parent g (item_float g) (\<lambda>v p. p\<lparr>altitude := f_add to_f32 (altitude p) v\<rparr>)
      else Inr g)"

definition parse_gsa :: "esp_gps \<Rightarrow> fault + esp_gps" where
  "parse_gsa g =
     (let n = unat (item_num g) in
      if n = 2 then set_parent g (item_long g 10) (\<lambda>v p. p\<lparr>fix_mode := v\<rparr>)
      else if n = 15 then set_parent g (item_float g) (\<lambda>v p. p\<lparr>dop_p := v\<rparr>)
      else if n = 16 then set_parent g (item_float g) (\<lambda>v p. p\<lparr>dop_h := v\<rparr>)
      else if n = 17 then set_parent g (item_float g) (\<lambda>v p. p\<lparr>dop_v := v\<rparr>)
      else if 3 \<le> n \<and> n \<le> 14 then
        andthen (item_long g 10) (\<lambda>v.
        andthen (wr (sats_id_in_use (parent g)) (n - 3) (word_of_int v)) (\<lambda>ids.
        Inr (g\<lparr>parent := (parent g)\<lparr>sats_id_in_use := ids\<rparr>\<rparr>)))
      else Inr g)"

definition set_satellite :: "esp_gps \<Rightarrow> nat \<Rightarrow> (gps_satellite \<Rightarrow> gps_satellite) \<Rightarrow> fault + esp_gps" where
  "set_satellite g i upd =
     andthen (rd (sats_desc_in_view (parent g)) i) (\<lambda>sat.
     andthen (wr (sats_desc_in_view (parent g)) i (upd sat)) (\<lambda>sats.
     Inr (g\<lparr>parent := (parent g)\<lparr>sats_desc_in_view := sats\<rparr>\<rparr>)))"

definition parse_gsv :: "esp_gps \<Rightarrow> fault + esp_gps" where
  "parse_gsv g =
     (let n = unat (item_num g) in
      if n = 1 then andthen (item_long g 10) (\<lambda>v. Inr (g\<lparr>sat_count := word_of_int v\<rparr>))
      else if n = 2 then andthen (item_long g 10) (\<lambda>v. Inr (g\<lparr>sat_num := word_of_int v\<rparr>))
      else if n = 3 then set_parent g (item_long g 10) (\<lambda>v p. p\<lparr>sats_in_view := word_of_int v\<rparr>)
      else if 4 \<le> n \<and> n \<le> 19 then
        (let k = n - 4;
             index = unat (word_of_int (4 * (uint (sat_num g) - 1) + int (k div 4)) :: u8)
         in if index < 16 then
              andthen (item_long g 10) (\<lambda>v.
              if k mod 4 = 0 then set_satellite g index (\<lambda>s. s\<lparr>sat_id := word_of_int v\<rparr>)
              else if k mod 4 = 1 then set_satellite g index (\<lambda>s. s\<lparr>elevation := word_of_int v\<rparr>)
              else if k mod 4 = 2 then set_satellite g index (\<lambda>s. s\<lparr>azimuth := word_of_int v\<rparr>)
              else set_satellite g index (\<lambda>s. s\<lparr>snr := word_of_int v\<rparr>))
            else Inr g)
      else Inr g)"

definition parse_rmc :: "esp_gps \<Rightarrow> fault + esp_gps" where
  "parse_rmc g =
     (let n = unat (item_num g) in
      if n = 1 then parse_utc_time g
      else if n = 2 then set_valid g
      else if n = 3 then set_latitude g
      else if n = 4 then south g
      else if n = 5 then set_longitude g
      else if n = 6 then west g
      else if n = 7 then set_parent g (item_float g) (\<lambda>v p. p\<lparr>speed := knots v\<rparr>)
      else if n = 8 then set_parent g (item_float g) (\<lambda>v p. p\<lparr>cog := v\<rparr>)
      else if n = 9 then
        andthen (convert_two_digit2number (item_str g) 0) (\<lambda>d.
        andthen (convert_two_digit2number (item_str g) 2) (\<lambda>m.
        andthen (convert_two_digit2number (item_str g) 4) (\<lambda>y.
        Inr (g\<lparr>parent := (parent g)\<lparr>gps_date := \<lparr>day = d, month = m, year = ucast y\<rparr>\<rparr>\<rparr>))))
      else if n = 10 then set_parent g (item_float g) (\<lambda>v p. p\<lparr>variation := v\<rparr>)
      else Inr g)"

definition parse_gll :: "esp_gps \<Rightarrow> fault + esp_gps" where
  "parse_gll g =
     (let n = unat (item_num g) in
      if n = 1 then set_latitude g
      else if n = 2 then south g
      else if n = 3 then set_longitude g
      else if n = 4 then west g
      else if n = 5 then parse_utc_time g
      else if n = 6 then set_valid g
      else Inr g)"

definition parse_vtg :: "esp_gps \<Rightarrow> fault + esp_gps" where
  "parse_vtg g =
     (let n = unat (item_num g) in
      if n = 1 then set_parent g (item_float g) (\<lambda>v p. p\<lparr>cog := v\<rparr>)
      else if n = 3 then set_parent g (item_float g) (\<lambda>v p. p\<lparr>variation := v\<rparr>)
      else if n = 5 then set_parent g (item_float g) (\<lambda>v p. p\<lparr>speed := knots v\<rparr>)
      else if n = 7 then set_parent g (item_float g) (\<lambda>v p. p\<lparr>speed := kmh v\<rparr>)
      else Inr g)"

definition parse_item :: "esp_gps \<Rightarrow> fault + esp_gps" where
  "parse_item g =
     andthen (item_char0 g) (\<lambda>c0.
     if item_num g = 0 \<and> c0 = CHR ''$'' then
       andthen (cstr (item_str g)) (\<lambda>s.
       Inr (g\<lparr>cur_statement :=
         (if strstr_found s ''GGA'' then STATEMENT_GGA
          else if strstr_found s ''GSA'' then STATEMENT_GSA
          else if strstr_found s ''RMC'' then STATEMENT_RMC
          else if strstr_found s ''GSV'' then STATEMENT_GSV
          else if strstr_found s ''GLL'' then STATEMENT_GLL
          else if strstr_found s ''VTG'' then STATEMENT_VTG
          else STATEMENT_UNKNOWN)\<rparr>))
     else if cur_statement g = STATEMENT_UNKNOWN then Inr g
     else if cur_statement g = STATEMENT_GGA then parse_gga g
     else if cur_statement g = STATEMENT_GSA then parse_gsa g
     else if cur_statement g = STATEMENT_GSV then parse_gsv g
     else if cur_statement g = STATEMENT_RMC then parse_rmc g
     else if cur_statement g = STATEMENT_GLL then parse_gll g
     else if cur_statement g = STATEMENT_VTG then parse_vtg g
     else Inr g)"

section \<open>Characters\<close>

text \<open>\<open>item_str[item_pos++] = c; item_str[item_pos] = '\0'\<close>\<close>

definition add_char :: "esp_gps \<Rightarrow> char \<Rightarrow> fault + esp_gps" where
  "add_char g c =
     andthen (wr (item_str g) (unat (item_pos g)) c) (\<lambda>s1.
     andthen (wr s1 (unat (item_pos g + 1)) NUL) (\<lambda>s2.
     Inr (g\<lparr>item_str := s2, item_pos := item_pos g + 1\<rparr>)))"

text \<open>\<open>item_pos = 0; item_str[0] = '\0'; item_num++\<close>\<close>

definition next_item :: "esp_gps \<Rightarrow> fault + esp_gps" where
  "next_item g =
     andthen (wr (item_str g) 0 NUL) (\<lambda>s.
     Inr (g\<lparr>item_pos := 0, item_str := s, item_num := item_num g + 1\<rparr>))"

definition mark_statement :: "esp_gps \<Rightarrow> esp_gps" where
  "mark_statement g =
     (let st = cur_statement g in
      if st = STATEMENT_GSV \<and> sat_num g \<noteq> sat_count g then g
      else if st \<in> {STATEMENT_GGA, STATEMENT_GSA, STATEMENT_RMC, STATEMENT_GSV, STATEMENT_GLL, STATEMENT_VTG}
      then g\<lparr>parsed_statement := parsed_statement g OR push_bit (unat st) 1\<rparr>
      else g)"

definition end_of_statement :: "esp_gps \<Rightarrow> fault + esp_gps" where
  "end_of_statement g =
     andthen (item_long g 16) (\<lambda>v.
     if crc g = word_of_int v then
       (let g1 = mark_statement g in
        if ucast (parsed_statement g1) AND all_statements g1 = all_statements g1
        then Inr (g1\<lparr>parsed_statement := 0, gps_info := parent g1\<rparr>) else Inr g1)
     else Inr g)"

definition gps_char :: "esp_gps \<Rightarrow> char \<Rightarrow> fault + esp_gps" where
  "gps_char g c =
     (if c = CHR ''$'' then
        add_char (g\<lparr>asterisk := 0, item_num := 0, item_pos := 0, cur_statement := 0, crc := 0,
                    sat_count := 0, sat_num := 0\<rparr>) c
      else if c = CHR '','' then
        andthen (parse_item g) (\<lambda>g1. next_item (g1\<lparr>crc := crc g1 XOR of_char c\<rparr>))
      else if c = CHR ''*'' then
        andthen (parse_item g) (\<lambda>g1. next_item (g1\<lparr>asterisk := 1\<rparr>))
      else if c = CHR 0x0D then end_of_statement g
      else add_char (if asterisk g = 0 then g\<lparr>crc := crc g XOR of_char c\<rparr> else g) c)"

text \<open>\<open>while (*d)\<close> over the buffer.\<close>

fun gps_decode :: "esp_gps \<Rightarrow> string \<Rightarrow> fault + esp_gps" where
  "gps_decode g [] = Inl Out_Of_Bounds"
| "gps_decode g (c # d) = (if c = NUL then Inr g else andthen (gps_char g c) (\<lambda>g1. gps_decode g1 d))"

section \<open>Well-formed parser states\<close>

definition parent_wf :: "gps \<Rightarrow> bool" where
  "parent_wf p \<longleftrightarrow> length (sats_id_in_use p) = 12 \<and> length (sats_desc_in_view p) = 16"

definition gps_wf :: "esp_gps \<Rightarrow> bool" where
  "gps_wf g \<longleftrightarrow> length (item_str g) = 16 \<and> item_str g ! 15 = NUL \<and> unat (item_pos g) \<le> 15
     \<and> item_str g ! unat (item_pos g) = NUL \<and> parent_wf (parent g)"

text \<open>What handing over an item may change: the collected data, and the fields that belong to
  the current sentence.\<close>

definition frame :: "esp_gps \<Rightarrow> esp_gps \<Rightarrow> bool" where
  "frame g g' \<longleftrightarrow> item_str g' = item_str g \<and> item_pos g' = item_pos g \<and> item_num g' = item_num g
     \<and> asterisk g' = asterisk g \<and> crc g' = crc g \<and> parsed_statement g' = parsed_statement g
     \<and> all_statements g' = all_statements g \<and> gps_info g' = gps_info g \<and> parent_wf (parent g')"

definition safe_step :: "esp_gps \<Rightarrow> fault + esp_gps \<Rightarrow> bool" where
  "safe_step g r \<longleftrightarrow> (case r of Inl e \<Rightarrow> e = Float_Range | Inr g' \<Rightarrow> frame g g')"

lemma wf_frame: "gps_wf g \<Longrightarrow> frame g g' \<Longrightarrow> gps_wf g'"
  by (simp add: gps_wf_def frame_def)

lemma safe_self [simp]: "gps_wf g \<Longrightarrow> safe_step g (Inr g)"
  by (simp add: safe_step_def frame_def gps_wf_def)

lemma nul_in_item: "gps_wf g \<Longrightarrow> NUL \<in> set (item_str g)"
  using nth_mem [of 15 "item_str g"] by (simp add: gps_wf_def)

lemma item_reads [simp]:
  assumes "gps_wf g"
  shows "item_float g = Inr (strtof (upto_nul (item_str g)))"
    and "item_long g b = Inr (strtol (upto_nul (item_str g)) b)"
    and "item_char0 g = Inr (item_str g ! 0)"
  using assms nul_in_item [OF assms]
  by (simp_all add: item_float_def item_long_def item_char0_def cstr_def gps_wf_def)

lemma utc_thousand_ends:
  assumes "length s = 16" "s ! 15 = NUL"
  shows "i \<le> 15 \<Longrightarrow> \<exists>t. utc_thousand s i tmp = Inr t"
proof (induction "15 - i" arbitrary: i tmp)
  case 0
  then have "i = 15" by simp
  then show ?case using assms by (simp add: utc_thousand.simps [of s 15])
next
  case (Suc n)
  then have "n = 15 - (i + 1)" "i + 1 \<le> 15" by auto
  from Suc.hyps(1) [OF this] Suc.prems assms show ?case
    by (cases "s ! i = NUL") (simp_all add: utc_thousand.simps [of s i])
qed

lemma two_digits_ok [simp]:
  "length s = 16 \<Longrightarrow> off < 15 \<Longrightarrow>
    convert_two_digit2number s off = Inr (word_of_int (10 * (of_char (s ! off) - 48) + (of_char (s ! (off + 1)) - 48)))"
  by (simp add: convert_two_digit2number_def)

lemma safe_set_parent:
  assumes "gps_wf g" "\<And>e. r = Inl e \<Longrightarrow> e = Float_Range"
    and "\<And>v p. parent_wf p \<Longrightarrow> parent_wf (upd v p)"
  shows "safe_step g (set_parent g r upd)"
  using assms by (cases r) (auto simp: set_parent_def safe_step_def frame_def gps_wf_def)

lemma lat_long_fault:
  assumes "gps_wf g" "parse_lat_long g = Inl e"
  shows "e = Float_Range"
  using assms by (auto simp: parse_lat_long_def andthen_eq_Inl Let_def f_to_i32_def
      elim!: f_to_int.elims split: if_splits)

lemma safe_negate:
  assumes "gps_wf g" "\<And>v p. parent_wf p \<Longrightarrow> parent_wf (upd v p)"
  shows "safe_step g (negate_if g up low v upd)"
  using assms by (auto simp: negate_if_def safe_step_def frame_def gps_wf_def)

lemma safe_fields:
  assumes "gps_wf g"
  shows "safe_step g (set_latitude g)" "safe_step g (set_longitude g)" "safe_step g (south g)"
    "safe_step g (west g)" "safe_step g (set_valid g)"
  unfolding set_latitude_def set_longitude_def south_def west_def set_valid_def
  using assms lat_long_fault [OF assms]
  by (auto intro!: safe_set_parent safe_negate simp: parent_wf_def)

lemma safe_utc:
  assumes "gps_wf g"
  shows "safe_step g (parse_utc_time g)"
proof -
  obtain t where "utc_thousand (item_str g) 7 0 = Inr t"
    using utc_thousand_ends [of "item_str g" 7 0] assms by (auto simp: gps_wf_def)
  then show ?thesis using assms
    by (auto simp: parse_utc_time_def safe_step_def frame_def gps_wf_def parent_wf_def)
qed

lemma safe_float:
  "gps_wf g \<Longrightarrow> (\<And>v p. parent_wf p \<Longrightarrow> parent_wf (upd v p)) \<Longrightarrow> safe_step g (set_parent g (item_float g) upd)"
  "gps_wf g \<Longrightarrow> (\<And>v p. parent_wf p \<Longrightarrow> parent_wf (upd' v p)) \<Longrightarrow> safe_step g (set_parent g (item_long g b) upd')"
  by (auto intro!: safe_set_parent)

lemma safe_gga: "gps_wf g \<Longrightarrow> safe_step g (parse_gga g)"
  unfolding parse_gga_def Let_def
  by (auto simp: safe_fields safe_utc parent_wf_def simp del: item_reads intro!: safe_float)

lemma safe_gsa: "gps_wf g \<Longrightarrow> safe_step g (parse_gsa g)"
proof -
  assume wf: "gps_wf g"
  have "safe_step g (andthen (item_long g 10) (\<lambda>v.
        andthen (wr (sats_id_in_use (parent g)) (unat (item_num g) - 3) (word_of_int v)) (\<lambda>ids.
        Inr (g\<lparr>parent := (parent g)\<lparr>sats_id_in_use := ids\<rparr>\<rparr>))))" if "unat (item_num g) \<le> 14"
    using wf that by (auto simp: safe_step_def frame_def gps_wf_def parent_wf_def item_long_def cstr_def
        nul_in_item wr_def)
  then show ?thesis using wf unfolding parse_gsa_def Let_def
    by (auto simp: parent_wf_def simp del: item_reads intro!: safe_float)
qed

lemma safe_satellite:
  assumes "gps_wf g" "i < 16"
  shows "safe_step g (set_satellite g i upd)"
  using assms by (auto simp: set_satellite_def safe_step_def frame_def gps_wf_def parent_wf_def)

lemma safe_gsv: "gps_wf g \<Longrightarrow> safe_step g (parse_gsv g)"
  unfolding parse_gsv_def Let_def
  by (auto simp: set_parent_def safe_satellite) (auto simp: safe_step_def frame_def gps_wf_def parent_wf_def)

lemma safe_rmc: "gps_wf g \<Longrightarrow> safe_step g (parse_rmc g)"
proof -
  assume wf: "gps_wf g"
  have "safe_step g (andthen (convert_two_digit2number (item_str g) 0) (\<lambda>d.
        andthen (convert_two_digit2number (item_str g) 2) (\<lambda>m.
        andthen (convert_two_digit2number (item_str g) 4) (\<lambda>y.
        Inr (g\<lparr>parent := (parent g)\<lparr>gps_date := \<lparr>day = d, month = m, year = ucast y\<rparr>\<rparr>\<rparr>)))))"
    using wf by (auto simp: safe_step_def frame_def gps_wf_def parent_wf_def)
  then show ?thesis using wf unfolding parse_rmc_def Let_def
    by (auto simp: safe_fields safe_utc parent_wf_def simp del: item_reads intro!: safe_float)
qed

lemma safe_gll: "gps_wf g \<Longrightarrow> safe_step g (parse_gll g)"
  unfolding parse_gll_def Let_def by (auto simp: safe_fields safe_utc)

lemma safe_vtg: "gps_wf g \<Longrightarrow> safe_step g (parse_vtg g)"
  unfolding parse_vtg_def Let_def
  by (auto simp: parent_wf_def simp del: item_reads intro!: safe_float)

lemma parse_item_safe: "gps_wf g \<Longrightarrow> safe_step g (parse_item g)"
proof -
  assume wf: "gps_wf g"
  have "safe_step g (Inr (g\<lparr>cur_statement := v\<rparr>))" for v
    using wf by (auto simp: safe_step_def frame_def gps_wf_def)
  then show ?thesis
    using wf safe_gga [OF wf] safe_gsa [OF wf] safe_gsv [OF wf] safe_rmc [OF wf] safe_gll [OF wf]
      safe_vtg [OF wf] nul_in_item [OF wf]
    unfolding parse_item_def by (simp add: cstr_def)
qed

section \<open>One character\<close>

text \<open>The position in the item after a character; \<open>None\<close> when the item array is full.\<close>

definition next_pos :: "nat \<Rightarrow> char \<Rightarrow> nat option" where
  "next_pos p c =
     (if c = CHR ''$'' then Some 1
      else if c = CHR '','' \<or> c = CHR ''*'' then Some 0
      else if c = CHR 0x0D then Some p
      else if p < 15 then Some (p + 1) else None)"

fun fits :: "nat \<Rightarrow> string \<Rightarrow> bool" where
  "fits p [] = True"
| "fits p (c # cs) = (case next_pos p c of None \<Rightarrow> False | Some q \<Rightarrow> fits q cs)"

lemma add_char_room:
  assumes "length (item_str g) = 16" "unat (item_pos g) < 15" "item_str g ! 15 = NUL" "parent_wf (parent g)"
  shows "add_char g c = Inr (g\<lparr>item_str := (item_str g)[unat (item_pos g) := c, unat (item_pos g) + 1 := NUL],
      item_pos := item_pos g + 1\<rparr>)"
    and "unat (item_pos g + 1) = unat (item_pos g) + 1"
    and "\<exists>g'. add_char g c = Inr g' \<and> gps_wf g' \<and> unat (item_pos g') = unat (item_pos g) + 1
          \<and> gps_info g' = gps_info g \<and> parsed_statement g' = parsed_statement g
          \<and> all_statements g' = all_statements g"
proof -
  show pos: "unat (item_pos g + 1) = unat (item_pos g) + 1"
    using unat_inc_small [of "item_pos g"] assms(2) by simp
  show eq: "add_char g c = Inr (g\<lparr>item_str := (item_str g)[unat (item_pos g) := c, unat (item_pos g) + 1 := NUL],
      item_pos := item_pos g + 1\<rparr>)"
    using assms pos by (simp add: add_char_def)
  show "\<exists>g'. add_char g c = Inr g' \<and> gps_wf g' \<and> unat (item_pos g') = unat (item_pos g) + 1
          \<and> gps_info g' = gps_info g \<and> parsed_statement g' = parsed_statement g
          \<and> all_statements g' = all_statements g"
    unfolding eq using assms pos by (auto simp: gps_wf_def nth_list_update)
qed

lemma add_char_full:
  assumes "gps_wf g" "unat (item_pos g) = 15"
  shows "add_char g c = Inl Out_Of_Bounds"
proof -
  have "unat (item_pos g + 1) = 16" using unat_inc_small [of "item_pos g"] assms(2) by simp
  then show ?thesis using assms by (simp add: add_char_def gps_wf_def)
qed

lemma next_item_ok:
  assumes "gps_wf g"
  shows "\<exists>g'. next_item g = Inr g' \<and> gps_wf g' \<and> unat (item_pos g') = 0 \<and> gps_info g' = gps_info g
    \<and> parsed_statement g' = parsed_statement g \<and> all_statements g' = all_statements g"
  using assms by (auto simp: next_item_def gps_wf_def nth_list_update)

lemma wf_crc: "gps_wf (g\<lparr>crc := v\<rparr>) = gps_wf g" "gps_wf (g\<lparr>asterisk := w\<rparr>) = gps_wf g"
  by (simp_all add: gps_wf_def)

lemma end_of_statement_ok:
  assumes "gps_wf g"
  shows "\<exists>g'. end_of_statement g = Inr g' \<and> gps_wf g' \<and> item_pos g' = item_pos g
    \<and> all_statements g' = all_statements g"
  using assms by (auto simp: end_of_statement_def mark_statement_def Let_def gps_wf_def)

text \<open>A separator hands over the item and starts the next one.\<close>

lemma separator_cases:
  assumes "gps_wf g" and "\<And>g1. gps_wf g1 \<Longrightarrow> gps_wf (upd g1)"
  shows "andthen (parse_item g) (\<lambda>g1. next_item (upd g1)) = Inl Float_Range
    \<or> (\<exists>g1 g'. parse_item g = Inr g1 \<and> frame g g1 \<and> next_item (upd g1) = Inr g' \<and> gps_wf g'
        \<and> unat (item_pos g') = 0 \<and> gps_info g' = gps_info (upd g1)
        \<and> parsed_statement g' = parsed_statement (upd g1) \<and> all_statements g' = all_statements (upd g1))"
proof (cases "parse_item g")
  case (Inl e)
  then show ?thesis using parse_item_safe [OF assms(1)] by (simp add: safe_step_def)
next
  case (Inr g1)
  then have f: "frame g g1" using parse_item_safe [OF assms(1)] by (simp add: safe_step_def)
  then have "gps_wf (upd g1)" using wf_frame [OF assms(1)] assms(2) by blast
  from next_item_ok [OF this] Inr f show ?thesis by auto
qed

lemma gps_char_cases:
  assumes "gps_wf g"
  shows "(next_pos (unat (item_pos g)) c = None \<and> gps_char g c = Inl Out_Of_Bounds)
    \<or> (\<exists>q. next_pos (unat (item_pos g)) c = Some q \<and>
        (gps_char g c = Inl Float_Range
         \<or> (\<exists>g'. gps_char g c = Inr g' \<and> gps_wf g' \<and> unat (item_pos g') = q
              \<and> all_statements g' = all_statements g
              \<and> (c \<noteq> CHR 0x0D \<longrightarrow> gps_info g' = gps_info g \<and> parsed_statement g' = parsed_statement g))))"
proof -
  consider "c = CHR ''$''" | "c = CHR '',''" | "c = CHR ''*''" | "c = CHR 0x0D"
    | "c \<notin> {CHR ''$'', CHR '','', CHR ''*'', CHR 0x0D}" by blast
  then show ?thesis
  proof cases
    case 1
    let ?g = "g\<lparr>asterisk := 0, item_num := 0, item_pos := 0, cur_statement := 0, crc := 0,
      sat_count := 0, sat_num := 0\<rparr>"
    show ?thesis using add_char_room(3) [of ?g c] assms 1
      by (auto simp: gps_char_def next_pos_def gps_wf_def)
  next
    case 2
    then show ?thesis
      using separator_cases [OF assms, of "\<lambda>g1. g1\<lparr>crc := crc g1 XOR of_char c\<rparr>"]
      by (auto simp: gps_char_def next_pos_def wf_crc frame_def)
  next
    case 3
    then show ?thesis
      using separator_cases [OF assms, of "\<lambda>g1. g1\<lparr>asterisk := 1\<rparr>"]
      by (auto simp: gps_char_def next_pos_def wf_crc frame_def)
  next
    case 4
    then show ?thesis using end_of_statement_ok [OF assms] by (auto simp: gps_char_def next_pos_def)
  next
    case 5
    let ?g = "if asterisk g = 0 then g\<lparr>crc := crc g XOR of_char c\<rparr> else g"
    have wf: "gps_wf ?g" and pos: "item_pos ?g = item_pos g" using assms by (simp_all add: wf_crc)
    show ?thesis
    proof (cases "unat (item_pos g) < 15")
      case True
      have "\<exists>g'. add_char ?g c = Inr g' \<and> gps_wf g' \<and> unat (item_pos g') = unat (item_pos ?g) + 1
          \<and> gps_info g' = gps_info ?g \<and> parsed_statement g' = parsed_statement ?g
          \<and> all_statements g' = all_statements ?g"
        by (rule add_char_room(3)) (use wf pos True in \<open>simp_all add: gps_wf_def\<close>)
      then show ?thesis using 5 True by (auto simp: gps_char_def next_pos_def)
    next
      case False
      then have "unat (item_pos ?g) = 15" using assms pos by (simp add: gps_wf_def)
      then have "add_char ?g c = Inl Out_Of_Bounds" by (rule add_char_full [OF wf])
      then show ?thesis using 5 False by (auto simp: gps_char_def next_pos_def)
    qed
  qed
qed

section \<open>A line\<close>

lemma decode_fits:
  "gps_wf g \<Longrightarrow> NUL \<notin> set line \<Longrightarrow> fits (unat (item_pos g)) line \<Longrightarrow>
    gps_decode g (line @ [NUL]) = Inl Float_Range
    \<or> (\<exists>g'. gps_decode g (line @ [NUL]) = Inr g' \<and> gps_wf g')"
proof (induction line arbitrary: g)
  case Nil
  then show ?case by simp
next
  case (Cons c line)
  from gps_char_cases [OF Cons.prems(1), of c] Cons.prems(3)
  consider "gps_char g c = Inl Float_Range"
    | g' where "gps_char g c = Inr g'" "gps_wf g'" "fits (unat (item_pos g')) line"
    by (auto split: option.splits)
  then show ?case using Cons.IH Cons.prems(2) by cases auto
qed

lemma decode_overflows:
  "gps_wf g \<Longrightarrow> NUL \<notin> set line \<Longrightarrow> \<not> fits (unat (item_pos g)) line \<Longrightarrow>
    \<exists>e. gps_decode g (line @ [NUL]) = Inl e \<and> (e = Out_Of_Bounds \<or> e = Float_Range)"
proof (induction line arbitrary: g)
  case Nil
  then show ?case by simp
next
  case (Cons c line)
  from gps_char_cases [OF Cons.prems(1), of c] Cons.prems(3)
  consider "gps_char g c = Inl Out_Of_Bounds" | "gps_char g c = Inl Float_Range"
    | g' where "gps_char g c = Inr g'" "gps_wf g'" "\<not> fits (unat (item_pos g')) line"
    by (auto split: option.splits)
  then show ?case using Cons.IH Cons.prems(2) by cases auto
qed

lemma initial_wf: "gps_wf initial_gps"
  by (simp add: gps_wf_def initial_gps_def zero_gps_def parent_wf_def numeral_eq_Suc)

section \<open>Properties\<close>

text \<open>C11: Decoding a line stays inside the parser's arrays exactly when no item has more than
  15 characters: then it ends in a well-formed state (or meets a coordinate that is out of
  the range of \<open>int\<close>), otherwise it always ends in a fault.\<close>

theorem decode_memory_safe_iff:
  assumes "gps_wf g" and "NUL \<notin> set line"
  shows "(fits (unat (item_pos g)) line \<longrightarrow> gps_decode g (line @ [NUL]) = Inl Float_Range
      \<or> (\<exists>g'. gps_decode g (line @ [NUL]) = Inr g' \<and> gps_wf g'))
    \<and> (\<not> fits (unat (item_pos g)) line \<longrightarrow> (\<exists>e. gps_decode g (line @ [NUL]) = Inl e))"
  using decode_fits [OF assms] decode_overflows [OF assms] by blast

theorem decode_memory_safe_iff_witness:
  "\<exists>e. gps_decode initial_gps (''$GPTXT,0123456789abcdef,'' @ [NUL]) = Inl e"
  using decode_memory_safe_iff [OF initial_wf, of "''$GPTXT,0123456789abcdef,''"]
  by (simp add: next_pos_def initial_gps_def)

section \<open>When data is published\<close>

definition kinds_seen :: "esp_gps \<Rightarrow> nat" where
  "kinds_seen g = card {i. bit (parsed_statement g) i}"

lemma finite_bits: "finite {i. bit (w :: u8) i}"
  by (rule finite_subset [of _ "{..<8}"]) (auto dest: bit_imp_le_length)

lemma kinds_seen_mark: "kinds_seen (mark_statement g) \<le> kinds_seen g + 1"
proof -
  have "{i. bit (parsed_statement g OR push_bit k 1) i} \<subseteq> insert k {i. bit (parsed_statement g) i}" for k
    by (auto simp: bit_simps)
  then have "card {i. bit (parsed_statement g OR push_bit k 1) i}
      \<le> card (insert k {i. bit (parsed_statement g) i})" for k
    by (intro card_mono) (auto simp: finite_bits)
  then have or: "card {i. bit (parsed_statement g OR push_bit k 1) i} \<le> kinds_seen g + 1" for k
    using card_insert_le_m1 [of 1] finite_bits [of "parsed_statement g"]
    by (metis (no_types, lifting) Suc_eq_plus1 card_insert_if kinds_seen_def le_Suc_eq le_trans)
  show ?thesis
    unfolding mark_statement_def Let_def
    using or by (auto simp: kinds_seen_def)
qed

lemma all_kinds:
  assumes "ucast (parsed_statement g) AND (0x7E :: u32) = 0x7E"
  shows "6 \<le> kinds_seen g"
proof -
  have b: "bit (0x7E :: u32) i" if "i \<in> {1, 2, 3, 4, 5, 6}" for i
    using that by (elim insertE emptyE) (simp_all add: bit_numeral_rec)
  have "{1, 2, 3, 4, 5, 6} \<subseteq> {i. bit (parsed_statement g) i}"
  proof
    fix i :: nat assume i: "i \<in> {1, 2, 3, 4, 5, 6}"
    have "bit (ucast (parsed_statement g) AND (0x7E :: u32)) i" unfolding assms by (rule b [OF i])
    then show "i \<in> {i. bit (parsed_statement g) i}" by (simp add: bit_and_iff bit_unsigned_iff)
  qed
  then have "card {1, 2, 3, 4, 5, 6 :: nat} \<le> kinds_seen g"
    unfolding kinds_seen_def by (intro card_mono finite_bits)
  then show ?thesis by simp
qed

lemma end_of_statement_publishes:
  assumes "gps_wf g" "all_statements g = 0x7E" "end_of_statement g = Inr g'" "kinds_seen g < 5"
  shows "gps_info g' = gps_info g \<and> kinds_seen g' \<le> kinds_seen g + 1"
proof -
  let ?m = "mark_statement g"
  have m: "gps_info ?m = gps_info g" "all_statements ?m = 0x7E"
    using assms(2) by (simp_all add: mark_statement_def Let_def)
  have "\<not> ucast (parsed_statement ?m) AND (0x7E :: u32) = 0x7E"
    using all_kinds [of ?m] kinds_seen_mark [of g] assms(4) by linarith
  then have "g' = ?m \<or> g' = g"
    using assms(1,3) m by (auto simp: end_of_statement_def Let_def split: if_splits)
  then show ?thesis using m kinds_seen_mark [of g] by auto
qed

lemma decode_unpublished:
  "gps_wf g \<Longrightarrow> all_statements g = 0x7E \<Longrightarrow> gps_decode g line = Inr g' \<Longrightarrow>
    kinds_seen g + length (filter (\<lambda>c. c = CHR 0x0D) line) < 6 \<Longrightarrow> gps_info g' = gps_info g"
proof (induction line arbitrary: g)
  case Nil
  then show ?case by simp
next
  case (Cons c line)
  show ?case
  proof (cases "c = NUL")
    case True
    then show ?thesis using Cons.prems(3) by simp
  next
    case False
    then obtain g1 where g1: "gps_char g c = Inr g1" "gps_decode g1 line = Inr g'"
      using Cons.prems(3) by (auto simp: andthen_eq_Inr)
    with gps_char_cases [OF Cons.prems(1), of c] have w: "gps_wf g1" "all_statements g1 = 0x7E"
      and other: "c \<noteq> CHR 0x0D \<longrightarrow> gps_info g1 = gps_info g \<and> parsed_statement g1 = parsed_statement g"
      using Cons.prems(2) by auto
    have "gps_info g1 = gps_info g \<and> kinds_seen g1 + length (filter (\<lambda>c. c = CHR 0x0D) line) < 6"
    proof (cases "c = CHR 0x0D")
      case True
      then have "end_of_statement g = Inr g1" using g1(1) by (simp add: gps_char_def)
      then show ?thesis
        using end_of_statement_publishes [OF Cons.prems(1,2)] Cons.prems(4) True by auto
    next
      case False
      then show ?thesis using other Cons.prems(4) by (simp add: kinds_seen_def)
    qed
    then show ?thesis using Cons.IH [OF w g1(2)] by simp
  qed
qed

text \<open>Starting from no sentence seen, fewer than six ends of line cannot publish a
  position: what the rest of the firmware reads stays as it was.\<close>

lemma publication_needs_six_lines:
  assumes "gps_wf g" and "all_statements g = 0x7E" and "parsed_statement g = 0"
    and "gps_decode g line = Inr g'" and "length (filter (\<lambda>c. c = CHR 0x0D) line) < 6"
  shows "gps_info g' = gps_info g"
  by (rule decode_unpublished [OF assms(1,2,4)]) (use assms(3,5) in \<open>simp add: kinds_seen_def\<close>)

end
