(* ===== verification/Nmea_Sentences.thy ===== *)
theory Nmea_Sentences
  imports Nmea_Parser
begin

text \<open>
  Whole sentences and coordinates for the parser of \<open>Nmea_Parser\<close>: decoding the characters
  of a sentence is running its items one after the other (\<open>run_items\<close>, over \<open>load\<close>, which
  puts a whole item into the array) and then comparing the checksum; and the value
  \<open>parse_lat_long\<close> computes in single precision is the coordinate, up to its rounding.
\<close>

section \<open>A sentence\<close>

definition plain :: "char \<Rightarrow> bool" where
  "plain c \<longleftrightarrow> c \<noteq> NUL \<and> c \<noteq> CHR ''$'' \<and> c \<noteq> CHR '','' \<and> c \<noteq> CHR ''*'' \<and> c \<noteq> CHR 0x0D"

definition xor_chars :: "u8 \<Rightarrow> string \<Rightarrow> u8" where
  "xor_chars = foldl (\<lambda>x c. x XOR of_char c)"

text \<open>The state after the plain characters \<open>s\<close>.\<close>

definition load :: "esp_gps \<Rightarrow> string \<Rightarrow> esp_gps" where
  "load g s =
     (let p = unat (item_pos g) in
      g\<lparr>item_str := take p (item_str g) @ s @ NUL # drop (p + length s + 1) (item_str g),
        item_pos := of_nat (p + length s),
        crc := (if asterisk g = 0 then xor_chars (crc g) s else crc g)\<rparr>)"

lemma unat_of_nat_u8: "n < 256 \<Longrightarrow> unat (of_nat n :: u8) = n"
  by (simp add: unat_of_nat)

lemma load_Nil: "gps_wf g \<Longrightarrow> load g [] = g"
  using id_take_nth_drop [of "unat (item_pos g)" "item_str g"]
  by (simp add: load_def Let_def gps_wf_def xor_chars_def)

lemma load_char:
  assumes "gps_wf g" "plain c" "unat (item_pos g) < 15"
  shows "gps_char g c = Inr (load g [c])"
proof -
  let ?p = "unat (item_pos g)" and ?it = "item_str g"
  let ?g = "if asterisk g = 0 then g\<lparr>crc := crc g XOR of_char c\<rparr> else g"
  have len: "length ?it = 16" using assms(1) by (simp add: gps_wf_def)
  have "?it[?p := c] = take ?p ?it @ c # drop (Suc ?p) ?it"
    using len assms(3) by (intro upd_conv_take_nth_drop) simp
  moreover have "drop (Suc ?p) ?it = ?it ! Suc ?p # drop (Suc (Suc ?p)) ?it"
    using len assms(3) by (simp add: Cons_nth_drop_Suc)
  ultimately have upd: "?it[?p := c, Suc ?p := NUL] = take ?p ?it @ c # NUL # drop (Suc (Suc ?p)) ?it"
    using len assms(3) by (simp add: list_update_append min_def)
  have "add_char ?g c = Inr (?g\<lparr>item_str := (item_str ?g)[unat (item_pos ?g) := c, unat (item_pos ?g) + 1 := NUL],
      item_pos := item_pos ?g + 1\<rparr>)"
    by (rule add_char_room(1)) (use assms in \<open>auto simp: gps_wf_def\<close>)
  moreover have "gps_char g c = add_char ?g c" using assms(2) by (simp add: gps_char_def plain_def)
  moreover have "(of_nat (Suc ?p) :: u8) = item_pos g + 1" by simp
  ultimately show ?thesis using upd by (simp add: load_def Let_def xor_chars_def)
qed

lemma load_load:
  assumes "gps_wf g" "unat (item_pos g) + Suc (length s) \<le> 15"
  shows "load (load g [c]) s = load g (c # s)"
proof -
  let ?p = "unat (item_pos g)"
  have p1: "unat (item_pos (load g [c])) = Suc ?p"
    using assms(2) by (simp add: load_def Let_def unat_of_nat_u8 del: of_nat_Suc)
  have len: "length (item_str g) = 16" using assms(1) by (simp add: gps_wf_def)
  show ?thesis
    unfolding load_def [of "load g [c]" s] p1 Let_def
    using len assms(2) by (simp add: load_def Let_def min_def xor_chars_def add.commute)
qed

lemma load_wf:
  assumes "gps_wf g" "unat (item_pos g) + length s \<le> 15"
  shows "gps_wf (load g s)" and "unat (item_pos (load g s)) = unat (item_pos g) + length s"
proof -
  show p: "unat (item_pos (load g s)) = unat (item_pos g) + length s"
    using assms(2) by (simp add: load_def Let_def unat_of_nat_u8 del: of_nat_add)
  show "gps_wf (load g s)"
    unfolding gps_wf_def p using assms
    by (auto simp: load_def Let_def gps_wf_def nth_append min_def nth_Cons')
qed

lemma decode_plain:
  "gps_wf g \<Longrightarrow> \<forall>c \<in> set s. plain c \<Longrightarrow> unat (item_pos g) + length s \<le> 15 \<Longrightarrow>
    gps_decode g (s @ r) = gps_decode (load g s) r"
proof (induction s arbitrary: g)
  case Nil
  then show ?case by (simp add: load_Nil)
next
  case (Cons c s)
  have c: "plain c" "c \<noteq> NUL" using Cons.prems(2) by (simp_all add: plain_def)
  have "gps_char g c = Inr (load g [c])" using load_char [OF Cons.prems(1) c(1)] Cons.prems(3) by simp
  moreover have "gps_wf (load g [c])" "unat (item_pos (load g [c])) = unat (item_pos g) + 1"
    using load_wf [OF Cons.prems(1), of "[c]"] Cons.prems(3) by simp_all
  ultimately show ?case
    using Cons.IH [of "load g [c]"] Cons.prems c(2) load_load [OF Cons.prems(1), of s c] by simp
qed

definition sentence_start :: "esp_gps \<Rightarrow> esp_gps" where
  "sentence_start g = g\<lparr>asterisk := 0, item_num := 0, item_pos := 1, cur_statement := 0, crc := 0,
     sat_count := 0, sat_num := 0, item_str := (item_str g)[0 := CHR ''$'', 1 := NUL]\<rparr>"

lemma start_char:
  assumes "gps_wf g"
  shows "gps_char g CHR ''$'' = Inr (sentence_start g)" "gps_wf (sentence_start g)"
  using assms by (auto simp: gps_char_def add_char_def sentence_start_def gps_wf_def nth_list_update)

text \<open>The items of a sentence one after the other, the last one closed by the asterisk.\<close>

fun run_items :: "esp_gps \<Rightarrow> string \<Rightarrow> string list \<Rightarrow> fault + esp_gps" where
  "run_items g s [] =
     andthen (parse_item (load g s)) (\<lambda>g1. next_item (g1\<lparr>asterisk := 1\<rparr>))"
| "run_items g s (t # ts) =
     andthen (parse_item (load g s)) (\<lambda>g1.
     andthen (next_item (g1\<lparr>crc := crc g1 XOR of_char CHR '',''\<rparr>)) (\<lambda>g2. run_items g2 t ts))"

fun body :: "string \<Rightarrow> string list \<Rightarrow> string" where
  "body s [] = s"
| "body s (t # ts) = s @ CHR '','' # body t ts"

definition item_ok :: "string \<Rightarrow> bool" where
  "item_ok s \<longleftrightarrow> (\<forall>c \<in> set s. plain c) \<and> length s \<le> 15"

lemma next_item_wf: "gps_wf g \<Longrightarrow> next_item g = Inr g' \<Longrightarrow> gps_wf g' \<and> unat (item_pos g') = 0
    \<and> crc g' = crc g \<and> asterisk g' = asterisk g \<and> gps_info g' = gps_info g
    \<and> parsed_statement g' = parsed_statement g \<and> parent g' = parent g \<and> all_statements g' = all_statements g"
  using next_item_ok [of g] by (auto simp: next_item_def andthen_eq_Inr)

lemma parse_item_frame: "gps_wf g \<Longrightarrow> parse_item g = Inr g' \<Longrightarrow> frame g g'"
  using parse_item_safe [of g] by (simp add: safe_step_def)

lemma decode_items:
  "gps_wf g \<Longrightarrow> (\<forall>c \<in> set s. plain c) \<Longrightarrow> unat (item_pos g) + length s \<le> 15 \<Longrightarrow> \<forall>t \<in> set ts. item_ok t \<Longrightarrow>
    gps_decode g (body s ts @ CHR ''*'' # r) = andthen (run_items g s ts) (\<lambda>g1. gps_decode g1 r)"
proof (induction ts arbitrary: g s)
  case Nil
  then show ?case by (simp add: decode_plain gps_char_def andthen_assoc)
next
  case (Cons t ts)
  note wf = load_wf(1) [OF Cons.prems(1,3)]
  have "andthen (parse_item (load g s)) (\<lambda>g1.
      andthen (next_item (g1\<lparr>crc := crc g1 XOR of_char CHR '',''\<rparr>)) (\<lambda>g2. gps_decode g2 (body t ts @ CHR ''*'' # r)))
    = andthen (parse_item (load g s)) (\<lambda>g1.
      andthen (next_item (g1\<lparr>crc := crc g1 XOR of_char CHR '',''\<rparr>)) (\<lambda>g2.
      andthen (run_items g2 t ts) (\<lambda>g1. gps_decode g1 r)))"
  proof (intro andthen_cong refl)
    fix g1 g2
    assume g1: "parse_item (load g s) = Inr g1" and g2: "next_item (g1\<lparr>crc := crc g1 XOR of_char CHR '',''\<rparr>) = Inr g2"
    have "gps_wf g1" using wf_frame [OF wf parse_item_frame [OF wf g1]] .
    then have "gps_wf g2" "unat (item_pos g2) = 0"
      using next_item_wf [OF _ g2] by (simp_all add: wf_crc)
    then show "gps_decode g2 (body t ts @ CHR ''*'' # r)
        = andthen (run_items g2 t ts) (\<lambda>g1. gps_decode g1 r)"
      using Cons.IH Cons.prems(4) by (simp add: item_ok_def)
  qed
  then show ?case using Cons.prems by (simp add: decode_plain gps_char_def andthen_assoc)
qed

lemma xor_chars_append: "xor_chars x (s @ t) = xor_chars (xor_chars x s) t"
  by (simp add: xor_chars_def)

lemma run_items_effect:
  "gps_wf g \<Longrightarrow> unat (item_pos g) + length s \<le> 15 \<Longrightarrow> \<forall>t \<in> set ts. item_ok t \<Longrightarrow> asterisk g = 0 \<Longrightarrow>
    run_items g s ts = Inr g' \<Longrightarrow>
    gps_wf g' \<and> crc g' = xor_chars (crc g) (body s ts) \<and> asterisk g' = 1 \<and> unat (item_pos g') = 0
    \<and> gps_info g' = gps_info g \<and> parsed_statement g' = parsed_statement g
    \<and> all_statements g' = all_statements g"
proof (induction ts arbitrary: g s)
  case Nil
  note wf = load_wf(1) [OF Nil.prems(1,2)]
  from Nil.prems(5) obtain g1 where g1: "parse_item (load g s) = Inr g1"
      "next_item (g1\<lparr>asterisk := 1\<rparr>) = Inr g'" by (auto simp: andthen_eq_Inr)
  note f = parse_item_frame [OF wf g1(1)]
  have "gps_wf (g1\<lparr>asterisk := 1\<rparr>)" using wf_frame [OF wf f] by (simp add: wf_crc)
  from next_item_wf [OF this g1(2)] f Nil.prems(4) show ?case
    by (simp add: frame_def load_def Let_def)
next
  case (Cons t ts)
  note wf = load_wf(1) [OF Cons.prems(1,2)]
  from Cons.prems(5) obtain g1 g2 where g1: "parse_item (load g s) = Inr g1"
      "next_item (g1\<lparr>crc := crc g1 XOR of_char CHR '',''\<rparr>) = Inr g2" "run_items g2 t ts = Inr g'"
    by (auto simp: andthen_eq_Inr)
  note f = parse_item_frame [OF wf g1(1)]
  have "gps_wf (g1\<lparr>crc := crc g1 XOR of_char CHR '',''\<rparr>)" using wf_frame [OF wf f] by (simp add: wf_crc)
  note n = next_item_wf [OF this g1(2)]
  have c2: "crc g2 = xor_chars (crc g) (s @ '','')" "asterisk g2 = 0" "gps_info g2 = gps_info g"
      "parsed_statement g2 = parsed_statement g" "all_statements g2 = all_statements g"
    using n f Cons.prems(4) by (simp_all add: frame_def load_def Let_def xor_chars_def)
  have t: "unat (item_pos g2) + length t \<le> 15" "\<forall>t \<in> set ts. item_ok t"
    using n Cons.prems(3) by (simp_all add: item_ok_def)
  have "xor_chars (crc g) (body s (t # ts)) = xor_chars (crc g2) (body t ts)"
    using xor_chars_append [of "crc g" "s @ '',''" "body t ts"] by (simp add: c2(1))
  with Cons.IH [OF _ t c2(2) g1(3)] n c2 show ?case by simp
qed

definition sentence :: "string \<Rightarrow> string list \<Rightarrow> string \<Rightarrow> string" where
  "sentence s ts hh = CHR ''$'' # body s ts @ CHR ''*'' # hh @ [CHR 0x0D]"

lemma decode_sentence:
  assumes "gps_wf g" "\<forall>c \<in> set s. plain c" "length s \<le> 14" "\<forall>t \<in> set ts. item_ok t" "item_ok hh"
  shows "gps_decode g (sentence s ts hh @ r) =
    andthen (run_items (sentence_start g) s ts) (\<lambda>g1.
    andthen (end_of_statement (load g1 hh)) (\<lambda>g2. gps_decode g2 r))"
proof -
  have st: "gps_wf (sentence_start g)" "unat (item_pos (sentence_start g)) = 1" "asterisk (sentence_start g) = 0"
    using start_char [OF assms(1)] by (simp_all add: sentence_start_def)
  have len: "unat (item_pos (sentence_start g)) + length s \<le> 15" using st(2) assms(3) by simp
  have "gps_decode g (sentence s ts hh @ r)
      = gps_decode (sentence_start g) (body s ts @ CHR ''*'' # hh @ CHR 0x0D # r)"
    using start_char(1) [OF assms(1)] by (simp add: sentence_def)
  also have "\<dots> = andthen (run_items (sentence_start g) s ts) (\<lambda>g1. gps_decode g1 (hh @ CHR 0x0D # r))"
    by (rule decode_items [OF st(1) assms(2) len assms(4)])
  also have "\<dots> = andthen (run_items (sentence_start g) s ts) (\<lambda>g1.
      andthen (end_of_statement (load g1 hh)) (\<lambda>g2. gps_decode g2 r))"
  proof (intro andthen_cong refl)
    fix g1 assume "run_items (sentence_start g) s ts = Inr g1"
    from run_items_effect [OF st(1) len assms(4) st(3) this]
    show "gps_decode g1 (hh @ CHR 0x0D # r) = andthen (end_of_statement (load g1 hh)) (\<lambda>g2. gps_decode g2 r)"
      using assms(5) by (simp add: decode_plain item_ok_def gps_char_def)
  qed
  finally show ?thesis .
qed

lemma end_of_statement_cases:
  assumes "gps_wf g" "end_of_statement g = Inr g'"
  shows "parent g' = parent g
    \<and> (if crc g = word_of_int (strtol (upto_nul (item_str g)) 16)
       then (if ucast (parsed_statement (mark_statement g)) AND all_statements g = all_statements g
             then parsed_statement g' = 0 \<and> gps_info g' = parent g
             else parsed_statement g' = parsed_statement (mark_statement g) \<and> gps_info g' = gps_info g)
       else gps_info g' = gps_info g \<and> parsed_statement g' = parsed_statement g)"
proof -
  have m: "parent (mark_statement g) = parent g" "gps_info (mark_statement g) = gps_info g"
      "all_statements (mark_statement g) = all_statements g"
    by (simp_all add: mark_statement_def Let_def)
  have "Inr g' = (if crc g = word_of_int (strtol (upto_nul (item_str g)) 16)
      then (if ucast (parsed_statement (mark_statement g)) AND all_statements g = all_statements g
            then Inr ((mark_statement g)\<lparr>parsed_statement := 0, gps_info := parent g\<rparr>)
            else Inr (mark_statement g))
      else (Inr g :: fault + esp_gps))"
    using assms(2) unfolding end_of_statement_def item_reads(2) [OF assms(1)] andthen_Inr Let_def m by simp
  then show ?thesis using m by (simp split: if_splits)
qed

text \<open>C15: What a complete sentence does: its items are parsed in turn, and only when the
  exclusive or of the characters between dollar and asterisk is the number after the
  asterisk does it count towards a publication; otherwise neither the published data nor
  the set of sentences seen changes. The parsed values stay in the working copy either
  way, and are published with the next complete set.\<close>

theorem sentence_checksum:
  assumes "gps_wf g" "\<forall>c \<in> set s. plain c" "length s \<le> 14" "\<forall>t \<in> set ts. item_ok t" "item_ok hh"
    and "gps_decode g (sentence s ts hh @ [NUL]) = Inr g'"
  shows "\<exists>g1. run_items (sentence_start g) s ts = Inr g1 \<and> parent g' = parent g1
    \<and> (if xor_chars 0 (body s ts) = word_of_int (strtol hh 16)
       then (let p = parsed_statement (mark_statement g1) in
             if ucast p AND all_statements g = all_statements g
             then parsed_statement g' = 0 \<and> gps_info g' = parent g1
             else parsed_statement g' = p \<and> gps_info g' = gps_info g)
       else gps_info g' = gps_info g \<and> parsed_statement g' = parsed_statement g)"
proof -
  obtain g1 where g1: "run_items (sentence_start g) s ts = Inr g1" "end_of_statement (load g1 hh) = Inr g'"
    using assms(6) unfolding decode_sentence [OF assms(1-5)] by (auto simp: andthen_eq_Inr)
  have st: "gps_wf (sentence_start g)" "unat (item_pos (sentence_start g)) + length s \<le> 15"
      "asterisk (sentence_start g) = 0" "crc (sentence_start g) = 0"
    using start_char [OF assms(1)] assms(3) by (simp_all add: sentence_start_def)
  note eff = run_items_effect [OF st(1,2) assms(4) st(3) g1(1)]
  have wf: "gps_wf (load g1 hh)" using load_wf(1) [of g1 hh] eff assms(5) by (simp add: item_ok_def)
  have nn: "NUL \<notin> set hh" using assms(5) by (auto simp: item_ok_def plain_def)
  have l: "crc (load g1 hh) = xor_chars 0 (body s ts)" "parent (load g1 hh) = parent g1"
      "gps_info (load g1 hh) = gps_info g" "parsed_statement (load g1 hh) = parsed_statement g"
      "parsed_statement (mark_statement (load g1 hh)) = parsed_statement (mark_statement g1)"
      "upto_nul (item_str (load g1 hh)) = hh" "all_statements (load g1 hh) = all_statements g"
    using eff st(4) nn
    by (simp_all add: load_def Let_def sentence_start_def mark_statement_def)
  show ?thesis
    using end_of_statement_cases [OF wf g1(2)] g1(1) unfolding l Let_def by blast
qed

theorem sentence_checksum_witness:
  "\<exists>g'. gps_decode initial_gps (sentence [] [] ''1'' @ [NUL]) = Inr g' \<and> gps_info g' = zero_gps"
proof -
  have "fits (unat (item_pos initial_gps)) (sentence [] [] ''1'')"
    by (simp add: next_pos_def initial_gps_def sentence_def)
  moreover have "gps_decode initial_gps (sentence [] [] ''1'' @ [NUL]) \<noteq> Inl Float_Range"
    by (simp add: initial_gps_def sentence_def gps_char_def add_char_def parse_item_def item_char0_def
        cstr_def next_item_def end_of_statement_def item_long_def mark_statement_def Let_def rd_def wr_def
        upto_nul_def numeral_eq_Suc)
  moreover have "NUL \<notin> set (sentence [] [] ''1'')" by (simp add: sentence_def)
  ultimately obtain g' where g': "gps_decode initial_gps (sentence [] [] ''1'' @ [NUL]) = Inr g'"
    using decode_fits [OF initial_wf, of "sentence [] [] ''1''"] by auto
  have one: "strtol ''1'' 16 = 1"
    by (simp add: strtol_def scan_sign_def skip_0x_def digits_of_def digits_value_def digit_val_def
        c_isspace_def)
  have "gps_info g' = gps_info initial_gps"
    using sentence_checksum [OF initial_wf _ _ _ _ g'] one
    by (auto simp: item_ok_def plain_def xor_chars_def)
  with g' show ?thesis by (simp add: initial_gps_def)
qed

section \<open>Coordinates\<close>

lemma digits_of_prefix:
  assumes "\<forall>d \<in> set ds. d < b" "b \<le> 16" "c \<notin> digit_char False ` {..<16}" "b \<le> digit_val c"
  shows "digits_of b (map (digit_char False) ds @ c # s) = ds"
  using assms(1,2,4) by (induction ds) (auto simp: digits_of_def)

lemma digit_char_first:
  assumes "d < 10"
  shows "to_lower (digit_char False d) = digit_char False d" "digit_char False d \<noteq> CHR ''i''"
    "digit_char False d \<noteq> CHR ''n''" "digit_char False d \<noteq> CHR ''x''"
proof -
  have "(of_char (digit_char False d) :: nat) = 48 + d" using assms by simp
  then show "to_lower (digit_char False d) = digit_char False d" "digit_char False d \<noteq> CHR ''i''"
    "digit_char False d \<noteq> CHR ''n''" "digit_char False d \<noteq> CHR ''x''"
    using assms by (auto simp: to_lower_def Let_def intro!: char_neqI)
qed

definition decimal :: "nat list \<Rightarrow> nat list \<Rightarrow> string" where
  "decimal ip fp = map (digit_char False) ip @ CHR ''.'' # map (digit_char False) fp"

definition decimal_value :: "nat list \<Rightarrow> nat list \<Rightarrow> rat" where
  "decimal_value ip fp = of_nat (digits_value 10 (ip @ fp)) / 10 ^ length fp"

lemma strtof_decimal:
  assumes "ip \<noteq> []" "\<forall>d \<in> set ip. d < 10" "\<forall>d \<in> set fp. d < 10"
  shows "strtof (decimal ip fp) = to_f32 (decimal_value ip fp)"
proof -
  obtain d ip' where ip: "ip = d # ip'" "d < 10" using assms(1,2) by (cases ip) auto
  have "d < 16" using ip by simp
  then have space: "dropWhile c_isspace (decimal ip fp) = decimal ip fp"
    using ip by (simp add: decimal_def)
  have sign: "scan_sign (decimal ip fp) = (False, decimal ip fp)"
    using ip digit_char_not_sign [OF \<open>d < 16\<close>, of False] by (simp add: decimal_def scan_sign_def)
  have dot: "digit_val CHR ''.'' = 36" by (simp add: digit_val_def)
  have ip_digits: "digits_of 10 (decimal ip fp) = ip"
    unfolding decimal_def using assms(2) dot
    by (induction ip) (auto simp: digits_of_def)
  have fp_digits: "digits_of 10 (map (digit_char False) fp) = fp"
    by (rule digits_of_map_digit_char) (use assms(3) in auto)
  have num: "scan_number 10 (decimal ip fp) = Some (decimal_value ip fp)"
    using ip_digits fp_digits assms(1)
    by (simp add: scan_number_def scan_fraction_def decimal_def decimal_value_def Let_def scan_exponent_def)
  have lower: "map to_lower (decimal ip fp) = decimal ip fp"
    using assms digit_char_first(1) by (auto simp: decimal_def to_lower_def)
  have no0x: "\<not> is_prefix ''0x'' (decimal ip fp)"
  proof -
    have "CHR ''x'' \<noteq> digit_char False a" if "a < 10" for a using digit_char_first(4) [OF that] by simp
    then show ?thesis using ip assms(2) by (cases ip') (auto simp: decimal_def)
  qed
  have "\<not> is_prefix ''inf'' (decimal ip fp)" "\<not> is_prefix ''nan'' (decimal ip fp)"
    using ip digit_char_first(2,3) [of d] by (auto simp: decimal_def)
  then show ?thesis
    using num no0x by (simp add: strtof_def space sign lower Let_def del: is_prefix.simps)
qed

lemma lat_long_value:
  assumes "item_float g = Inr (to_f32 v)" and v: "v = 100 * of_nat d + m" and "d \<le> 180" "0 \<le> m" "m < 60"
  shows "\<exists>y. parse_lat_long g = Inr (Fin y) \<and> \<bar>y - (of_nat d + m / 60)\<bar> \<le> 1 / 20000"
proof -
  have d: "(of_nat d :: rat) \<le> 180" using assms(3) by simp
  have p: "(2 :: rat) ^ 15 = 32768" "(2 :: rat) ^ 7 = 128" "(2 :: rat) ^ 8 = 256" "(2 :: rat) ^ 1 = 2" by simp_all
  have "\<bar>v\<bar> < 2 ^ 15" unfolding p v using d assms(4,5) by simp
  then obtain ll where ll: "to_f32 v = Fin ll" "\<bar>ll - v\<bar> \<le> 2 ^ 15 / 33554432"
    using to_f32_err_below [of v 15] by auto
  have lb: "of_int (100 * int d) \<le> ll"
  proof -
    have "\<exists>y. to_f32 v = Fin y \<and> of_int (100 * int d) \<le> y \<and> y \<le> of_int 32768"
      by (rule to_f32_int_bounds) (use assms(3-5) d v in auto)
    then show ?thesis using ll(1) by auto
  qed
  then have ll': "100 * of_nat d \<le> ll" "ll < 100 * of_nat d + 61" "0 \<le> ll" "ll < 32768"
    using ll(2) assms(4,5) d unfolding p v by linarith+
  define i where "i = \<lfloor>ll\<rfloor>"
  have tr: "trunc ll = i" unfolding i_def by (rule trunc_nonneg [OF ll'(3)])
  have i: "100 * int d \<le> i" "i < 100 * int d + 61" "0 \<le> i" "i < 32768"
    using ll' unfolding i_def by (simp_all add: le_floor_iff floor_less_iff)
  have fi: "f_to_i32 (Fin ll) = Inr i" using i by (simp add: f_to_i32_def tr)
  have "i div 100 = int d" using i by (intro int_div_pos_eq [of i 100 "int d" "i - 100 * int d"]) auto
  then have deg: "trunc (of_int i / 100) = int d"
    using i(3) floor_divide_of_int_eq [of i 100, where 'a = rat] by (simp add: trunc_nonneg)
  have k: "to_f32 (of_int (int d * 100)) = Fin (100 * of_nat d)"
    using to_f32_int [of "int d * 100"] assms(3) by simp
  have kd: "to_f32 (of_int (int d)) = Fin (of_nat d)"
    using to_f32_int [of "int d"] assms(3) by simp
  have "\<bar>ll - 100 * of_nat d\<bar> < 2 ^ 7" unfolding p using ll' by simp
  then obtain mi where mi: "to_f32 (ll - 100 * of_nat d) = Fin mi" "\<bar>mi - (ll - 100 * of_nat d)\<bar> \<le> 2 ^ 7 / 33554432"
    using to_f32_err_below [of "ll - 100 * of_nat d" 7] by auto
  have "\<bar>mi\<bar> < 120" using mi(2) ll' unfolding p by linarith
  then have "\<bar>mi / 60\<bar> < 2 ^ 1" by simp
  then obtain q where q: "to_f32 (mi / 60) = Fin q" "\<bar>q - mi / 60\<bar> \<le> 2 ^ 1 / 33554432"
    using to_f32_err_below [of "mi / 60" 1] by auto
  have "\<bar>of_nat d + q\<bar> < 2 ^ 8" using q(2) \<open>\<bar>mi / 60\<bar> < 2 ^ 1\<close> d unfolding p by linarith
  then obtain y where y: "to_f32 (of_nat d + q) = Fin y" "\<bar>y - (of_nat d + q)\<bar> \<le> 2 ^ 8 / 33554432"
    using to_f32_err_below [of "of_nat d + q" 8] by auto
  have "\<bar>y - (of_nat d + m / 60)\<bar> \<le> 1 / 20000"
    using ll(2) mi(2) q(2) y(2) unfolding p v by linarith
  moreover have "parse_lat_long g = Inr (Fin y)"
    using assms(1) ll(1) fi deg k kd mi(1) q(1) y(1)
    by (simp add: parse_lat_long_def f_sub_def Let_def)
  ultimately show ?thesis by blast
qed
text \<open>A coordinate written \<open>dddmm.mmm\<close> with at most 180 degrees and less than 60 minutes is
  read as \<open>ddd + mm.mmm / 60\<close> degrees within \<open>1/20000\<close> (a few metres): the conversion to
  \<open>int\<close> and the single-precision steps never take the minutes over a degree.\<close>

lemma lat_long_accuracy:
  assumes "gps_wf g" and "upto_nul (item_str g) = decimal ip fp"
    and "ip \<noteq> []" "\<forall>d \<in> set ip. d < 10" "\<forall>d \<in> set fp. d < 10"
    and "decimal_value ip fp = 100 * of_nat deg + m" "deg \<le> 180" "0 \<le> m" "m < 60"
  shows "\<exists>y. parse_lat_long g = Inr (Fin y) \<and> \<bar>y - (of_nat deg + m / 60)\<bar> \<le> 1 / 20000"
proof (rule lat_long_value [OF _ assms(6-9)])
  show "item_float g = Inr (to_f32 (decimal_value ip fp))"
    using item_reads(1) [OF assms(1)] strtof_decimal [OF assms(3-5)] assms(2) by simp
qed

end
