(* ===== verification/Murata.thy ===== *)
theory Murata
  imports C_Strings
begin

text \<open>
  The LoRaWAN modem: \<open>components/CM-MURATA/murata_parser.c\<close>. Three parts: the lines the
  modem sends (an AT result, or \<open>port:hex\<close> of a received message), the commands the
  firmware sends with their repetition, and the two event bits with which the sending and
  the polling task take turns. The UART driver is a parameter: the bytes of a line; after
  which transmissions the flag \<open>recv_status\<close> has become true (\<open>resp\<close>, over the number of
  transmissions so far).
\<close>

section \<open>Results\<close>

datatype ATerror =
    AT_OK | AT_ERROR | AT_PARAM_ERROR | AT_BUSY_ERROR | AT_TEST_PARAM_OVERFLOW | AT_NO_NET_JOINED
  | AT_RX_ERROR | AT_NO_CLASS_B_ENABLE | AT_MAX | AT_UNKNOW | ESP_QUEUE_TOO_SMALL

abbreviation CRLF :: string where "CRLF \<equiv> [CHR 0x0D, CHR 0x0A]"

definition ATError_description :: "(ATerror \<times> string) list" where
  "ATError_description =
     [(AT_OK, ''OK'' @ CRLF),
      (AT_ERROR, ''AT_ERROR'' @ CRLF),
      (AT_PARAM_ERROR, ''AT_PARAM_ERROR'' @ CRLF),
      (AT_BUSY_ERROR, ''AT_BUSY_ERROR'' @ CRLF),
      (AT_TEST_PARAM_OVERFLOW, ''AT_TEST_PARAM_OVERFLOW'' @ CRLF),
      (AT_NO_NET_JOINED, ''AT_NO_NETWORK_JOINED'' @ CRLF),
      (AT_RX_ERROR, ''AT_RX_ERROR'' @ CRLF),
      (AT_NO_CLASS_B_ENABLE, ''AT_NO_CLASS_B_ENABLE'' @ CRLF),
      (AT_MAX, ''error unknown'' @ CRLF)]"

fun decode_loop :: "(ATerror \<times> string) list \<Rightarrow> string \<Rightarrow> ATerror" where
  "decode_loop [] data = AT_UNKNOW"
| "decode_loop ((ret, description) # rest) data =
     (if data = description then ret else decode_loop rest data)"

definition AT_Decode :: "string \<Rightarrow> ATerror" where
  "AT_Decode data = decode_loop ATError_description data"

fun Murata_decode :: "string \<Rightarrow> ATerror" where
  "Murata_decode data =
     (case AT_Decode data of
        AT_OK \<Rightarrow> AT_OK | AT_ERROR \<Rightarrow> AT_ERROR | AT_PARAM_ERROR \<Rightarrow> AT_PARAM_ERROR
      | AT_BUSY_ERROR \<Rightarrow> AT_BUSY_ERROR | AT_TEST_PARAM_OVERFLOW \<Rightarrow> AT_TEST_PARAM_OVERFLOW
      | AT_NO_NET_JOINED \<Rightarrow> AT_NO_NET_JOINED | AT_RX_ERROR \<Rightarrow> AT_RX_ERROR
      | AT_NO_CLASS_B_ENABLE \<Rightarrow> AT_NO_CLASS_B_ENABLE | AT_MAX \<Rightarrow> AT_MAX
      | AT_UNKNOW \<Rightarrow> AT_UNKNOW | _ \<Rightarrow> AT_MAX)"

section \<open>A line from the modem\<close>

text \<open>\<open>sscanf (s, "%d:%s", &port, tmp)\<close> on an empty \<open>tmp\<close>: the text stored into \<open>tmp\<close>.\<close>

definition sscanf_port :: "string \<Rightarrow> string" where
  "sscanf_port s =
     (let (neg, t) = scan_sign (dropWhile c_isspace s);
          ds = digits_of 10 t
      in if ds = [] then []
         else (case drop (length ds) t of
                 [] \<Rightarrow> []
               | c # r \<Rightarrow> if c = CHR '':''
                          then takeWhile (\<lambda>c. \<not> c_isspace c) (dropWhile c_isspace r) else []))"

text \<open>\<open>esp_handle_uart_pattern\<close>: \<open>pos\<close> is the position the driver pops, \<open>line\<close> the bytes it
  reads (none for an error, \<open>read_len = -1\<close>). The result is the decoded answer and the data
  posted to the event loop, a copy of \<open>read_len\<close> bytes of the 51-byte block.\<close>

definition esp_handle_uart_pattern :: "int \<Rightarrow> string option \<Rightarrow> fault + (ATerror \<times> string option)" where
  "esp_handle_uart_pattern pos line =
     (if pos = - 1 then Inr (ESP_QUEUE_TOO_SMALL, None)
      else case line of
        None \<Rightarrow> Inl Out_Of_Bounds
      | Some bytes \<Rightarrow>
          if 512 \<le> length bytes then Inl Out_Of_Bounds
          else (let buffer = upto_nul bytes in
            andthen (if CHR '':'' \<in> set buffer then
                       andthen (strcpy_to (replicate 51 NUL) (sscanf_port buffer)) (\<lambda>tmp.
                       if sscanf_port buffer \<noteq> [] then
                         (if length bytes \<le> 51 then Inr (Some (take (length bytes) tmp)) else Inl Out_Of_Bounds)
                       else Inr None)
                     else Inr None)
              (\<lambda>posted. Inr (Murata_decode buffer, posted))))"

datatype uart_event =
    UART_DATA | UART_FIFO_OVF | UART_BUFFER_FULL | UART_BREAK | UART_PARITY_ERR | UART_FRAME_ERR
  | UART_PATTERN_DET int "string option" | UART_OTHER

text \<open>One round of \<open>murata_parser_task_entry\<close>: the new \<open>recv_status\<close> and what was posted.\<close>

definition parser_round :: "bool \<Rightarrow> uart_event \<Rightarrow> fault + (bool \<times> string option)" where
  "parser_round recv_status event =
     (case event of
        UART_PATTERN_DET pos line \<Rightarrow>
          andthen (esp_handle_uart_pattern pos line) (\<lambda>(ret, posted).
          Inr (if ret = AT_OK then True else recv_status, posted))
      | _ \<Rightarrow> Inr (recv_status, None))"

section \<open>Sending commands\<close>

definition MAX_SEND_FAIL :: nat where "MAX_SEND_FAIL = 10"

text \<open>The number of transmissions so far and what was transmitted.\<close>

type_synonym wire = "nat \<times> string list"

text \<open>The \<open>do ... while\<close> of \<open>sendCMD\<close>; \<open>send_fail\<close> counts the transmissions of this command.\<close>

function send_loop ::
  "(nat \<Rightarrow> bool) \<Rightarrow> string \<Rightarrow> bool \<Rightarrow> nat \<Rightarrow> bool \<Rightarrow> wire \<Rightarrow> nat \<times> wire" where
  "send_loop resp data chk_ret send_fail recv_status w =
     (let w1 = (fst w + 1, snd w @ [data]);
          recv = (recv_status \<or> resp (fst w));
          send_fail1 = send_fail + 1
      in if \<not> recv \<and> chk_ret \<and> send_fail1 < MAX_SEND_FAIL
         then send_loop resp data chk_ret send_fail1 recv w1
         else (send_fail1, w1))"
  by pat_completeness auto
termination
  by (relation "measure (\<lambda>(_, _, _, send_fail, _, _). MAX_SEND_FAIL - send_fail)") auto

declare send_loop.simps [simp del]

text \<open>The commands of \<open>murata_parser.h\<close>; those with a \<open>%s\<close> take the text put there.\<close>

abbreviation (input) NL :: string where "NL \<equiv> [CHR 0x0A]"
abbreviation (input) AT_START :: string where "AT_START \<equiv> ''AT'' @ NL"
abbreviation (input) AT_CLASS_C :: string where "AT_CLASS_C \<equiv> ''AT+CLASS=C'' @ NL"
abbreviation (input) AT_DADDR :: "string \<Rightarrow> string" where "AT_DADDR s \<equiv> ''AT+DADDR='' @ s @ NL"
abbreviation (input) AT_NWKSKEY :: "string \<Rightarrow> string" where "AT_NWKSKEY s \<equiv> ''AT+NWKSKEY='' @ s @ NL"
abbreviation (input) AT_APPSKEY :: "string \<Rightarrow> string" where "AT_APPSKEY s \<equiv> ''AT+APPSKEY='' @ s @ NL"
abbreviation (input) AT_CFM :: string where "AT_CFM \<equiv> ''AT+CFM=0'' @ NL"
abbreviation (input) AT_DCS :: string where "AT_DCS \<equiv> ''AT+DCS=0'' @ NL"
abbreviation (input) AT_TXP :: string where "AT_TXP \<equiv> ''AT+TXP=5'' @ NL"
abbreviation (input) AT_DR :: string where "AT_DR \<equiv> ''AT+DR=3'' @ NL"
abbreviation (input) AT_ADR :: string where "AT_ADR \<equiv> ''AT+ADR=1'' @ NL"
abbreviation (input) AT_JN1DL :: string where "AT_JN1DL \<equiv> ''AT+JN1DL=5000'' @ NL"
abbreviation (input) AT_JN2DL :: string where "AT_JN2DL \<equiv> ''AT+JN2DL=6000'' @ NL"
abbreviation (input) AT_RX1DL :: string where "AT_RX1DL \<equiv> ''AT+RX1DL=1000'' @ NL"
abbreviation (input) AT_RX2DL :: string where "AT_RX2DL \<equiv> ''AT+RX2DL=2000'' @ NL"
abbreviation (input) AT_NJM :: string where "AT_NJM \<equiv> ''AT+NJM=0'' @ NL"
abbreviation (input) AT_NJS :: string where "AT_NJS \<equiv> ''AT+NJS=?'' @ NL"
abbreviation (input) AT_RST :: string where "AT_RST \<equiv> ''ATZ'' @ NL"

text \<open>The commands of \<open>lora_init\<close>, those of \<open>lora_rst\<close> first; the flag is \<open>chk_ret\<close>.\<close>

definition lora_init_cmds :: "string \<Rightarrow> string \<Rightarrow> string \<Rightarrow> (string \<times> bool) list" where
  "lora_init_cmds devaddr nwkskey appskey =
     [(AT_START, True), (AT_RST, False),
      (AT_START, True), (AT_CLASS_C, True),
      (AT_DADDR devaddr, True), (AT_NWKSKEY nwkskey, True), (AT_APPSKEY appskey, True),
      (AT_CFM, True), (AT_DCS, True), (AT_TXP, True), (AT_DR, True), (AT_ADR, True),
      (AT_JN1DL, True), (AT_JN2DL, True), (AT_RX1DL, True), (AT_RX2DL, True),
      (AT_NJM, True), (AT_NJS, True)]"

text \<open>\<open>sendCMD\<close> and \<open>lora_init\<close> call each other without a bound; the first argument is the
  depth of calls allowed, and \<open>None\<close> says that it was not enough. \<open>init\<close> are the commands of
  \<open>lora_init\<close>.\<close>

function sendCMD ::
    "nat \<Rightarrow> (string \<times> bool) list \<Rightarrow> (nat \<Rightarrow> bool) \<Rightarrow> string \<Rightarrow> bool \<Rightarrow> wire \<Rightarrow> wire option"
  and send_all ::
    "nat \<Rightarrow> (string \<times> bool) list \<Rightarrow> (nat \<Rightarrow> bool) \<Rightarrow> (string \<times> bool) list \<Rightarrow> wire \<Rightarrow> wire option" where
  "sendCMD 0 init resp data chk_ret w = None"
| "sendCMD (Suc depth) init resp data chk_ret w =
     (case send_loop resp data chk_ret 0 False w of (send_fail, w1) \<Rightarrow>
      if MAX_SEND_FAIL \<le> send_fail then
        (case send_all depth init resp init w1 of
           None \<Rightarrow> None
         | Some w2 \<Rightarrow> sendCMD depth init resp data chk_ret w2)
      else Some w1)"
| "send_all depth init resp [] w = Some w"
| "send_all depth init resp ((data, chk_ret) # cmds) w =
     (case sendCMD depth init resp data chk_ret w of
        None \<Rightarrow> None
      | Some w1 \<Rightarrow> send_all depth init resp cmds w1)"
  by pat_completeness auto
termination
  by (relation "measures [\<lambda>x. case x of Inl (d, _) \<Rightarrow> d | Inr (d, _) \<Rightarrow> d,
        \<lambda>x. case x of Inl _ \<Rightarrow> 0 | Inr (_, _, _, cmds, _) \<Rightarrow> Suc (length cmds)]") auto

text \<open>\<open>lora_init\<close> is \<open>send_all\<close> on its own commands.\<close>

definition lora_init ::
  "nat \<Rightarrow> string \<Rightarrow> string \<Rightarrow> string \<Rightarrow> (nat \<Rightarrow> bool) \<Rightarrow> wire \<Rightarrow> wire option" where
  "lora_init depth devaddr nwkskey appskey resp w =
     (let init = lora_init_cmds devaddr nwkskey appskey in send_all depth init resp init w)"

section \<open>Taking turns\<close>

text \<open>The task that calls \<open>sendCMD\<close> and the task \<open>readCMD\<close> share two bits. A task waits for the
  bit of the other (without clearing it), clears its own, works, and sets its own. The
  program counters name the places between two accesses of the bits; a command that is
  given up after ten transmissions continues in \<open>lora_init\<close>, whose commands start with the
  wait of \<open>sendCMD\<close>, in the sending task and in \<open>readCMD\<close> alike. \<open>s_calls\<close> and \<open>r_calls\<close> count
  the calls of \<open>sendCMD\<close> given up that way, each of which still sets its bit on its return;
  how many commands run inside one of them is left open.\<close>

datatype sender_pc = S_Idle | S_Wait | S_Clear | S_Sending | S_Set

datatype reader_pc =
    R_Wait | R_Clear | R_Polling | R_Set
  | RI_Wait | RI_Clear | RI_Sending | RI_Set     \<comment> \<open>inside the \<open>lora_init\<close> of \<open>readCMD\<close>\<close>

record turns =
  RECV_BIT :: bool
  SEND_BIT :: bool
  sender :: sender_pc
  reader :: reader_pc
  s_calls :: nat
  r_calls :: nat

definition init_turns :: turns where
  "init_turns = \<lparr>RECV_BIT = True, SEND_BIT = False, sender = S_Idle, reader = R_Wait,
     s_calls = 0, r_calls = 0\<rparr>"

inductive turn_step :: "turns \<Rightarrow> turns \<Rightarrow> bool" where
  s_call:   "sender t = S_Idle \<Longrightarrow> turn_step t (t\<lparr>sender := S_Wait\<rparr>)"
| s_wait:   "sender t = S_Wait \<Longrightarrow> RECV_BIT t \<Longrightarrow> turn_step t (t\<lparr>sender := S_Clear\<rparr>)"
| s_clear:  "sender t = S_Clear \<Longrightarrow> turn_step t (t\<lparr>SEND_BIT := False, sender := S_Sending\<rparr>)"
| s_ok:     "sender t = S_Sending \<Longrightarrow> turn_step t (t\<lparr>sender := S_Set\<rparr>)"
| s_fail:   "sender t = S_Sending \<Longrightarrow> turn_step t (t\<lparr>sender := S_Wait, s_calls := s_calls t + 1\<rparr>)"
| s_set:    "sender t = S_Set \<Longrightarrow> turn_step t (t\<lparr>SEND_BIT := True, sender := S_Idle\<rparr>)"
| s_return: "sender t = S_Idle \<Longrightarrow> 0 < s_calls t \<Longrightarrow> turn_step t (t\<lparr>sender := S_Set, s_calls := s_calls t - 1\<rparr>)"
| r_wait:   "reader t = R_Wait \<Longrightarrow> SEND_BIT t \<Longrightarrow> turn_step t (t\<lparr>reader := R_Clear\<rparr>)"
| r_clear:  "reader t = R_Clear \<Longrightarrow> turn_step t (t\<lparr>RECV_BIT := False, reader := R_Polling\<rparr>)"
| r_ok:     "reader t = R_Polling \<Longrightarrow> turn_step t (t\<lparr>reader := R_Set\<rparr>)"
| r_fail:   "reader t = R_Polling \<Longrightarrow> turn_step t (t\<lparr>reader := RI_Wait\<rparr>)"
| ri_wait:  "reader t = RI_Wait \<Longrightarrow> RECV_BIT t \<Longrightarrow> turn_step t (t\<lparr>reader := RI_Clear\<rparr>)"
| ri_clear: "reader t = RI_Clear \<Longrightarrow> turn_step t (t\<lparr>SEND_BIT := False, reader := RI_Sending\<rparr>)"
| ri_ok:    "reader t = RI_Sending \<Longrightarrow> turn_step t (t\<lparr>reader := RI_Set\<rparr>)"
| ri_fail:  "reader t = RI_Sending \<Longrightarrow> turn_step t (t\<lparr>reader := RI_Wait, r_calls := r_calls t + 1\<rparr>)"
| ri_next:  "reader t = RI_Set \<Longrightarrow> turn_step t (t\<lparr>SEND_BIT := True, reader := RI_Wait\<rparr>)"
| ri_return: "reader t = RI_Set \<Longrightarrow> 0 < r_calls t \<Longrightarrow>
    turn_step t (t\<lparr>SEND_BIT := True, r_calls := r_calls t - 1\<rparr>)"
| ri_last:  "reader t = RI_Set \<Longrightarrow> r_calls t = 0 \<Longrightarrow> turn_step t (t\<lparr>SEND_BIT := True, reader := R_Set\<rparr>)"
| r_set:    "reader t = R_Set \<Longrightarrow> turn_step t (t\<lparr>RECV_BIT := True, reader := R_Wait\<rparr>)"

inductive_cases turn_stepE: "turn_step t t'"

abbreviation turn_steps :: "turns \<Rightarrow> turns \<Rightarrow> bool" where
  "turn_steps \<equiv> turn_step\<^sup>*\<^sup>*"

section \<open>Lemmas\<close>

lemma decode_loop_exact:
  assumes "distinct (map fst l)" "distinct (map snd l)" "AT_UNKNOW \<notin> fst ` set l"
  shows "ret \<noteq> AT_UNKNOW \<Longrightarrow> decode_loop l data = ret \<longleftrightarrow> (ret, data) \<in> set l"
    and "decode_loop l data = AT_UNKNOW \<longleftrightarrow> data \<notin> snd ` set l"
  using assms by (induction l data rule: decode_loop.induct) (auto intro: rev_image_eqI)

lemma description_distinct:
  "distinct (map fst ATError_description)" "distinct (map snd ATError_description)"
  "AT_UNKNOW \<notin> fst ` set ATError_description"
  by (simp_all add: ATError_description_def)

lemma send_loop_steps:
  "send_fail < MAX_SEND_FAIL \<Longrightarrow> \<exists>k. 1 \<le> k \<and> send_fail + k \<le> MAX_SEND_FAIL
    \<and> send_loop resp data chk_ret send_fail recv_status (n, log) =
        (send_fail + k, (n + k, log @ replicate k data))
    \<and> (\<forall>j<k - 1. \<not> recv_status \<and> \<not> resp (n + j) \<and> chk_ret)
    \<and> (send_fail + k < MAX_SEND_FAIL \<longrightarrow> recv_status \<or> resp (n + (k - 1)) \<or> \<not> chk_ret)"
proof (induction "MAX_SEND_FAIL - send_fail" arbitrary: send_fail recv_status n log)
  case 0
  then show ?case by simp
next
  case (Suc x)
  let ?recv = "recv_status \<or> resp n"
  show ?case
  proof (cases "\<not> ?recv \<and> chk_ret \<and> send_fail + 1 < MAX_SEND_FAIL")
    case False
    then show ?thesis using Suc.prems
      by (intro exI [of _ 1]) (auto simp: send_loop.simps [of resp data chk_ret send_fail])
  next
    case True
    have "x = MAX_SEND_FAIL - (send_fail + 1)" using Suc.hyps(2) by simp
    from Suc.hyps(1) [OF this, of ?recv "n + 1" "log @ [data]"] True
    obtain k where k: "1 \<le> k" "send_fail + 1 + k \<le> MAX_SEND_FAIL"
      "send_loop resp data chk_ret (send_fail + 1) ?recv (n + 1, log @ [data]) =
        (send_fail + 1 + k, (n + 1 + k, (log @ [data]) @ replicate k data))"
      "\<forall>j<k - 1. \<not> ?recv \<and> \<not> resp (n + 1 + j) \<and> chk_ret"
      "send_fail + 1 + k < MAX_SEND_FAIL \<longrightarrow> ?recv \<or> resp (n + 1 + (k - 1)) \<or> \<not> chk_ret"
      by auto
    have "send_loop resp data chk_ret send_fail recv_status (n, log) =
        send_loop resp data chk_ret (send_fail + 1) ?recv (n + 1, log @ [data])"
      using True by (subst send_loop.simps) (simp add: Let_def)
    then have "send_loop resp data chk_ret send_fail recv_status (n, log) =
        (send_fail + Suc k, (n + Suc k, log @ replicate (Suc k) data))"
      using k(3) by simp
    moreover have "\<forall>j<Suc k - 1. \<not> recv_status \<and> \<not> resp (n + j) \<and> chk_ret"
    proof (intro allI impI)
      fix j assume "j < Suc k - 1"
      then show "\<not> recv_status \<and> \<not> resp (n + j) \<and> chk_ret"
        using True k(4) by (cases j) auto
    qed
    moreover have "send_fail + Suc k < MAX_SEND_FAIL \<longrightarrow> recv_status \<or> resp (n + (Suc k - 1)) \<or> \<not> chk_ret"
      using k(1,5) True by (cases k) auto
    ultimately show ?thesis using k(2) by (intro exI [of _ "Suc k"]) simp
  qed
qed

text \<open>A modem that answers within every nine transmissions.\<close>

definition responsive :: "(nat \<Rightarrow> bool) \<Rightarrow> bool" where
  "responsive resp \<longleftrightarrow> (\<forall>n. \<exists>j<9. resp (n + j))"

lemma sendCMD_responsive:
  assumes "responsive resp"
  shows "\<exists>k. 1 \<le> k \<and> k \<le> 9 \<and> (\<not> chk_ret \<longrightarrow> k = 1)
    \<and> sendCMD (Suc depth) init resp data chk_ret (n, log) = Some (n + k, log @ replicate k data)"
proof -
  obtain k where k: "1 \<le> k" "k \<le> 10"
      "send_loop resp data chk_ret 0 False (n, log) = (k, (n + k, log @ replicate k data))"
      "\<forall>j<k - 1. \<not> resp (n + j) \<and> chk_ret"
    using send_loop_steps [of 0 resp data chk_ret False n log] by (auto simp: MAX_SEND_FAIL_def)
  obtain j where j: "j < 9" "resp (n + j)" using assms by (auto simp: responsive_def)
  have "k \<le> 9" using k(4) j by (cases "k \<le> 9") auto
  moreover have "\<not> chk_ret \<longrightarrow> k = 1" using k(1) spec [OF k(4), of 0] by (cases "k = 1") auto
  moreover from \<open>k \<le> 9\<close> have "\<not> MAX_SEND_FAIL \<le> k" by (simp add: MAX_SEND_FAIL_def)
  ultimately show ?thesis using k(1,3)
    by (intro exI [of _ k] conjI) (simp_all only: sendCMD.simps prod.case if_False)
qed

definition transmissions :: "(string \<times> bool) list \<Rightarrow> nat list \<Rightarrow> string list" where
  "transmissions cmds ks = concat (map2 (\<lambda>c k. replicate k (fst c)) cmds ks)"

text \<open>What the users of \<open>sendCMD\<close> (the initialisation and the bridge) rely on while the modem is
  \<open>alive\<close>: a command is on the wire one to nine times, once when its answer is not awaited.\<close>

locale modem_link =
  fixes send :: "string \<Rightarrow> bool \<Rightarrow> wire \<Rightarrow> wire option"
    and alive :: bool
  assumes delivers: "alive \<Longrightarrow> \<exists>k. 1 \<le> k \<and> k \<le> 9 \<and> (\<not> chk_ret \<longrightarrow> k = 1)
    \<and> send data chk_ret (n, log) = Some (n + k, log @ replicate k data)"

text \<open>Commands one after the other.\<close>

fun send_seq :: "(string \<Rightarrow> bool \<Rightarrow> wire \<Rightarrow> wire option) \<Rightarrow> (string \<times> bool) list \<Rightarrow> wire \<Rightarrow> wire option" where
  "send_seq send [] w = Some w"
| "send_seq send ((data, chk_ret) # cmds) w =
     (case send data chk_ret w of None \<Rightarrow> None | Some w1 \<Rightarrow> send_seq send cmds w1)"

context modem_link begin

lemma seq_delivers:
  assumes "alive"
  shows "\<exists>ks. list_all2 (\<lambda>c k. 1 \<le> k \<and> k \<le> 9 \<and> (\<not> snd c \<longrightarrow> k = 1)) cmds ks
    \<and> send_seq send cmds (n, log) = Some (n + sum_list ks, log @ transmissions cmds ks)"
proof (induction cmds arbitrary: n log)
  case Nil
  then show ?case by (simp add: transmissions_def)
next
  case (Cons c cmds)
  obtain data chk where c: "c = (data, chk)" by (cases c)
  obtain k where k: "1 \<le> k" "k \<le> 9" "\<not> chk \<longrightarrow> k = 1"
      "send data chk (n, log) = Some (n + k, log @ replicate k data)"
    using delivers [OF assms] by blast
  obtain ks where ks: "list_all2 (\<lambda>c k. 1 \<le> k \<and> k \<le> 9 \<and> (\<not> snd c \<longrightarrow> k = 1)) cmds ks"
      "send_seq send cmds (n + k, log @ replicate k data)
        = Some (n + k + sum_list ks, (log @ replicate k data) @ transmissions cmds ks)"
    using Cons.IH [of "n + k" "log @ replicate k data"] by auto
  show ?case using c k ks
    by (intro exI [of _ "k # ks"]) (simp add: transmissions_def)
qed

end

interpretation modem: modem_link "sendCMD (Suc depth) init resp" "responsive resp" for depth init resp
  by unfold_locales (rule sendCMD_responsive)

lemma send_all_seq: "send_all depth init resp cmds w = send_seq (sendCMD depth init resp) cmds w"
  by (induction cmds arbitrary: w) (auto split: option.splits)

lemma send_all_responsive:
  assumes "responsive resp"
  shows "\<exists>ks. list_all2 (\<lambda>c k. 1 \<le> k \<and> k \<le> 9 \<and> (\<not> snd c \<longrightarrow> k = 1)) cmds ks
    \<and> send_all (Suc depth) init resp cmds (n, log) = Some (n + sum_list ks, log @ transmissions cmds ks)"
  unfolding send_all_seq by (rule modem.seq_delivers [OF assms])

lemma silent_sendCMD:
  assumes "\<forall>n. \<not> resp n" "init = (c, True) # rest"
  shows "sendCMD depth init resp data True w = None"
proof (induction depth arbitrary: data w)
  case 0
  then show ?case by simp
next
  case (Suc depth)
  obtain n log where w: "w = (n, log)" by (cases w)
  obtain k where k: "1 \<le> k" "k \<le> 10"
      "send_loop resp data True 0 False (n, log) = (k, (n + k, log @ replicate k data))"
      "k < 10 \<longrightarrow> resp (n + (k - 1))"
    using send_loop_steps [of 0 resp data True False n log] by (auto simp: MAX_SEND_FAIL_def)
  have "k = 10" using k(2,4) assms(1) by (cases "k < 10") auto
  moreover have "send_all depth init resp init v = None" for v
    using Suc.IH [of c v] assms(2) by simp
  ultimately show ?case using k(3) w by (simp add: MAX_SEND_FAIL_def)
qed

lemma turn_recv:
  assumes "turn_steps init_turns t"
  shows "reader t \<in> {R_Wait, R_Clear} \<or> \<not> RECV_BIT t"
    and "reader t \<notin> {RI_Clear, RI_Sending, RI_Set}"
proof -
  have "(reader t \<in> {R_Wait, R_Clear} \<or> \<not> RECV_BIT t) \<and> reader t \<notin> {RI_Clear, RI_Sending, RI_Set}"
    using assms
  proof (induction rule: rtranclp_induct)
    case base
    then show ?case by (simp add: init_turns_def)
  next
    case (step t t')
    from step.hyps(2) step.IH show ?case by (cases rule: turn_stepE) auto
  qed
  then show "reader t \<in> {R_Wait, R_Clear} \<or> \<not> RECV_BIT t" "reader t \<notin> {RI_Clear, RI_Sending, RI_Set}"
    by blast+
qed

lemma stuck_step:
  assumes "turn_step t t'" "reader t = RI_Wait" "\<not> RECV_BIT t"
  shows "reader t' = RI_Wait \<and> \<not> RECV_BIT t'
    \<and> (sender t \<notin> {S_Clear, S_Sending} \<longrightarrow> sender t' \<notin> {S_Clear, S_Sending})"
  using assms by (cases rule: turn_stepE) auto

lemma stuck_steps:
  assumes "turn_steps t t'" "reader t = RI_Wait" "\<not> RECV_BIT t"
  shows "reader t' = RI_Wait \<and> \<not> RECV_BIT t'
    \<and> (sender t \<notin> {S_Clear, S_Sending} \<longrightarrow> sender t' \<notin> {S_Clear, S_Sending})"
  using assms
proof (induction rule: rtranclp_induct)
  case base
  then show ?case by simp
next
  case (step t1 t2)
  then show ?case using stuck_step [of t1 t2] by blast
qed

section \<open>Properties\<close>

text \<open>Decoding is exact: an answer is recognised precisely when the line is its text with
  the line end, and every other line is unknown; \<open>Murata_decode\<close> adds nothing to it.\<close>

lemma at_decode_exact:
  "(\<forall>ret. ret \<noteq> AT_UNKNOW \<longrightarrow> (AT_Decode data = ret \<longleftrightarrow> (ret, data) \<in> set ATError_description))
    \<and> (AT_Decode data = AT_UNKNOW \<longleftrightarrow> data \<notin> snd ` set ATError_description)
    \<and> Murata_decode data = AT_Decode data"
proof (intro conjI)
  note exact = decode_loop_exact [OF description_distinct]
  show "\<forall>ret. ret \<noteq> AT_UNKNOW \<longrightarrow> (AT_Decode data = ret \<longleftrightarrow> (ret, data) \<in> set ATError_description)"
    "AT_Decode data = AT_UNKNOW \<longleftrightarrow> data \<notin> snd ` set ATError_description"
    using exact by (simp_all add: AT_Decode_def)
  have "AT_Decode data \<noteq> ESP_QUEUE_TOO_SMALL"
    using exact(1) [of ESP_QUEUE_TOO_SMALL data] by (simp add: AT_Decode_def ATError_description_def)
  then show "Murata_decode data = AT_Decode data" by (cases "AT_Decode data") simp_all
qed



text \<open>C37: With a modem that never answers, sending a command whose answer is awaited does not
  return, whatever depth of nested calls is allowed: the task's stack is exhausted.\<close>

theorem silent_modem_never_returns:
  assumes "\<forall>n. \<not> resp n"
  shows "sendCMD depth (lora_init_cmds da nk ak) resp data True w = None"
proof -
  have "\<exists>c rest. lora_init_cmds da nk ak = (c, True) # rest" by (simp add: lora_init_cmds_def)
  then show ?thesis using silent_sendCMD assms by blast
qed

theorem silent_modem_never_returns_witness:
  "sendCMD 5 (lora_init_cmds ''d'' ''n'' ''a'') (\<lambda>_. False) ''AT'' True (0, []) = None"
  using silent_modem_never_returns [of "\<lambda>_. False" 5] by simp

text \<open>An answer to the tenth transmission comes too late: after nine transmissions without
  an answer the command is sent a tenth time and then the whole initialisation runs and the
  command is sent again, whether or not the tenth was answered.\<close>

theorem tenth_answer_ignored:
  assumes "\<forall>j<9. \<not> resp (n + j)"
  shows "sendCMD (Suc depth) init resp data True (n, log) =
    (case send_all depth init resp init (n + 10, log @ replicate 10 data) of
       None \<Rightarrow> None | Some w \<Rightarrow> sendCMD depth init resp data True w)"
proof -
  obtain k where k: "1 \<le> k" "k \<le> 10"
      "send_loop resp data True 0 False (n, log) = (k, (n + k, log @ replicate k data))"
      "k < 10 \<longrightarrow> resp (n + (k - 1))"
    using send_loop_steps [of 0 resp data True False n log] by (auto simp: MAX_SEND_FAIL_def)
  have "k = 10"
  proof (rule ccontr)
    assume "k \<noteq> 10"
    then have "resp (n + (k - 1))" "k - 1 < 9" using k by auto
    with assms show False by blast
  qed
  then show ?thesis using k(3) by (simp add: MAX_SEND_FAIL_def)
qed

theorem tenth_answer_ignored_witness:
  "sendCMD 2 [] (\<lambda>n. n \<ge> 9) ''x'' True (0, []) = Some (11, replicate 11 ''x'')"
proof -
  have "\<exists>k. 1 \<le> k \<and> k \<le> 10 \<and> send_loop (\<lambda>n. n \<ge> 9) ''x'' True 0 False (10, replicate 10 ''x'')
      = (k, (10 + k, replicate 10 ''x'' @ replicate k ''x'')) \<and> (\<forall>j<k - 1. \<not> 9 \<le> 10 + j)"
    using send_loop_steps [of 0 "\<lambda>n. n \<ge> 9" "''x''" True False 10 "replicate 10 ''x''"]
    by (auto simp: MAX_SEND_FAIL_def)
  then obtain k where k: "1 \<le> k" "send_loop (\<lambda>n. n \<ge> 9) ''x'' True 0 False (10, replicate 10 ''x'')
      = (k, (10 + k, replicate 10 ''x'' @ replicate k ''x''))" "\<forall>j<k - 1. \<not> 9 \<le> 10 + j" by blast
  have "k = 1" using k(1) spec [OF k(3), of 0] by (cases "k = 1") auto
  then have "sendCMD 1 [] (\<lambda>n. n \<ge> 9) ''x'' True (10, replicate 10 ''x'') = Some (11, replicate 11 ''x'')"
    using k(2) replicate_add [of 10 1 "''x''"] by (simp add: MAX_SEND_FAIL_def del: replicate_Suc)
  then show ?thesis using tenth_answer_ignored [of "\<lambda>n. n \<ge> 9" 0 1 "[]" "''x''" "[]"]
    by (simp add: numeral_2_eq_2)
qed

text \<open>C38: When the polling task gives up on the modem it waits for a bit that only it sets:
  from then on it never gets further, and once the sending task has finished its current
  command no command is transmitted any more.\<close>

theorem polling_task_deadlock:
  assumes "turn_steps init_turns t" and "reader t = RI_Wait" and "turn_steps t t'"
  shows "reader t' = RI_Wait \<and> \<not> RECV_BIT t'
    \<and> (sender t \<notin> {S_Clear, S_Sending} \<longrightarrow> sender t' \<notin> {S_Clear, S_Sending})"
  using stuck_steps [OF assms(3,2)] turn_recv [OF assms(1)] assms(2) by auto

definition stuck_turns :: turns where
  "stuck_turns = \<lparr>RECV_BIT = False, SEND_BIT = True, sender = S_Idle, reader = RI_Wait,
    s_calls = 0, r_calls = 0\<rparr>"

lemma stuck_reachable: "turn_steps init_turns stuck_turns"
proof -
  let ?t = "\<lambda>r s a b. \<lparr>RECV_BIT = r, SEND_BIT = s, sender = a, reader = b, s_calls = 0, r_calls = 0\<rparr>"
  have "turn_step (?t True False S_Idle R_Wait) (?t True False S_Wait R_Wait)"
    using s_call [of "?t True False S_Idle R_Wait"] by simp
  moreover have "turn_step (?t True False S_Wait R_Wait) (?t True False S_Clear R_Wait)"
    using s_wait [of "?t True False S_Wait R_Wait"] by simp
  moreover have "turn_step (?t True False S_Clear R_Wait) (?t True False S_Sending R_Wait)"
    using s_clear [of "?t True False S_Clear R_Wait"] by simp
  moreover have "turn_step (?t True False S_Sending R_Wait) (?t True False S_Set R_Wait)"
    using s_ok [of "?t True False S_Sending R_Wait"] by simp
  moreover have "turn_step (?t True False S_Set R_Wait) (?t True True S_Idle R_Wait)"
    using s_set [of "?t True False S_Set R_Wait"] by simp
  moreover have "turn_step (?t True True S_Idle R_Wait) (?t True True S_Idle R_Clear)"
    using r_wait [of "?t True True S_Idle R_Wait"] by simp
  moreover have "turn_step (?t True True S_Idle R_Clear) (?t False True S_Idle R_Polling)"
    using r_clear [of "?t True True S_Idle R_Clear"] by simp
  moreover have "turn_step (?t False True S_Idle R_Polling) (?t False True S_Idle RI_Wait)"
    using r_fail [of "?t False True S_Idle R_Polling"] by simp
  ultimately show ?thesis unfolding init_turns_def stuck_turns_def
    by (meson rtranclp.rtrancl_into_rtrancl rtranclp.rtrancl_refl)
qed

theorem polling_task_deadlock_witness:
  "turn_steps stuck_turns (stuck_turns\<lparr>sender := S_Wait\<rparr>)
    \<and> reader (stuck_turns\<lparr>sender := S_Wait\<rparr>) = RI_Wait \<and> sender (stuck_turns\<lparr>sender := S_Wait\<rparr>) \<notin> {S_Clear, S_Sending}"
proof -
  have "turn_steps stuck_turns (stuck_turns\<lparr>sender := S_Wait\<rparr>)"
    using s_call [of stuck_turns] by (simp add: stuck_turns_def r_into_rtranclp)
  then show ?thesis
    using polling_task_deadlock [OF stuck_reachable, of "stuck_turns\<lparr>sender := S_Wait\<rparr>"]
    by (simp add: stuck_turns_def)
qed

text \<open>The two bits do not keep the tasks apart: both wait before either clears its bit, so
  there is a run in which both are transmitting at the same time.\<close>

lemma both_tasks_transmit:
  "\<exists>t. turn_steps init_turns t \<and> sender t = S_Sending \<and> reader t = R_Polling"
proof -
  let ?t = "\<lambda>r s a b. \<lparr>RECV_BIT = r, SEND_BIT = s, sender = a, reader = b, s_calls = 0, r_calls = 0\<rparr>"
  have "turn_step (?t True False S_Idle R_Wait) (?t True False S_Wait R_Wait)"
    using s_call [of "?t True False S_Idle R_Wait"] by simp
  moreover have "turn_step (?t True False S_Wait R_Wait) (?t True False S_Clear R_Wait)"
    using s_wait [of "?t True False S_Wait R_Wait"] by simp
  moreover have "turn_step (?t True False S_Clear R_Wait) (?t True False S_Sending R_Wait)"
    using s_clear [of "?t True False S_Clear R_Wait"] by simp
  moreover have "turn_step (?t True False S_Sending R_Wait) (?t True False S_Set R_Wait)"
    using s_ok [of "?t True False S_Sending R_Wait"] by simp
  moreover have "turn_step (?t True False S_Set R_Wait) (?t True True S_Idle R_Wait)"
    using s_set [of "?t True False S_Set R_Wait"] by simp
  moreover have "turn_step (?t True True S_Idle R_Wait) (?t True True S_Wait R_Wait)"
    using s_call [of "?t True True S_Idle R_Wait"] by simp
  moreover have "turn_step (?t True True S_Wait R_Wait) (?t True True S_Clear R_Wait)"
    using s_wait [of "?t True True S_Wait R_Wait"] by simp
  moreover have "turn_step (?t True True S_Clear R_Wait) (?t True True S_Clear R_Clear)"
    using r_wait [of "?t True True S_Clear R_Wait"] by simp
  moreover have "turn_step (?t True True S_Clear R_Clear) (?t True False S_Sending R_Clear)"
    using s_clear [of "?t True True S_Clear R_Clear"] by simp
  moreover have "turn_step (?t True False S_Sending R_Clear) (?t False False S_Sending R_Polling)"
    using r_clear [of "?t True False S_Sending R_Clear"] by simp
  ultimately have "turn_steps init_turns (?t False False S_Sending R_Polling)" unfolding init_turns_def
    by (meson rtranclp.rtrancl_into_rtrancl rtranclp.rtrancl_refl)
  then show ?thesis by (intro exI [of _ "?t False False S_Sending R_Polling"]) simp
qed

section \<open>A received message\<close>

lemma sscanf_port_line:
  assumes "ds \<noteq> []" "\<forall>d \<in> set ds. d < 10" "hex \<noteq> []" "\<forall>c \<in> set hex. \<not> c_isspace c"
  shows "sscanf_port (map (digit_char False) ds @ CHR '':'' # hex @ CRLF) = hex"
proof -
  obtain d ds' where d: "ds = d # ds'" "d < 10" using assms(1,2) by (cases ds) auto
  then have d16: "d < 16" by simp
  let ?s = "map (digit_char False) ds @ CHR '':'' # hex @ CRLF"
  have space: "dropWhile c_isspace ?s = ?s" using d d16 by simp
  have sign: "scan_sign ?s = (False, ?s)"
    using d digit_char_not_sign [OF d16, of False] by (simp add: scan_sign_def)
  have colon: "digit_val CHR '':'' = 36" by (simp add: digit_val_def)
  have digits: "digits_of 10 ?s = ds"
    using assms(2) colon by (induction ds) (auto simp: digits_of_def)
  have nosp: "dropWhile c_isspace (hex @ CRLF) = hex @ CRLF" using assms(3,4) by (cases hex) auto
  have "c_isspace (CHR 0x0D)" by (simp add: c_isspace_def)
  then have "takeWhile (\<lambda>c. \<not> c_isspace c) (hex @ CRLF) = hex"
    using assms(4) by (simp add: takeWhile_append2)
  then show ?thesis using assms(1)
    unfolding sscanf_port_def space sign split Let_def digits by (simp add: nosp)
qed

lemma colon_not_description: "CHR '':'' \<in> set s \<Longrightarrow> AT_Decode s = AT_UNKNOW"
proof -
  assume "CHR '':'' \<in> set s"
  then have "s \<notin> snd ` set ATError_description" by (auto simp: ATError_description_def)
  then show ?thesis using decode_loop_exact(2) [OF description_distinct] by (simp add: AT_Decode_def)
qed

lemma uart_line_posted:
  assumes "pos \<noteq> - 1" "ds \<noteq> []" "\<forall>d \<in> set ds. d < 10" "hex \<noteq> []"
    and "\<forall>c \<in> set hex. \<not> c_isspace c \<and> c \<noteq> NUL"
  defines "line \<equiv> map (digit_char False) ds @ CHR '':'' # hex @ CRLF"
  shows "if length line \<le> 51
     then \<exists>data. esp_handle_uart_pattern pos (Some line) = Inr (AT_UNKNOW, Some data) \<and> cstr data = Inr hex
     else esp_handle_uart_pattern pos (Some line) = Inl Out_Of_Bounds"
proof -
  have nn: "NUL \<notin> set line"
    using assms(5) map_digits_no_nul [OF assms(3), of False] unfolding line_def by auto
  have colon: "CHR '':'' \<in> set line" by (simp add: line_def)
  have at: "Murata_decode line = AT_UNKNOW" using colon_not_description [OF colon] by simp
  have sc: "sscanf_port line = hex" unfolding line_def
    by (rule sscanf_port_line) (use assms in auto)
  have hexnn: "NUL \<notin> set hex" using assms(5) by auto
  have len: "length line = length ds + length hex + 3" by (simp add: line_def)
  have post: "strcpy_to (replicate 51 NUL) hex =
      (if length hex < 51 then Inr (hex @ NUL # replicate (50 - length hex) NUL) else Inl Out_Of_Bounds)"
    using hexnn by (simp add: strcpy_to_def Let_def del: replicate.simps)
  show ?thesis
  proof (cases "length line \<le> 51")
    case True
    let ?data = "take (length line) (hex @ NUL # replicate (50 - length hex) NUL)"
    have "?data = hex @ NUL # take (length line - Suc (length hex)) (replicate (50 - length hex) NUL)"
      using len by (simp add: take_Cons' del: replicate.simps)
    then have "cstr ?data = Inr hex" using hexnn by simp
    moreover have "esp_handle_uart_pattern pos (Some line) = Inr (AT_UNKNOW, Some ?data)"
      using assms(1,4) True len nn colon at
      by (simp add: esp_handle_uart_pattern_def Let_def sc post del: replicate.simps Murata_decode.simps)
    ultimately show ?thesis using True by auto
  next
    case False
    then have "esp_handle_uart_pattern pos (Some line) = Inl Out_Of_Bounds"
      using assms(1,4) nn colon
      by (simp add: esp_handle_uart_pattern_def Let_def sc post del: replicate.simps Murata_decode.simps)
    with False show ?thesis by simp
  qed
qed

text \<open>C28: A line \<open>port:data\<close> is delivered to the application as \<open>data\<close>, terminated, exactly when
  the whole line has at most 51 characters; a longer one overruns the 51-byte block, either
  when the text is stored or when the event copies as many bytes as the line has.\<close>

theorem received_message_delivered:
  assumes "pos \<noteq> - 1" "ds \<noteq> []" "\<forall>d \<in> set ds. d < 10" "hex \<noteq> []"
    and "\<forall>c \<in> set hex. \<not> c_isspace c \<and> c \<noteq> NUL"
  defines "line \<equiv> map (digit_char False) ds @ CHR '':'' # hex @ CRLF"
  shows "if length line \<le> 51
     then \<exists>data. esp_handle_uart_pattern pos (Some line) = Inr (AT_UNKNOW, Some data) \<and> cstr data = Inr hex
     else esp_handle_uart_pattern pos (Some line) = Inl Out_Of_Bounds"
  unfolding line_def by (rule uart_line_posted [OF assms(1-5)])

theorem received_message_delivered_witness:
  "(\<exists>data. esp_handle_uart_pattern 9 (Some (''2:960102'' @ CRLF)) = Inr (AT_UNKNOW, Some data)
      \<and> cstr data = Inr ''960102'')
    \<and> esp_handle_uart_pattern 60 (Some (''2:'' @ replicate 48 CHR ''0'' @ CRLF)) = Inl Out_Of_Bounds"
proof -
  have d: "map (digit_char False) [2] = ''2''" by code_simp
  have "\<not> c_isspace CHR ''0'' \<and> CHR ''0'' \<noteq> NUL" by (simp add: c_isspace_def)
  then have h: "\<forall>c \<in> set (replicate 48 CHR ''0''). \<not> c_isspace c \<and> c \<noteq> NUL"
    by (simp del: replicate.simps)
  have g: "\<forall>c \<in> set ''960102''. \<not> c_isspace c \<and> c \<noteq> NUL" by (simp add: c_isspace_def)
  show ?thesis
    using received_message_delivered [of 9 "[2]" "''960102''"]
      received_message_delivered [of 60 "[2]" "replicate 48 CHR ''0''", OF _ _ _ _ h] g d
    by (simp del: replicate.simps)
qed

end
