(* ===== verification/Lighting_Main.thy ===== *)
theory Lighting_Main
  imports Msg_Queue Hex_Tools LPP_Decoder Led_Driver Nmea_Parser
begin

text \<open>
  The application, \<open>main/main.c\<close>: the messages a lamp reports (\<open>add_queue_lpp_root\<close>,
  \<open>add_queue_infomation\<close>), those it takes over from the mesh (\<open>add_queue_lpp_node\<close>), the
  commands that arrive over LoRaWAN (\<open>cm_lorawan_event_handler\<close>), the task that hands
  queued messages to the modem and the timer of the working time. The globals are the
  record \<open>lighting\<close>. Calls of the LED driver, of \<open>save_led\<close> and of the mesh are recorded as
  lists in that state; what the sensor and the radio return are arguments. Library code
  that is not in the repository is the record \<open>env\<close>: the lookup of cJSON, the two address
  conversions of ESP-MDF, the station's addresses, the memory \<open>malloc (51)\<close> returns.
  \<open>pad\<close> is the number of bytes behind a too small array that may be overwritten without
  harm: 0 is the C standard, 1 is what the code needs in two places.
\<close>

section \<open>Surroundings and state\<close>

record env =
  json_get :: "json_item list \<Rightarrow> string \<Rightarrow> json_item option"
  mac_hex2str :: "u8 list \<Rightarrow> string"
  mac_str2hex :: "string \<Rightarrow> u8 list"
  sta_mac :: "u8 list"
  parent_bssid :: "u8 list"
  heap_block :: "u8 list"
  pad :: nat

record lighting =
  msgs :: msg_queue
  status_led :: led_status
  retry_count :: u8
  node_id_compare :: string
  counter_sec :: u8
  ble_cmd_to_gr :: bool
  recvb_form_ble :: string
  data_form_node :: string
  voltage_sl :: c_float
  position :: gps
  leds :: "ledc_call list"
  saved :: "led_status list"
  mesh_out :: "string list"

text \<open>\<open>sprintf (comp, "%s%02x", comp, mac[i])\<close> over the six bytes.\<close>

definition mac_string :: "u8 list \<Rightarrow> string" where
  "mac_string mac = print_bytes False mac"

fun valueint :: "json_item \<Rightarrow> int" where
  "valueint (AddNumber k v) = v"
| "valueint (AddString k s) = 0"

fun valuestring :: "json_item \<Rightarrow> fault + string" where
  "valuestring (AddNumber k v) = Inl Bad_Pointer"     \<comment> \<open>NULL, then read by \<open>strcmp\<close>\<close>
| "valuestring (AddString k s) = Inr s"

section \<open>Queueing a payload\<close>

text \<open>The loop of \<open>sprintf (strH + j, "%02X", buf[i])\<close> and the final terminator.\<close>

fun print_payload :: "u8 list \<Rightarrow> nat \<Rightarrow> string \<Rightarrow> fault + string" where
  "print_payload [] j strH = wr strH j NUL"
| "print_payload (b # bs) j strH =
     andthen (wr strH j (print_byte True b ! 0)) (\<lambda>s1.
     andthen (wr s1 (j + 1) (print_byte True b ! 1)) (\<lambda>s2.
     andthen (wr s2 (j + 2) NUL) (\<lambda>s3. print_payload bs (j + 2) s3)))"

definition queue_payload :: "env \<Rightarrow> lighting \<Rightarrow> cayenne \<Rightarrow> fault + lighting" where
  "queue_payload env st lpp =
     (let size = unat (CayenneLPP__getSize lpp) in
      andthen (print_payload (take size (CayenneLPP__getBuffer lpp)) 0 (replicate (size * 2 + pad env) NUL)) (\<lambda>strH.
      andthen (cstr strH) (\<lambda>s.
      andthen (enqueue (msgs st) s) (\<lambda>q. Inr (st\<lparr>msgs := q\<rparr>)))))"

definition error_code :: "c_float \<Rightarrow> c_float \<Rightarrow> u8" where
  "error_code voltage temperature =
     (let v = f_sub to_f64 voltage (Fin 3) in
      if f_less (Fin 41) v then 1
      else if f_less v (Fin 28) then 2
      else if f_less (Fin 80) temperature then 3
      else 0)"

definition model_field :: "u16 \<Rightarrow> lpp_field list" where
  "model_field m =
     (if m = 45 then [Model 1] else if m = 70 then [Model 2] else if m = 130 then [Model 3]
      else if m = 120 then [Model 4] else if m = 90 then [Model 5] else [])"

text \<open>The fields of the report up to the temperature, and those after the humidity.\<close>

definition root_fields1 :: "env \<Rightarrow> lighting \<Rightarrow> c_float \<Rightarrow> lpp_field list" where
  "root_fields1 env st temperature =
     [Node_ID (mac_string (sta_mac env)), Parent_ID (mac_string (parent_bssid env)),
      Color (mycolor (status_led st)), Light_Control (mybrightness (status_led st)),
      Temperature temperature]"

definition root_fields2 :: "lighting \<Rightarrow> int \<Rightarrow> c_float \<Rightarrow> int \<Rightarrow> lpp_field list" where
  "root_fields2 st humidity temperature rssi =
     [Relative_Humidity (to_f32 (of_int humidity)),
      Voltage (narrow (f_mul to_f64 (voltage_sl st) (Fin 10))),
      Power (word_of_int (uint (mybrightness (status_led st)) * uint (MODEL (status_led st)) div 100)),
      Error_Code (error_code (voltage_sl st) temperature),
      Gen (GEN (status_led st))]
     @ model_field (MODEL (status_led st))
     @ [Power_Index (word_of_int \<bar>rssi\<bar>), Actuation (ledworking (status_led st))]"

text \<open>The temperature is read twice, for its field and for the error code.\<close>

definition add_queue_lpp_root ::
  "env \<Rightarrow> lighting \<Rightarrow> c_float \<Rightarrow> c_float \<Rightarrow> c_float \<Rightarrow> int \<Rightarrow> fault + lighting" where
  "add_queue_lpp_root env st temperature humidity temperature2 rssi =
     andthen (lpp_ops (mac_str2hex env) (root_fields1 env st temperature)
                (CayenneLPP__create (heap_block env))) (\<lambda>lpp1.
     andthen (f_to_i32 humidity) (\<lambda>h.
     andthen (lpp_ops (mac_str2hex env) (root_fields2 st h temperature2 rssi) lpp1) (\<lambda>lpp.
     queue_payload env st lpp)))"

text \<open>\<open>rows\<close> is the uninitialised array inside \<open>array_to_num\<close>.\<close>

definition add_queue_infomation :: "env \<Rightarrow> lighting \<Rightarrow> string list \<Rightarrow> fault + lighting" where
  "add_queue_infomation env st rows =
     andthen (lpp_ops (mac_str2hex env)
                [Node_ID (mac_string (sta_mac env)),
                 GPS (latitude (position st)) (longitude (position st)) (Fin 0)]
                (CayenneLPP__create (heap_block env))) (\<lambda>lpp1.
     andthen (array_to_num (meshid (status_led st)) rows) (\<lambda>n.
     andthen (lpp_ops (mac_str2hex env)
                [Mesh_ID (word_of_int n), Mesh_CH (ucast (meshch (status_led st)))] lpp1) (\<lambda>lpp.
     queue_payload env st lpp)))"

section \<open>Messages of other lamps\<close>

text \<open>\<open>test\<close>, \<open>strlen\<close> and \<open>ParseCMLPP\<close> on a text, as both handlers call them.\<close>

definition decode_text :: "env \<Rightarrow> string \<Rightarrow> fault + json_item list" where
  "decode_text env text =
     andthen (test text (heap_block env)) (\<lambda>tmp.
     andthen (strlen8 tmp) (\<lambda>n.
     andthen (ParseCMLPP (mac_hex2str env) tmp (of_nat n)) (\<lambda>(_, Payload). Inr Payload)))"

definition add_queue_lpp_node :: "env \<Rightarrow> lighting \<Rightarrow> string \<Rightarrow> fault + lighting" where
  "add_queue_lpp_node env st node_info =
     (if node_info = '''' then Inr st
      else andthen (decode_text env node_info) (\<lambda>Payload.
      case json_get env Payload ''nodeid'' of
        None \<Rightarrow> Inr st
      | Some parent_mac \<Rightarrow>
          andthen (valuestring parent_mac) (\<lambda>nid.
          andthen (cstr (node_id_compare st)) (\<lambda>last.
          if nid = last then Inr (st\<lparr>retry_count := retry_count st + 1\<rparr>)
          else if unat (retry_count st) > 10 then
            andthen (strcpy_to (node_id_compare st) nid) (\<lambda>buf.
            andthen (enqueue (msgs st) node_info) (\<lambda>q.
            Inr (st\<lparr>retry_count := 0, node_id_compare := buf, msgs := q\<rparr>)))
          else
            andthen (strcpy_to (node_id_compare st) nid) (\<lambda>buf.
            andthen (enqueue (msgs st) node_info) (\<lambda>q.
            Inr (st\<lparr>retry_count := 0, node_id_compare := buf, msgs := q\<rparr>)))))))"

text \<open>\<open>for (i = 0; i < strlen (data_form_node); i++) data_form_node[i] = 0\<close>\<close>

function clear_loop :: "string \<Rightarrow> u8 \<Rightarrow> nat \<Rightarrow> fault + string" where
  "clear_loop buf i 0 = Inr buf"
| "clear_loop buf i (Suc fuel) =
     andthen (cstr buf) (\<lambda>s.
     if unat i < length s then andthen (wr buf (unat i) NUL) (\<lambda>buf'. clear_loop buf' (i + 1) fuel)
     else Inr buf)"
  by pat_completeness auto
termination
  by (relation "measure (\<lambda>(_, _, fuel). fuel)") auto

text \<open>One message received by \<open>root_read_task\<close> that is no firmware upgrade. The clearing loop
  ends after one round, two units of fuel are enough.\<close>

definition root_read :: "env \<Rightarrow> lighting \<Rightarrow> string \<Rightarrow> fault + lighting" where
  "root_read env st data =
     andthen (strcpy_to (data_form_node st) data) (\<lambda>buf.
     andthen (cstr buf) (\<lambda>s.
     andthen (add_queue_lpp_node env (st\<lparr>data_form_node := buf\<rparr>) s) (\<lambda>st1.
     andthen (clear_loop (data_form_node st1) 0 2) (\<lambda>buf'.
     Inr (st1\<lparr>data_form_node := buf'\<rparr>)))))"

section \<open>Commands from the network\<close>

text \<open>\<open>root_write_msg\<close> uses the text as the format of a \<open>sprintf\<close> without arguments: a
  percent sign stands for itself when doubled, any other conversion reads a missing argument.\<close>

fun format_text :: "string \<Rightarrow> fault + string" where
  "format_text [] = Inr []"
| "format_text (c # cs) =
     (if c \<noteq> CHR ''%'' then andthen (format_text cs) (\<lambda>t. Inr (c # t))
      else (case cs of
              [] \<Rightarrow> Inl Uninit_Read
            | d # ds \<Rightarrow> if d = CHR ''%'' then andthen (format_text ds) (\<lambda>t. Inr (d # t)) else Inl Uninit_Read))"

definition root_write_msg :: "lighting \<Rightarrow> string \<Rightarrow> fault + lighting" where
  "root_write_msg st val =
     andthen (format_text val) (\<lambda>data. Inr (st\<lparr>mesh_out := mesh_out st @ [data]\<rparr>))"

text \<open>\<open>Set_Color\<close>, \<open>Set_Brightness\<close>, the two assignments and \<open>save_led\<close>.\<close>

definition set_light :: "lighting \<Rightarrow> int \<Rightarrow> int \<Rightarrow> lighting" where
  "set_light st color brightness =
     (let led' = (status_led st)\<lparr>mycolor := word_of_int color, mybrightness := word_of_int brightness\<rparr>
      in st\<lparr>leds := leds st @ Set_Color (word_of_int color)
                    @ Set_Brightness (status_led st) (word_of_int brightness),
            status_led := led', saved := saved st @ [led']\<rparr>)"

text \<open>\<open>event\<close> is true for \<open>LORAWAN_UPDATE\<close>; \<open>event_data\<close> the text that came with it.\<close>

definition cm_lorawan_event_handler ::
  "env \<Rightarrow> lighting \<Rightarrow> string list \<Rightarrow> bool \<Rightarrow> string \<Rightarrow> fault + lighting" where
  "cm_lorawan_event_handler env st rows event event_data =
     (if \<not> event then Inr st
      else andthen (decode_text env event_data) (\<lambda>Payload.
      let get = json_get env Payload;
          comp_str_node = mac_string (sta_mac env)
      in case (get ''color'', get ''brightness'', get ''nodeid'', get ''type_control'') of
           (Some color, Some brightness, Some nodeid, Some type_control) \<Rightarrow>
             if valueint type_control = 1 then
               andthen (valuestring nodeid) (\<lambda>nid.
               if nid = comp_str_node then Inr (set_light st (valueint color) (valueint brightness))
               else root_write_msg st event_data)
             else if valueint type_control = 2 then
               andthen (valuestring nodeid) (\<lambda>nid.
               if nid = comp_str_node
               then root_write_msg (set_light st (valueint color) (valueint brightness)) event_data
               else Inr st)
             else Inr st
         | (Some color, Some brightness, Some nodeid, None) \<Rightarrow>
             andthen (valuestring nodeid) (\<lambda>nid.
             if nid = comp_str_node
             then root_write_msg (set_light st (valueint color) (valueint brightness)) event_data
             else Inr st)
         | (Some color, Some brightness, None, _) \<Rightarrow>
             Inr (set_light st (valueint color) (valueint brightness))
         | (_, _, nodeid, _) \<Rightarrow>
             (case get ''read_gps'' of
                None \<Rightarrow> Inr st
              | Some read_gps \<Rightarrow>
                  (case nodeid of
                     None \<Rightarrow> Inl Bad_Pointer
                   | Some nodeid \<Rightarrow>
                       andthen (valuestring nodeid) (\<lambda>nid.
                       if nid = comp_str_node
                       then (if valueint read_gps = 0xA5 then add_queue_infomation env st rows else Inr st)
                       else root_write_msg st event_data)))))"

section \<open>Towards the modem, and the working time\<close>

text \<open>One round of \<open>Brideg_LORAWAN_TX\<close>: the command handed to \<open>sendCMD\<close>, if any. \<open>r\<close> is the
  value of \<open>rand ()\<close>; \<open>BUFF_PAYLOAD\<close> has \<open>QUEUE_MAX_MSG_SIZE + 11\<close> bytes.\<close>

definition bridge_round :: "lighting \<Rightarrow> nat \<Rightarrow> fault + (string option \<times> lighting)" where
  "bridge_round st r =
     (if isEmpty (msgs st) then Inr (None, st)
      else andthen (print_queue (msgs st)) (\<lambda>_.
      andthen (take_msg (msgs st)) (\<lambda>(m, q).
      case m of None \<Rightarrow> Inr (None, st)
      | Some text \<Rightarrow>
          andthen (strcpy_to (replicate (QUEUE_MAX_MSG_SIZE + 11) NUL)
                     (''AT+SENDB='' @ print_int (int (r mod (10 + 1 - 1) + 1)) @ '':'' @ text @ [CHR 0x0A])) (\<lambda>buf.
          andthen (cstr buf) (\<lambda>cmd. Inr (Some cmd, st\<lparr>msgs := q\<rparr>))))))"

text \<open>\<open>streetlight_working\<close>, once a second; the arguments are the readings of the report.\<close>

definition streetlight_working ::
  "env \<Rightarrow> lighting \<Rightarrow> c_float \<Rightarrow> c_float \<Rightarrow> c_float \<Rightarrow> int \<Rightarrow> fault + lighting" where
  "streetlight_working env st temperature humidity temperature2 rssi =
     andthen
       (if counter_sec st = 59 then
          (let led' = (status_led st)\<lparr>ledworking := ledworking (status_led st) + 1\<rparr>
           in add_queue_lpp_root env (st\<lparr>status_led := led', saved := saved st @ [led'], counter_sec := 0\<rparr>)
                temperature humidity temperature2 rssi)
        else Inr (st\<lparr>counter_sec := counter_sec st + 1\<rparr>))
       (\<lambda>st1.
        if ble_cmd_to_gr st1 then
          andthen (cstr (recvb_form_ble st1)) (\<lambda>cmd.
          andthen (root_write_msg st1 cmd) (\<lambda>st2. Inr (st2\<lparr>ble_cmd_to_gr := False\<rparr>)))
        else Inr st1)"

end
