(* ===== verification/Lighting_Codec.thy ===== *)
theory Lighting_Codec
  imports Lighting_Main
begin

text \<open>
  How a text becomes the items of a message (\<open>test\<close>, \<open>strlen\<close>, \<open>ParseCMLPP\<close>), for the
  commands of the network and the reports of other lamps alike, and how the handlers look
  the items up. cJSON is a parameter; what the code relies on is \<open>finds_first\<close>, the first
  member of the name asked for, as its documentation says.
\<close>

section \<open>Looking up a member\<close>

fun json_key :: "json_item \<Rightarrow> string" where
  "json_key (AddNumber k v) = k"
| "json_key (AddString k s) = k"

definition finds_first :: "env \<Rightarrow> bool" where
  "finds_first env \<longleftrightarrow> (\<forall>js k. json_get env js k = find (\<lambda>i. json_key i = k) js)"

text \<open>The first item of each kind, as values of the message.\<close>

fun find_color :: "downlink_item list \<Rightarrow> u16 option" where
  "find_color [] = None"
| "find_color (i # is) = (case i of D_Color v \<Rightarrow> Some v | _ \<Rightarrow> find_color is)"

fun find_brightness :: "downlink_item list \<Rightarrow> u8 option" where
  "find_brightness [] = None"
| "find_brightness (i # is) = (case i of D_Brightness v \<Rightarrow> Some v | _ \<Rightarrow> find_brightness is)"

fun find_nodeid :: "downlink_item list \<Rightarrow> u8 list option" where
  "find_nodeid [] = None"
| "find_nodeid (i # is) = (case i of D_Nodeid bs \<Rightarrow> Some bs | _ \<Rightarrow> find_nodeid is)"

fun find_read_gps :: "downlink_item list \<Rightarrow> u8 option" where
  "find_read_gps [] = None"
| "find_read_gps (i # is) = (case i of D_Read_Gps v \<Rightarrow> Some v | _ \<Rightarrow> find_read_gps is)"

fun find_type :: "downlink_item list \<Rightarrow> u8 option" where
  "find_type [] = None"
| "find_type (i # is) = (case i of D_Type v \<Rightarrow> Some v | _ \<Rightarrow> find_type is)"

lemma find_items:
  "find (\<lambda>j. json_key j = ''color'') (items_json f is) = map_option (\<lambda>v. AddNumber ''color'' (uint v)) (find_color is)"
  "find (\<lambda>j. json_key j = ''brightness'') (items_json f is)
    = map_option (\<lambda>v. AddNumber ''brightness'' (uint v)) (find_brightness is)"
  "find (\<lambda>j. json_key j = ''nodeid'') (items_json f is)
    = map_option (\<lambda>bs. AddString ''nodeid'' (f bs)) (find_nodeid is)"
  "find (\<lambda>j. json_key j = ''read_gps'') (items_json f is)
    = map_option (\<lambda>v. AddNumber ''read_gps'' (uint v)) (find_read_gps is)"
  "find (\<lambda>j. json_key j = ''type_control'') (items_json f is)
    = map_option (\<lambda>v. AddNumber ''type_control'' (uint v)) (find_type is)"
  by (induction "is"; simp split: downlink_item.splits)+

lemma lookup_items:
  assumes "finds_first env"
  shows "json_get env (items_json f is) ''color'' = map_option (\<lambda>v. AddNumber ''color'' (uint v)) (find_color is)"
    "json_get env (items_json f is) ''brightness''
      = map_option (\<lambda>v. AddNumber ''brightness'' (uint v)) (find_brightness is)"
    "json_get env (items_json f is) ''nodeid''
      = map_option (\<lambda>bs. AddString ''nodeid'' (f bs)) (find_nodeid is)"
    "json_get env (items_json f is) ''read_gps''
      = map_option (\<lambda>v. AddNumber ''read_gps'' (uint v)) (find_read_gps is)"
    "json_get env (items_json f is) ''type_control''
      = map_option (\<lambda>v. AddNumber ''type_control'' (uint v)) (find_type is)"
  using assms by (simp_all add: finds_first_def find_items)

section \<open>Decoding a text\<close>

text \<open>The decoder does not look behind the length it is told.\<close>

lemma parse_items_within:
  assumes "\<forall>i \<in> set is. item_wf i" "length (items_bytes is) \<le> unat Len"
  shows "parse_loop f (items_bytes is @ r) Len js
    = parse_loop f r (Len - of_nat (length (items_bytes is))) (js @ items_json f is)"
  using assms
proof (induction "is" arbitrary: Len js)
  case Nil
  then show ?case by simp
next
  case (Cons i "is")
  let ?k = "length (item_bytes i)"
  have k: "?k \<le> unat Len" using Cons.prems(2) by simp
  have "length (items_bytes is) \<le> unat (Len - of_nat ?k)"
    using unat_Len_minus [OF k] Cons.prems(2) by simp
  from Cons.IH [OF _ this] parse_item [of i Len f "items_bytes is @ r" js] k Cons.prems(1)
  show ?case by (simp add: diff_diff_eq)
qed

lemma parse_stuck_within:
  assumes "\<not> starts_item r" "length r = unat Len"
  shows "parse_loop f (r @ x) Len js = Inr (r = [], js)"
proof (cases r)
  case Nil
  then have "unat Len = 0" using assms(2) by simp
  then show ?thesis using Nil by (simp add: parse_loop.simps [of f x] unat_eq_0)
next
  case (Cons t q)
  note short = starts_item_sizes [OF assms(1) [unfolded Cons]]
  have Len: "unat Len = Suc (length q)" "Len \<noteq> 0" using Cons assms(2) by auto
  show ?thesis
    by (cases "q = []") (use short in \<open>auto simp: parse_loop.simps [of f "_ # _"] Cons Len\<close>)
qed

lemma ParseCMLPP_within:
  assumes "\<forall>i \<in> set is. item_wf i" "\<not> starts_item r" "length (items_bytes is @ r) = unat Len"
  shows "ParseCMLPP f (items_bytes is @ r @ x) Len = Inr (r = [], items_json f is)"
proof -
  have k: "length (items_bytes is) \<le> unat Len" using assms(3) by simp
  have "length r = unat (Len - of_nat (length (items_bytes is)))"
    using unat_Len_minus [OF k] assms(3) by simp
  from parse_stuck_within [OF assms(2) this] parse_items_within [OF assms(1) k, of f "r @ x" "[]"]
  show ?thesis by (simp add: ParseCMLPP_def)
qed

text \<open>What a text decodes to: the items at the front of its bytes up to the first zero byte.\<close>

lemma decode_text_items:
  assumes "NUL \<notin> set txt" "length txt div 2 < length (heap_block env)" "length txt div 2 < 256"
    and "takeWhile (\<lambda>b. b \<noteq> 0) (unhex txt) = items_bytes is @ r"
    and "\<forall>i \<in> set is. item_wf i" "\<not> starts_item r"
  shows "decode_text env txt = Inr (items_json (mac_hex2str env) is)"
proof -
  let ?p = "takeWhile (\<lambda>b. b \<noteq> 0) (unhex txt)"
  let ?d = "drop (Suc (length txt div 2)) (heap_block env)"
  let ?tmp = "unhex txt @ 0 # ?d"
  have test: "test txt (heap_block env) = Inr ?tmp" using test_spec [OF assms(1)] assms(2) by simp
  have tw: "takeWhile (\<lambda>b. b \<noteq> 0) ?tmp = ?p" by (rule takeWhile_stop) simp
  obtain x where x: "?tmp = ?p @ x" using takeWhile_dropWhile_id [of "\<lambda>b. b \<noteq> 0" ?tmp] tw by metis
  have "length ?p \<le> length (unhex txt)" by (rule length_takeWhile_le)
  then have n: "unat (of_nat (length ?p) :: u8) = length ?p" using assms(3) by (simp add: unat_of_nat)
  have "ParseCMLPP (mac_hex2str env) (items_bytes is @ r @ x) (of_nat (length ?p))
      = Inr (r = [], items_json (mac_hex2str env) is)"
    using ParseCMLPP_within [OF assms(5,6)] n assms(4) by metis
  then have "ParseCMLPP (mac_hex2str env) ?tmp (of_nat (length ?p))
      = Inr (r = [], items_json (mac_hex2str env) is)"
    unfolding x assms(4) by simp
  moreover have "strlen8 ?tmp = Inr (length ?p)" using tw by (simp add: strlen8_def)
  ultimately show ?thesis by (simp add: decode_text_def test)
qed

lemma decode_text_overrun:
  assumes "NUL \<notin> set txt" "length (heap_block env) \<le> length txt div 2"
  shows "decode_text env txt = Inl Out_Of_Bounds"
  using test_spec [OF assms(1)] assms(2) by (simp add: decode_text_def)

text \<open>A command as the network sends it: the hexadecimal text of items without a zero byte.\<close>

lemma decode_items_text:
  assumes "\<forall>i \<in> set is. item_wf i" "0 \<notin> set (items_bytes is)"
    "length (items_bytes is) < length (heap_block env)" "length (heap_block env) \<le> 256"
  shows "decode_text env (print_bytes up (items_bytes is)) = Inr (items_json (mac_hex2str env) is)"
proof (rule decode_text_items [where r = "[]"])
  show "takeWhile (\<lambda>b. b \<noteq> 0) (unhex (print_bytes up (items_bytes is))) = items_bytes is @ []"
    using assms(2) by (simp add: takeWhile_eq_all_conv) metis
qed (use assms in auto)

section \<open>Examples\<close>

text \<open>An environment and a lamp for the examples: the two address conversions are
  hexadecimal, one byte may be stored behind an array.\<close>

definition sample_env :: env where
  "sample_env = \<lparr>json_get = (\<lambda>js k. find (\<lambda>i. json_key i = k) js), mac_hex2str = print_bytes False,
     mac_str2hex = unhex, sta_mac = [180, 230, 45, 222, 38, 49], parent_bssid = [151, 24, 216, 41, 97, 29],
     heap_block = replicate 51 0, pad = 1\<rparr>"

definition sample_lamp :: lighting where
  "sample_lamp = \<lparr>msgs = queue_init (replicate 32 (replicate 127 NUL)), status_led = default_profile,
     retry_count = 0, node_id_compare = replicate 13 NUL, counter_sec = 59, ble_cmd_to_gr = False,
     recvb_form_ble = replicate 32 NUL, data_form_node = replicate 128 NUL, voltage_sl = Fin 36,
     position = zero_gps, leds = [], saved = [], mesh_out = []\<rparr>"

lemma sample_ring: "ring_ok 32 (msgs sample_lamp)" "queue_items (msgs sample_lamp) = []"
  using createQueue_ok [of 32 "replicate 32 (replicate 127 NUL)"] queue_init_inv(2)
  by (simp_all add: sample_lamp_def queue_init_def)

lemma sample_env_facts [simp]:
  "finds_first sample_env" "length (heap_block sample_env) = 51" "pad sample_env = 1"
  "mac_hex2str sample_env = print_bytes False" "mac_str2hex sample_env = unhex"
  "sta_mac sample_env = [180, 230, 45, 222, 38, 49]"
  by (simp_all add: sample_env_def finds_first_def)

lemma sample_lamp_facts [simp]:
  "length (node_id_compare sample_lamp) = 13" "cstr (node_id_compare sample_lamp) = Inr []"
  "counter_sec sample_lamp = 59" "\<not> ble_cmd_to_gr sample_lamp" "voltage_sl sample_lamp = Fin 36"
  "status_led sample_lamp = default_profile" "mesh_out sample_lamp = []"
  by (simp_all add: sample_lamp_def cstr_def upto_nul_def)

end
