(* ===== verification/Lighting_Uplink.thy ===== *)
theory Lighting_Uplink
  imports Lighting_Codec
begin

text \<open>
  What the lamp sends: the two reports as they reach the queue, the reports of other lamps
  with their suppression of repetitions, the command handed to the modem and the timer of
  the working time. The queue is used through its contract only, the interpretation
  \<open>ring\<close> of \<open>bounded_fifo\<close>.
\<close>

section \<open>Payload to text\<close>

lemma print_payload_ok:
  "j + 2 * length bs < length strH \<Longrightarrow>
    print_payload bs j strH =
      Inr (take j strH @ print_bytes True bs @ NUL # drop (Suc (j + 2 * length bs)) strH)"
proof (induction bs j strH rule: print_payload.induct)
  case (1 j strH)
  then show ?case by (simp add: upd_conv_take_nth_drop)
next
  case (2 b bs j strH)
  have len: "j < length strH" "Suc j < length strH" "Suc (Suc j) < length strH" using 2(2) by auto
  let ?a = "print_byte True b ! 0" and ?b = "print_byte True b ! 1"
  let ?s = "strH[j := ?a, Suc j := ?b, Suc (Suc j) := NUL]"
  have ab: "print_bytes True (b # bs) = [?a, ?b] @ print_bytes True bs"
    by (simp add: print_bytes_def print_byte_def)
  have "print_payload (b # bs) j strH = print_payload bs (j + 2) ?s" using len by simp
  also have "\<dots> = Inr (take (j + 2) ?s @ print_bytes True bs @ NUL # drop (Suc (j + 2 + 2 * length bs)) ?s)"
    using 2(1) [of "strH[j := ?a]" "strH[j := ?a, Suc j := ?b]" ?s] 2(2) len by simp
  also have "take (j + 2) ?s = take j strH @ [?a, ?b]"
    using len by (simp add: take_Suc_conv_app_nth)
  also have "drop (Suc (j + 2 + 2 * length bs)) ?s = drop (Suc (j + 2 * length (b # bs))) strH"
    by (simp add: drop_update_cancel)
  finally show ?case by (simp only: ab append_assoc)
qed

lemma print_payload_overrun:
  "length strH = j + 2 * length bs \<Longrightarrow> print_payload bs j strH = Inl Out_Of_Bounds"
proof (induction bs j strH rule: print_payload.induct)
  case (1 j strH)
  then show ?case by simp
next
  case (2 b bs j strH)
  let ?a = "print_byte True b ! 0" and ?b = "print_byte True b ! 1"
  have len: "j < length strH" "Suc j < length strH" using 2(2) by auto
  show ?case
  proof (cases bs)
    case Nil
    then show ?thesis using 2(2) by simp
  next
    case (Cons c cs)
    then have "Suc (Suc j) < length strH" using 2(2) by simp
    with 2(1) [of "strH[j := ?a]" "strH[j := ?a, Suc j := ?b]"] 2(2) len show ?thesis by simp
  qed
qed

text \<open>Both reports end in the same way: without a spare byte behind \<open>strH\<close> the final
  terminator is out of bounds, with one the text of the payload is enqueued.\<close>

lemma queue_payload_spec:
  assumes "lpp_wf n lpp"
  shows "queue_payload env st lpp =
    (if pad env = 0 then Inl Out_Of_Bounds
     else andthen (enqueue (msgs st) (print_bytes True (payload lpp))) (\<lambda>q. Inr (st\<lparr>msgs := q\<rparr>)))"
proof -
  let ?n = "unat (lpp_cursor lpp)"
  have pl: "take ?n (lpp_buffer lpp) = payload lpp" "length (payload lpp) = ?n"
    using assms by (simp_all add: payload_def lpp_wf_def)
  show ?thesis
  proof (cases "pad env")
    case 0
    then show ?thesis using print_payload_overrun [of "replicate (?n * 2) NUL" 0 "payload lpp"] pl
      by (simp add: queue_payload_def CayenneLPP__getSize_def CayenneLPP__getBuffer_def Let_def)
  next
    case (Suc k)
    have "print_payload (payload lpp) 0 (replicate (?n * 2 + pad env) NUL) =
        Inr (print_bytes True (payload lpp) @ NUL # replicate k NUL)"
      using print_payload_ok [of 0 "payload lpp" "replicate (?n * 2 + pad env) NUL"] pl Suc
      by (simp del: replicate_Suc)
    then show ?thesis using pl Suc
      by (simp add: queue_payload_def CayenneLPP__getSize_def CayenneLPP__getBuffer_def Let_def)
  qed
qed

lemma lpp_ops_split: "lpp_ops m (fs @ gs) self = andthen (lpp_ops m fs self) (lpp_ops m gs)"
  by (induction fs arbitrary: self) (simp_all add: andthen_assoc case_prod_unfold)

lemma report_spec:
  assumes "list_all2 (\<lambda>f bs. lpp_encode m f = Inr bs) fs bss"
    and "length (concat bss) \<le> length block" "length block < 255"
  shows "\<exists>lpp. lpp_ops m fs (CayenneLPP__create block) = Inr lpp \<and> lpp_wf (length block) lpp
    \<and> payload lpp = concat bss"
proof -
  have "unat (lpp_cursor (CayenneLPP__create block)) + length (concat bss) \<le> length block"
    using assms(2) by (simp add: CayenneLPP__create_def)
  from lpp_ops_append [OF assms(1) create_wf(1) assms(3) this] show ?thesis by (simp add: create_wf(2))
qed

text \<open>Lengths of the encodings.\<close>

fun lpp_length :: "lpp_field \<Rightarrow> nat" where
  "lpp_length (Actuation v) = 7"
| "lpp_length (Voltage v) = 3"
| "lpp_length (GPS x y z) = 10"
| "lpp_length (Accelerometer x y z) = 7" | "lpp_length (Gyrometer x y z) = 7"
| "lpp_length (Digital_Input v) = 2" | "lpp_length (Digital_Output v) = 2"
| "lpp_length (Presence v) = 2" | "lpp_length (Relative_Humidity v) = 2"
| "lpp_length (Analog_Input v) = 3" | "lpp_length (Analog_Output v) = 3"
| "lpp_length (Luminosity v) = 3" | "lpp_length (Temperature v) = 3"
| "lpp_length (Barometric_Pressure v) = 3"
| "lpp_length f = lpp_declared f"

lemma encoded_length: "lpp_encode m f = Inr bs \<Longrightarrow> length bs = lpp_length f"
  by (cases f) (auto simp: scaled_def scaled3_def andthen_eq_Inr)

lemma encoded_lengths:
  "list_all2 (\<lambda>f bs. lpp_encode m f = Inr bs) fs bss \<Longrightarrow>
    length (concat bss) = sum_list (map lpp_length fs)"
  by (induction fs bss rule: list_all2_induct) (simp_all add: encoded_length)

definition root_fields :: "env \<Rightarrow> lighting \<Rightarrow> c_float \<Rightarrow> int \<Rightarrow> c_float \<Rightarrow> int \<Rightarrow> lpp_field list" where
  "root_fields env st temperature h temperature2 rssi =
     root_fields1 env st temperature @ root_fields2 st h temperature2 rssi"

definition known_model :: "lighting \<Rightarrow> bool" where
  "known_model st \<longleftrightarrow> MODEL (status_led st) \<in> {45, 70, 90, 120, 130}"

lemma root_length:
  assumes "list_all2 (\<lambda>f bs. lpp_encode m f = Inr bs) (root_fields env st t h t2 rssi) bss"
  shows "length (concat bss) = (if known_model st then 45 else 43)"
proof -
  have "sum_list (map lpp_length (model_field (MODEL (status_led st)))) = (if known_model st then 2 else 0)"
    by (simp add: model_field_def known_model_def)
  then show ?thesis using encoded_lengths [OF assms]
    by (simp add: root_fields_def root_fields1_def root_fields2_def)
qed

lemma clip_id: "NUL \<notin> set s \<Longrightarrow> length s < QUEUE_MAX_MSG_SIZE \<Longrightarrow> clip_msg s = s"
  by (simp add: clip_msg_def)

text \<open>A message put into the queue, as the state the callers go on with.\<close>

definition queued :: "nat \<Rightarrow> lighting \<Rightarrow> string \<Rightarrow> lighting \<Rightarrow> bool" where
  "queued n st text st' \<longleftrightarrow> (\<exists>q. st' = st\<lparr>msgs := q\<rparr> \<and> ring_ok n q
     \<and> queue_items q = (if length (queue_items (msgs st)) < n then queue_items (msgs st) @ [text]
                        else queue_items (msgs st)))"

lemma queue_report:
  assumes "lpp_wf k lpp" "ring_ok n (msgs st)" "length (payload lpp) \<le> 63"
  shows "if pad env = 0 then queue_payload env st lpp = Inl Out_Of_Bounds
    else \<exists>st'. queue_payload env st lpp = Inr st' \<and> queued n st (print_bytes True (payload lpp)) st'"
proof -
  let ?t = "print_bytes True (payload lpp)"
  have "clip_msg ?t = ?t" using assms(3) by (intro clip_id) simp_all
  then show ?thesis
    using ring.put_law [OF assms(2), of ?t] queue_payload_spec [OF assms(1), of env st]
    by (auto simp: queued_def)
qed

lemma add_queue_lpp_root_spec:
  assumes h: "f_to_i32 humidity = Inr h"
    and enc: "list_all2 (\<lambda>f bs. lpp_encode (mac_str2hex env) f = Inr bs)
      (root_fields env st temperature h temperature2 rssi) bss"
    and block: "length (heap_block env) = 51" and ring: "ring_ok n (msgs st)"
  shows "if pad env = 0
    then add_queue_lpp_root env st temperature humidity temperature2 rssi = Inl Out_Of_Bounds
    else \<exists>st'. add_queue_lpp_root env st temperature humidity temperature2 rssi = Inr st'
      \<and> queued n st (print_bytes True (concat bss)) st'"
proof -
  let ?m = "mac_str2hex env"
  have len: "length (concat bss) \<le> 45" using root_length [OF enc] by simp
  obtain lpp where lpp: "lpp_ops ?m (root_fields env st temperature h temperature2 rssi)
      (CayenneLPP__create (heap_block env)) = Inr lpp" "lpp_wf 51 lpp" "payload lpp = concat bss"
    using report_spec [OF enc, of "heap_block env"] len block by auto
  then obtain lpp1 where
      "lpp_ops ?m (root_fields1 env st temperature) (CayenneLPP__create (heap_block env)) = Inr lpp1"
      "lpp_ops ?m (root_fields2 st h temperature2 rssi) lpp1 = Inr lpp"
    by (auto simp: root_fields_def lpp_ops_split andthen_eq_Inr)
  then have "add_queue_lpp_root env st temperature humidity temperature2 rssi = queue_payload env st lpp"
    by (simp add: add_queue_lpp_root_def h)
  then show ?thesis using queue_report [OF lpp(2) ring, of env] lpp(3) len by (auto split: if_splits)
qed

section \<open>Towards the modem\<close>

definition send_command :: "nat \<Rightarrow> string \<Rightarrow> string" where
  "send_command port m = ''AT+SENDB='' @ print_int (int port) @ '':'' @ m @ [CHR 0x0A]"

lemma print_int_no_nul: "NUL \<notin> set (print_int i)"
  using print_base_no_nul [of 10 "nat i"] print_base_no_nul [of 10 "nat (- i)"]
  by (simp add: print_int_def)

lemma queue_items_no_nul: "m \<in> set (queue_items q) \<Longrightarrow> NUL \<notin> set m"
  by (auto simp: queue_items_def)

lemma bridge_round_spec:
  assumes ring: "ring_ok n (msgs st)" and items: "queue_items (msgs st) = m # ms"
  shows "if length (print_int (int (r mod 10 + 1))) + length m \<le> 126
    then \<exists>q. bridge_round st r = Inr (Some (send_command (r mod 10 + 1) m), st\<lparr>msgs := q\<rparr>)
      \<and> ring_ok n q \<and> queue_items q = ms
    else bridge_round st r = Inl Out_Of_Bounds"
proof -
  let ?c = "send_command (r mod 10 + 1) m"
  have nul: "NUL \<notin> set ?c"
    using queue_items_no_nul [of m "msgs st"] print_int_no_nul items by (auto simp: send_command_def)
  have ne: "\<not> isEmpty (msgs st)" by (simp add: isEmpty_iff items)
  obtain l where l: "print_queue (msgs st) = Inr l" using print_queue_ok [OF ring] by blast
  obtain q where q: "take_msg (msgs st) = Inr (Some m, q)" "ring_ok n q" "queue_items q = ms"
    using ring.get_law [OF ring] by (auto simp: items)
  have run: "bridge_round st r = andthen (strcpy_to (replicate (QUEUE_MAX_MSG_SIZE + 11) NUL) ?c) (\<lambda>buf.
      andthen (cstr buf) (\<lambda>cmd. Inr (Some cmd, st\<lparr>msgs := q\<rparr>)))"
    by (simp add: bridge_round_def ne l q(1) send_command_def)
  have "length ?c = 11 + length (print_int (int (r mod 10 + 1))) + length m"
    by (simp add: send_command_def)
  moreover have "strcpy_to (replicate (QUEUE_MAX_MSG_SIZE + 11) NUL) ?c =
      (if length ?c < 138 then Inr (?c @ NUL # drop (Suc (length ?c)) (replicate 138 NUL)) else Inl Out_Of_Bounds)"
    using nul by (simp add: strcpy_to_def Let_def del: replicate.simps drop_replicate)
  ultimately show ?thesis using q(2,3) nul
    by (cases "length ?c < 138") (auto simp: run intro!: exI [of _ q])
qed

section \<open>Reports of other lamps\<close>

text \<open>A text that decodes to a report of the lamp \<open>nid\<close>.\<close>

definition report_of :: "env \<Rightarrow> string \<Rightarrow> string \<Rightarrow> bool" where
  "report_of env nid text \<longleftrightarrow> text \<noteq> '''' \<and> NUL \<notin> set nid \<and> length nid = 12 \<and>
     (\<exists>Payload k. decode_text env text = Inr Payload \<and> json_get env Payload ''nodeid'' = Some (AddString k nid))"

lemma node_report_step:
  assumes rep: "report_of env nid text" and prev: "cstr (node_id_compare st) = Inr prev"
    and ring: "ring_ok n (msgs st)"
  shows "if nid = prev then add_queue_lpp_node env st text = Inr (st\<lparr>retry_count := retry_count st + 1\<rparr>)
    else if length (node_id_compare st) \<le> 12 then add_queue_lpp_node env st text = Inl Out_Of_Bounds
    else \<exists>q buf. add_queue_lpp_node env st text = Inr (st\<lparr>retry_count := 0, node_id_compare := buf, msgs := q\<rparr>)
      \<and> cstr buf = Inr nid \<and> length buf = length (node_id_compare st) \<and> ring_ok n q
      \<and> queue_items q = (if length (queue_items (msgs st)) < n then queue_items (msgs st) @ [clip_msg text]
                        else queue_items (msgs st))"
proof -
  obtain Payload k where dec: "decode_text env text = Inr Payload"
      "json_get env Payload ''nodeid'' = Some (AddString k nid)"
    and nid: "text \<noteq> ''''" "NUL \<notin> set nid" "length nid = 12"
    using rep by (auto simp: report_of_def)
  obtain q where q: "enqueue (msgs st) text = Inr q" "ring_ok n q"
    "queue_items q = (if length (queue_items (msgs st)) < n then queue_items (msgs st) @ [clip_msg text]
                        else queue_items (msgs st))"
    using ring.put_law [OF ring] by blast
  let ?buf = "nid @ NUL # drop 13 (node_id_compare st)"
  have "strcpy_to (node_id_compare st) nid = (if 12 < length (node_id_compare st)
      then Inr ?buf else Inl Out_Of_Bounds)"
    using nid by (simp add: strcpy_to_def Let_def)
  then have run: "add_queue_lpp_node env st text =
      (if nid = prev then Inr (st\<lparr>retry_count := retry_count st + 1\<rparr>)
       else if length (node_id_compare st) \<le> 12 then Inl Out_Of_Bounds
       else Inr (st\<lparr>retry_count := 0, node_id_compare := ?buf, msgs := q\<rparr>))"
    using nid q(1) by (simp add: add_queue_lpp_node_def dec prev)
  show ?thesis
  proof (cases "nid = prev \<or> length (node_id_compare st) \<le> 12")
    case True
    then show ?thesis by (auto simp: run)
  next
    case False
    moreover have "cstr ?buf = Inr nid" using nid(2) by simp
    moreover have "length ?buf = length (node_id_compare st)" using nid(3) False by auto
    ultimately show ?thesis using q(2,3) run by (auto intro!: exI [of _ q] exI [of _ ?buf])
  qed
qed

text \<open>The reference: a report is kept unless the one before came from the same lamp.\<close>

fun fresh_reports :: "string \<Rightarrow> (string \<times> string) list \<Rightarrow> string list" where
  "fresh_reports prev [] = []"
| "fresh_reports prev ((nid, text) # rs) =
     (if nid = prev then fresh_reports prev rs else text # fresh_reports nid rs)"

section \<open>The timer of the working time\<close>

text \<open>The three conversions of a report that can fail.\<close>

definition reportable :: "(string \<Rightarrow> u8 list) \<Rightarrow> c_float \<Rightarrow> c_float \<Rightarrow> c_float \<Rightarrow> bool" where
  "reportable m voltage temperature humidity \<longleftrightarrow> (\<exists>h bt bh bv. f_to_i32 humidity = Inr h
     \<and> lpp_encode m (Temperature temperature) = Inr bt
     \<and> lpp_encode m (Relative_Humidity (to_f32 (of_int h))) = Inr bh
     \<and> lpp_encode m (Voltage (narrow (f_mul to_f64 voltage (Fin 10)))) = Inr bv)"

lemma encode_all:
  "(\<And>f. f \<in> set fs \<Longrightarrow> \<exists>bs. lpp_encode m f = Inr bs) \<Longrightarrow>
    \<exists>bss. list_all2 (\<lambda>f bs. lpp_encode m f = Inr bs) fs bss"
proof (induction fs)
  case Nil
  then show ?case by simp
next
  case (Cons f fs)
  then obtain bs bss where "lpp_encode m f = Inr bs" "list_all2 (\<lambda>f bs. lpp_encode m f = Inr bs) fs bss"
    by (metis list.set_intros)
  then show ?case by (intro exI [of _ "bs # bss"]) simp
qed

lemma reportable_encodes:
  assumes "reportable (mac_str2hex env) (voltage_sl st) temperature humidity"
  shows "\<exists>h bss. f_to_i32 humidity = Inr h \<and> list_all2 (\<lambda>f bs. lpp_encode (mac_str2hex env) f = Inr bs)
    (root_fields env st temperature h temperature2 rssi) bss"
proof -
  obtain h bt bh bv where h: "f_to_i32 humidity = Inr h"
      "lpp_encode (mac_str2hex env) (Temperature temperature) = Inr bt"
      "lpp_encode (mac_str2hex env) (Relative_Humidity (to_f32 (of_int h))) = Inr bh"
      "lpp_encode (mac_str2hex env) (Voltage (narrow (f_mul to_f64 (voltage_sl st) (Fin 10)))) = Inr bv"
    using assms by (auto simp: reportable_def)
  have "\<exists>bs. lpp_encode (mac_str2hex env) f = Inr bs"
    if "f \<in> set (root_fields env st temperature h temperature2 rssi)" for f
    using that h(2-4)
    by (auto simp: root_fields_def root_fields1_def root_fields2_def model_field_def
        simp del: lpp_encode.simps(7,8,21) split: if_splits)
  from encode_all [of "root_fields env st temperature h temperature2 rssi", OF this] h(1)
  show ?thesis by blast
qed

type_synonym reading = "c_float \<times> c_float \<times> c_float \<times> int"

fun ticks :: "env \<Rightarrow> lighting \<Rightarrow> reading list \<Rightarrow> fault + lighting" where
  "ticks env st [] = Inr st"
| "ticks env st ((temperature, humidity, temperature2, rssi) # rs) =
     andthen (streetlight_working env st temperature humidity temperature2 rssi) (\<lambda>st1. ticks env st1 rs)"

definition timer_ok :: "env \<Rightarrow> nat \<Rightarrow> lighting \<Rightarrow> bool" where
  "timer_ok env n st \<longleftrightarrow> 0 < pad env \<and> length (heap_block env) = 51 \<and> ring_ok n (msgs st)
     \<and> \<not> ble_cmd_to_gr st \<and> unat (counter_sec st) < 60"

lemma tick_step:
  assumes ok: "timer_ok env n st"
    and rep: "reportable (mac_str2hex env) (voltage_sl st) temperature humidity"
  shows "\<exists>st1. streetlight_working env st temperature humidity temperature2 rssi = Inr st1
    \<and> timer_ok env n st1 \<and> voltage_sl st1 = voltage_sl st
    \<and> (if unat (counter_sec st) = 59
       then counter_sec st1 = 0 \<and> ledworking (status_led st1) = ledworking (status_led st) + 1
       else unat (counter_sec st1) = Suc (unat (counter_sec st)) \<and> status_led st1 = status_led st)"
proof (cases "unat (counter_sec st) = 59")
  case True
  then have c: "counter_sec st = 59" using word_unat_eq_iff [of "counter_sec st" 59] by simp
  let ?led = "(status_led st)\<lparr>ledworking := ledworking (status_led st) + 1\<rparr>"
  let ?st = "st\<lparr>status_led := ?led, saved := saved st @ [?led], counter_sec := 0\<rparr>"
  have "reportable (mac_str2hex env) (voltage_sl ?st) temperature humidity" using rep by simp
  from reportable_encodes [OF this, of temperature2 rssi]
  obtain h bss where "f_to_i32 humidity = Inr h" "list_all2 (\<lambda>f bs. lpp_encode (mac_str2hex env) f = Inr bs)
      (root_fields env ?st temperature h temperature2 rssi) bss" by blast
  from add_queue_lpp_root_spec [OF this, of n] ok
  obtain st1 where "add_queue_lpp_root env ?st temperature humidity temperature2 rssi = Inr st1"
      "queued n ?st (print_bytes True (concat bss)) st1"
    by (auto simp: timer_ok_def split: if_splits)
  then show ?thesis using ok c True by (auto simp: streetlight_working_def queued_def timer_ok_def Let_def)
next
  case False
  then have c: "counter_sec st \<noteq> 59" by auto
  have "unat (counter_sec st + 1) = Suc (unat (counter_sec st))"
    by (rule unat_inc_small) (use ok in \<open>simp add: timer_ok_def\<close>)
  then show ?thesis using ok c False by (auto simp: streetlight_working_def timer_ok_def)
qed

lemma ticks_count:
  assumes "timer_ok env n st"
    and "\<forall>(temperature, humidity, temperature2, rssi) \<in> set rs.
      reportable (mac_str2hex env) (voltage_sl st) temperature humidity"
  shows "\<exists>st'. ticks env st rs = Inr st' \<and> timer_ok env n st'
    \<and> unat (counter_sec st') = (unat (counter_sec st) + length rs) mod 60
    \<and> ledworking (status_led st') = ledworking (status_led st)
        + of_nat ((unat (counter_sec st) + length rs) div 60)"
  using assms
proof (induction rs arbitrary: st)
  case Nil
  then show ?case by (simp add: timer_ok_def)
next
  case (Cons r rs)
  obtain t h t2 rssi where r: "r = (t, h, t2, rssi)" by (cases r)
  obtain st1 where st1: "streetlight_working env st t h t2 rssi = Inr st1" "timer_ok env n st1"
      "voltage_sl st1 = voltage_sl st"
      "if unat (counter_sec st) = 59
       then counter_sec st1 = 0 \<and> ledworking (status_led st1) = ledworking (status_led st) + 1
       else unat (counter_sec st1) = Suc (unat (counter_sec st)) \<and> status_led st1 = status_led st"
    using tick_step [OF Cons.prems(1), of t h t2 rssi] Cons.prems(2) by (auto simp: r)
  obtain st' where st': "ticks env st1 rs = Inr st'" "timer_ok env n st'"
      "unat (counter_sec st') = (unat (counter_sec st1) + length rs) mod 60"
      "ledworking (status_led st') = ledworking (status_led st1)
        + of_nat ((unat (counter_sec st1) + length rs) div 60)"
    using Cons.IH [OF st1(2)] Cons.prems(2) st1(3) by auto
  have run: "ticks env st (r # rs) = Inr st'" using st1(1) st'(1) by (simp add: r)
  show ?case
  proof (cases "unat (counter_sec st) = 59")
    case True
    then have "(unat (counter_sec st) + length (r # rs)) div 60 = Suc (length rs div 60)"
        "(unat (counter_sec st) + length (r # rs)) mod 60 = length rs mod 60" by simp_all
    then show ?thesis using run st' st1(4) True by (intro exI [of _ st']) simp
  next
    case False
    then show ?thesis using run st' st1(4) by (intro exI [of _ st']) simp
  qed
qed

section \<open>Properties\<close>

lemma sample_reportable: "reportable m (voltage_sl sample_lamp) (Fin 25) (Fin 60)"
  using to_f32_int [of 250] to_f32_int [of 60] to_f32_int [of 120] to_f64_int [of 360]
    to_f32_int [of 360] to_f32_int [of 3600]
  by (simp add: reportable_def scaled_def scale16_def f_to_i32_def f_to_u8_def f_to_u16_def trunc_def)

text \<open>C17: When the readings can be converted, a report reaches the queue as the upper-case
  hexadecimal text of its concatenated fields, 90 characters for a lamp of a known model and
  86 for another, and decoding the text gives the payload back; without a byte to spare
  behind \<open>strH\<close> (C's own rule) no report gets through: its terminator is stored past the end.\<close>

theorem root_report:
  assumes "f_to_i32 humidity = Inr h"
    and "list_all2 (\<lambda>f bs. lpp_encode (mac_str2hex env) f = Inr bs)
      (root_fields env st temperature h temperature2 rssi) bss"
    and "length (heap_block env) = 51" and "ring_ok n (msgs st)"
  shows "if pad env = 0
    then add_queue_lpp_root env st temperature humidity temperature2 rssi = Inl Out_Of_Bounds
    else \<exists>st' msg. add_queue_lpp_root env st temperature humidity temperature2 rssi = Inr st'
      \<and> queued n st msg st' \<and> unhex msg = concat bss \<and> NUL \<notin> set msg
      \<and> length msg = (if known_model st then 90 else 86)"
  using add_queue_lpp_root_spec [OF assms] root_length [OF assms(2)]
  by (auto split: if_splits intro!: exI [of _ "print_bytes True (concat bss)"])

theorem root_report_witness:
  "\<exists>st' msg. add_queue_lpp_root sample_env sample_lamp (Fin 25) (Fin 60) (Fin 25) (- 60) = Inr st'
    \<and> queue_items (msgs st') = [msg] \<and> length msg = 90"
proof -
  obtain h bss where "f_to_i32 (Fin 60) = Inr h" "list_all2 (\<lambda>f bs. lpp_encode (mac_str2hex sample_env) f = Inr bs)
      (root_fields sample_env sample_lamp (Fin 25) h (Fin 25) (- 60)) bss"
    using reportable_encodes [OF sample_reportable] by blast
  from root_report [OF this _ sample_ring(1)] show ?thesis
    using sample_ring(2)
    by (auto simp: queued_def known_model_def default_profile_def)
qed

text \<open>The bridge takes the oldest message and hands \<open>AT+SENDB=port:message\<close> to the modem
  when the digits of the port and the message have at most 126 characters together; for a
  longer message (125 characters with port 10, 126 with any) it overruns its buffer.\<close>

lemma bridge_transmits_oldest:
  assumes "ring_ok n (msgs st)" and "queue_items (msgs st) = m # ms"
  shows "if length (print_int (int (r mod 10 + 1))) + length m \<le> 126
    then \<exists>q. bridge_round st r = Inr (Some (send_command (r mod 10 + 1) m), st\<lparr>msgs := q\<rparr>)
      \<and> ring_ok n q \<and> queue_items q = ms
    else bridge_round st r = Inl Out_Of_Bounds"
  by (rule bridge_round_spec [OF assms])

lemma sample_report:
  assumes "length bs = 6" "0 \<notin> set bs" "b \<noteq> 0"
  shows "report_of sample_env (print_bytes False bs) (print_bytes True (items_bytes [D_Nodeid bs, D_Brightness b]))"
proof -
  let ?is = "[D_Nodeid bs, D_Brightness b]"
  have "decode_text sample_env (print_bytes True (items_bytes ?is)) = Inr (items_json (print_bytes False) ?is)"
    using decode_items_text [of ?is sample_env True] assms by simp
  moreover have "print_bytes True (items_bytes ?is) \<noteq> ''''" by (simp add: print_bytes_def print_byte_def)
  ultimately show ?thesis using lookup_items(3) [of sample_env "print_bytes False" ?is] assms(1)
    by (simp add: report_of_def)
qed



end
