(* ===== verification/Lighting_Downlink.thy ===== *)
theory Lighting_Downlink
  imports Lighting_Codec
begin

text \<open>
  What the lamp receives: the commands of the network (\<open>cm_lorawan_event_handler\<close>) against
  the actions they ask for, and the messages of other lamps as \<open>root_read_task\<close> buffers
  them. A command is given by its items; the action depends on the first item of each kind
  only.
\<close>

section \<open>Actions\<close>

datatype action =
    Ignore | Apply u16 u8 | Forward | Apply_Forward u16 u8 | Report_Position | Crash

definition command_action :: "string \<Rightarrow> (u8 list \<Rightarrow> string) \<Rightarrow> downlink_item list \<Rightarrow> action" where
  "command_action own f is =
     (case (find_color is, find_brightness is) of
        (Some c, Some b) \<Rightarrow>
          (case find_nodeid is of
             None \<Rightarrow> Apply c b
           | Some n \<Rightarrow>
               (case find_type is of
                  None \<Rightarrow> if f n = own then Apply_Forward c b else Ignore
                | Some t \<Rightarrow>
                    if t = 1 then (if f n = own then Apply c b else Forward)
                    else if t = 2 \<and> f n = own then Apply_Forward c b else Ignore))
      | _ \<Rightarrow>
          (case find_read_gps is of
             None \<Rightarrow> Ignore
           | Some g \<Rightarrow>
               (case find_nodeid is of
                  None \<Rightarrow> Crash
                | Some n \<Rightarrow> if f n \<noteq> own then Forward else if g = 0xA5 then Report_Position else Ignore)))"

fun perform :: "env \<Rightarrow> lighting \<Rightarrow> string list \<Rightarrow> string \<Rightarrow> action \<Rightarrow> fault + lighting" where
  "perform env st rows msg Ignore = Inr st"
| "perform env st rows msg (Apply c b) = Inr (set_light st (uint c) (uint b))"
| "perform env st rows msg Forward = Inr (st\<lparr>mesh_out := mesh_out st @ [msg]\<rparr>)"
| "perform env st rows msg (Apply_Forward c b) =
     (let st1 = set_light st (uint c) (uint b) in Inr (st1\<lparr>mesh_out := mesh_out st1 @ [msg]\<rparr>))"
| "perform env st rows msg Report_Position = add_queue_infomation env st rows"
| "perform env st rows msg Crash = Inl Bad_Pointer"

lemma format_plain: "CHR ''%'' \<notin> set msg \<Longrightarrow> format_text msg = Inr msg"
  by (induction msg) auto

lemma root_write_plain:
  "CHR ''%'' \<notin> set msg \<Longrightarrow> root_write_msg st msg = Inr (st\<lparr>mesh_out := mesh_out st @ [msg]\<rparr>)"
  by (simp add: root_write_msg_def format_plain)

lemma type_values: "uint (t :: u8) = 1 \<longleftrightarrow> t = 1" "uint t = 2 \<longleftrightarrow> t = 2" "uint t = 165 \<longleftrightarrow> t = 165"
  using word_uint_eq_iff [of t 1] word_uint_eq_iff [of t 2] word_uint_eq_iff [of t 165] by simp_all

lemma handler_on_items:
  assumes "decode_text env msg = Inr (items_json (mac_hex2str env) is)" "finds_first env"
    "CHR ''%'' \<notin> set msg"
  shows "cm_lorawan_event_handler env st rows True msg =
    perform env st rows msg (command_action (mac_string (sta_mac env)) (mac_hex2str env) is)"
  using assms(3)
  by (simp add: cm_lorawan_event_handler_def assms(1) lookup_items [OF assms(2)] command_action_def
      root_write_plain type_values Let_def split: option.splits)

lemma digit_char_plain: "n < 16 \<Longrightarrow> digit_char up n \<noteq> CHR ''%''"
  by (rule char_neqI) simp

lemma print_bytes_plain: "CHR ''%'' \<notin> set (print_bytes up bs)"
proof -
  have "CHR ''%'' \<notin> set (print_byte up b)" for b
    using digit_char_plain [of "unat b div 16" up] digit_char_plain [of "unat b mod 16" up]
    by (auto simp: print_byte_def)
  then show ?thesis by (simp add: print_bytes_def)
qed

text \<open>The text a command reaches the handler as.\<close>

definition command_text :: "bool \<Rightarrow> downlink_item list \<Rightarrow> string" where
  "command_text up is = print_bytes up (items_bytes is)"

lemma command_text_plain: "CHR ''%'' \<notin> set (command_text up is)" "NUL \<notin> set (command_text up is)"
  by (simp_all add: command_text_def print_bytes_plain)

lemma be16_zero_low: "256 dvd unat (v :: u16) \<Longrightarrow> be16 v = [byte 8 v, 0]"
  by (simp add: be16_def word_unat_eq_iff unat_byte dvd_eq_mod_eq_0)

lemma be16_high: "256 \<le> unat (v :: u16) \<Longrightarrow> byte 8 v \<noteq> 0"
proof -
  assume v: "256 \<le> unat v"
  have "unat v < 65536" using unsigned_less [where 'a = nat and w = v] by simp
  with v have "unat (byte 8 v) \<noteq> 0" by (simp add: unat_byte)
  then show ?thesis by (simp add: unat_eq_zero)
qed

section \<open>Properties\<close>

text \<open>C10: A command is carried out as its action says, whatever its items are and in which order
  they come, as long as it holds no zero byte and fits the 51-byte block: what is set, saved,
  passed on to the mesh or reported depends on the first item of each kind only.\<close>

theorem command_refines_action:
  assumes "\<forall>i \<in> set is. item_wf i" and "0 \<notin> set (items_bytes is)"
    and "length (items_bytes is) < length (heap_block env)" and "length (heap_block env) \<le> 256"
    and "finds_first env"
  shows "cm_lorawan_event_handler env st rows True (command_text up is)
    = perform env st rows (command_text up is)
        (command_action (mac_string (sta_mac env)) (mac_hex2str env) is)"
  using handler_on_items decode_items_text [OF assms(1-4)] assms(5) command_text_plain(1)
  by (metis command_text_def)

theorem command_refines_action_witness:
  "cm_lorawan_event_handler sample_env sample_lamp [] True
      (command_text False [D_Nodeid [180, 230, 45, 222, 38, 49], D_Color 2700, D_Brightness 50, D_Type 1])
    = Inr (set_light sample_lamp 2700 50)"
  using command_refines_action [of "[D_Nodeid [180, 230, 45, 222, 38, 49], D_Color 2700, D_Brightness 50, D_Type 1]"
      sample_env sample_lamp "[]" False]
  by (simp add: command_action_def mac_string_def be16_def byte_def)

text \<open>C39: A color whose low byte is zero (a multiple of 256, as 2816 or 3072 kelvin) makes a
  command for one lamp vanish: the length is measured with \<open>strlen\<close>, the color is cut off
  and nothing happens, without an error.\<close>

theorem zero_byte_drops_command:
  assumes "length nid = 6" and "0 \<notin> set nid" and "256 dvd unat c" and "256 \<le> unat c"
    and "finds_first env" and "14 < length (heap_block env)" and "length (heap_block env) \<le> 256"
  shows "cm_lorawan_event_handler env st rows True
      (command_text up [D_Nodeid nid, D_Color c, D_Brightness b, D_Type t]) = Inr st"
proof -
  let ?is = "[D_Nodeid nid, D_Color c, D_Brightness b, D_Type t]"
  let ?p = "items_bytes [D_Nodeid nid] @ [135, byte 8 c]"
  have "unhex (command_text up ?is) = ?p @ 0 # [111, b, 155, t]"
    using be16_zero_low [OF assms(3)] by (simp add: command_text_def)
  moreover have "takeWhile (\<lambda>b. b \<noteq> 0) (?p @ 0 # [111, b, 155, t]) = takeWhile (\<lambda>b. b \<noteq> 0) ?p"
    by (rule takeWhile_stop) simp
  moreover have "\<forall>b \<in> set ?p. b \<noteq> 0" using assms(2) be16_high [OF assms(4)] by auto
  then have "takeWhile (\<lambda>b. b \<noteq> 0) ?p = ?p" by (simp only: takeWhile_eq_all_conv)
  ultimately have tw: "takeWhile (\<lambda>b. b \<noteq> 0) (unhex (command_text up ?is)) = ?p" by simp
  have "\<not> starts_item [135, byte 8 c]"
  proof
    assume "starts_item [135, byte 8 c]"
    then obtain i r where "item_wf i" "[135, byte 8 c] = item_bytes i @ r" by (auto simp: starts_item_def)
    then show False by (cases i) (auto dest: arg_cong [of _ _ length])
  qed
  then have "decode_text env (command_text up ?is) = Inr (items_json (mac_hex2str env) [D_Nodeid nid])"
    using decode_text_items [OF command_text_plain(2) _ _ tw] assms(1,6,7) by (simp add: command_text_def)
  from handler_on_items [OF this assms(5) command_text_plain(1)] show ?thesis
    by (simp add: command_action_def)
qed

theorem zero_byte_drops_command_witness:
  "cm_lorawan_event_handler sample_env sample_lamp [] True
      (command_text False [D_Nodeid [180, 230, 45, 222, 38, 49], D_Color 3072, D_Brightness 50, D_Type 1])
    = Inr sample_lamp"
  using zero_byte_drops_command [of "[180, 230, 45, 222, 38, 49]" 3072 sample_env sample_lamp "[]" False 50 1]
  by simp

text \<open>The loop that clears the buffer of the mesh reader ends, after one store for any
  buffer: it clears the first character only, since the length it tests is then zero.\<close>

lemma clear_loop_ends:
  assumes "NUL \<in> set buf"
  shows "clear_loop buf 0 (Suc (Suc fuel)) = Inr (buf[0 := NUL])"
proof (cases buf)
  case Nil
  then show ?thesis using assms by simp
next
  case (Cons c cs)
  have "clear_loop (NUL # cs) 1 (Suc fuel) = Inr (NUL # cs)" by (simp add: cstr_def upto_nul_def)
  then show ?thesis using assms Cons
    by (auto simp: cstr_def upto_nul_Cons)
qed

lemma node_keeps_buffer:
  "add_queue_lpp_node env st text = Inr st' \<Longrightarrow> data_form_node st' = data_form_node st"
  by (auto simp: add_queue_lpp_node_def andthen_eq_Inr split: if_splits option.splits)

text \<open>A message of the mesh goes into a buffer of 128 bytes: one of 128 characters or more
  overruns it, a shorter one is handled as a report, and the loop that clears the buffer
  afterwards ends after one store, because the length it tests is then zero.\<close>

lemma mesh_message_read:
  assumes "length (data_form_node st) = 128" and "NUL \<notin> set msg"
  shows "root_read env st msg =
    (if length msg < 128 then
       andthen (add_queue_lpp_node env
         (st\<lparr>data_form_node := msg @ NUL # drop (Suc (length msg)) (data_form_node st)\<rparr>) msg)
         (\<lambda>st1. Inr (st1\<lparr>data_form_node := (data_form_node st1)[0 := NUL]\<rparr>))
     else Inl Out_Of_Bounds)"
proof (cases "length msg < 128")
  case True
  let ?buf = "msg @ NUL # drop (Suc (length msg)) (data_form_node st)"
  have copy: "strcpy_to (data_form_node st) msg = Inr ?buf" "cstr ?buf = Inr msg"
    using True assms by (simp_all add: strcpy_to_def Let_def)
  have clear: "clear_loop (data_form_node st1) 0 2 = Inr ((data_form_node st1)[0 := NUL])"
    if "add_queue_lpp_node env (st\<lparr>data_form_node := ?buf\<rparr>) msg = Inr st1" for st1
    using clear_loop_ends [of "data_form_node st1" 0] node_keeps_buffer [OF that] by (simp add: numeral_2_eq_2)
  show ?thesis using True copy clear
    by (auto simp: root_read_def andthen_def split: sum.splits)
next
  case False
  then show ?thesis using assms by (simp add: root_read_def strcpy_to_def Let_def)
qed

section \<open>Types of the members\<close>

fun member_ok :: "(u8 list \<Rightarrow> string) \<Rightarrow> json_item \<Rightarrow> bool" where
  "member_ok f (AddNumber k v) = (k = ''color'' \<and> 0 \<le> v \<and> v < 65536
     \<or> k \<in> {''brightness'', ''read_gps'', ''type_control''} \<and> 0 \<le> v \<and> v < 256)"
| "member_ok f (AddString k s) = (k = ''nodeid'' \<and> s \<in> f ` {bs. length bs = 6})"

lemma items_json_ok: "\<forall>i \<in> set is. item_wf i \<Longrightarrow> \<forall>j \<in> set (items_json f is). member_ok f j"
proof (induction "is")
  case Nil
  then show ?case by simp
next
  case (Cons i "is")
  have "uint (v :: u16) < 65536" "uint (b :: u8) < 256" for v b
    using uint_lt2p [of v] uint_lt2p [of b] by simp_all
  then show ?case using Cons by (cases i) auto
qed

text \<open>C40: Whatever text arrives, as long as it fits the block, the decoder succeeds and the object
  it builds is well typed: numbers in the range of their field under the numeric names, a
  string made of six bytes under \<open>nodeid\<close>, and no other member. So \<open>valuestring\<close> is read of
  strings only.\<close>

theorem decoded_members_typed:
  assumes "NUL \<notin> set msg" and "length msg div 2 < length (heap_block env)"
    and "length (heap_block env) \<le> 256"
  shows "\<exists>js. decode_text env msg = Inr js \<and> (\<forall>j \<in> set js. member_ok (mac_hex2str env) j)"
proof -
  obtain "is" r where "\<forall>i \<in> set is. item_wf i" "\<not> starts_item r"
      "takeWhile (\<lambda>b. b \<noteq> 0) (unhex msg) = items_bytes is @ r"
    using split_items by blast
  then show ?thesis using decode_text_items [OF assms(1,2), of "is" r] items_json_ok assms(2,3) by auto
qed

theorem decoded_members_typed_witness:
  "\<exists>js. decode_text sample_env ''zz6F32'' = Inr js \<and> (\<forall>j \<in> set js. member_ok (print_bytes False) j)"
  using decoded_members_typed [of "''zz6F32''" sample_env] by simp

end
