(* ===== verification/Bluetooth.thy ===== *)
theory Bluetooth
  imports Lighting_Codec Nvs_Storage
begin

text \<open>
  The service interface, \<open>main/Bluetooth.c\<close>: the callback of the serial port profile, which
  takes JSON commands that read and write the profile, the keys of the network and the mesh,
  and the callbacks of pairing and start-up. Outside the repository, and fields of
  \<open>ble_env\<close>: cJSON's parser and its case-insensitive lookup, the flash library, the routing
  table of the mesh, the uninitialised rows inside \<open>array_to_num\<close>. What is sent back and the
  calls without a model (\<open>lora_init\<close>, the update task, the restart) are a list in the state.
\<close>

section \<open>Surroundings and state\<close>

record 's ble_env = env +
  json_parse :: "string \<Rightarrow> json_item list option"
  json_get_ci :: "json_item list \<Rightarrow> string \<Rightarrow> json_item option"
  api :: "'s nvs_api"
  children :: "u8 list list"
  num_rows :: "string list"

datatype spp_call =
    Set_Device_Name string | Set_Scan_Mode | Start_Server
  | Reply string | Lora_Init | Start_Ota | Restart

record 's spp =
  lamp :: lighting
  flash :: 's
  print_devaddr :: string      \<comment> \<open>the three strings \<open>lora_init\<close> keeps for display\<close>
  print_nwkskey :: string
  print_appskey :: string
  calls :: "spp_call list"

definition call :: "spp_call \<Rightarrow> 's spp \<Rightarrow> 's spp" where
  "call c st = st\<lparr>calls := calls st @ [c]\<rparr>"

text \<open>\<open>sprintf (spp_data, ...)\<close> into 256 bytes, and \<open>esp_spp_write\<close> of what was printed.\<close>

definition reply :: "string \<Rightarrow> 's spp \<Rightarrow> fault + 's spp" where
  "reply msg st =
     andthen (strcpy_to (replicate 256 NUL) msg) (\<lambda>spp_data.
     andthen (cstr spp_data) (\<lambda>s. Inr (call (Reply s) st)))"

fun replies :: "string list \<Rightarrow> 's spp \<Rightarrow> fault + 's spp" where
  "replies [] st = Inr st"
| "replies (m # ms) st = andthen (reply m st) (\<lambda>st1. replies ms st1)"

abbreviation LF :: string where "LF \<equiv> [CHR 0x0A]"

definition member_of :: "'s ble_env \<Rightarrow> json_item list \<Rightarrow> string \<Rightarrow> fault + json_item" where
  "member_of env attributes k = (case json_get_ci env attributes k of None \<Rightarrow> Inl Bad_Pointer | Some i \<Rightarrow> Inr i)"

definition int_of :: "'s ble_env \<Rightarrow> json_item list \<Rightarrow> string \<Rightarrow> fault + int" where
  "int_of env attributes k = andthen (member_of env attributes k) (\<lambda>i. Inr (valueint i))"

definition str_of :: "'s ble_env \<Rightarrow> json_item list \<Rightarrow> string \<Rightarrow> fault + string" where
  "str_of env attributes k = andthen (member_of env attributes k) valuestring"

definition set_led :: "led_status \<Rightarrow> 's spp \<Rightarrow> 's spp" where
  "set_led led st = st\<lparr>lamp := (lamp st)\<lparr>status_led := led\<rparr>\<rparr>"

text \<open>\<open>save_led (status_led)\<close> and \<open>read_led (&status_led)\<close>, whose result is not looked at.\<close>

definition save_status :: "'s ble_env \<Rightarrow> 's spp \<Rightarrow> 's spp" where
  "save_status env st =
     (let led = status_led (lamp st) in
      st\<lparr>lamp := (lamp st)\<lparr>saved := saved (lamp st) @ [led]\<rparr>, flash := save_led (api env) led (flash st)\<rparr>)"

definition read_status :: "'s ble_env \<Rightarrow> 's spp \<Rightarrow> 's spp" where
  "read_status env st =
     (case read_led (api env) (status_led (lamp st)) (flash st) of (ok, led, s) \<Rightarrow>
      (set_led led st)\<lparr>flash := s\<rparr>)"

section \<open>The commands\<close>

text \<open>Color and brightness from a command: the driver, the profile and the flash.\<close>

definition test_light :: "'s ble_env \<Rightarrow> int \<Rightarrow> int \<Rightarrow> 's spp \<Rightarrow> 's spp" where
  "test_light env color bright st =
     (let l = set_light (lamp st) color bright
      in st\<lparr>lamp := l, flash := save_led (api env) (status_led l) (flash st)\<rparr>)"

text \<open>The part of \<open>lora_init\<close> that loads the keys: the displayed strings. An array that
  \<open>get_string\<close> did not fill is indeterminate.\<close>

definition lora_keys :: "'s ble_env \<Rightarrow> 's spp \<Rightarrow> fault + 's spp" where
  "lora_keys env st =
     (case get_string (api env) ''DEVADDR'' [] 12 (flash st) of (ok1, d, s1) \<Rightarrow>
      case get_string (api env) ''NWKSKEY'' [] 48 s1 of (ok2, n, s2) \<Rightarrow>
      case get_string (api env) ''APPSKEY'' [] 48 s2 of (ok3, a, s3) \<Rightarrow>
      if \<not> (ok1 \<and> ok2 \<and> ok3) then Inl Uninit_Read
      else andthen (strcpy_to (replicate 32 NUL) d) (\<lambda>_.
           andthen (strcpy_to (replicate 64 NUL) n) (\<lambda>_.
           andthen (strcpy_to (replicate 64 NUL) a) (\<lambda>_.
           Inr (call Lora_Init (st\<lparr>flash := s3, print_devaddr := upto_nul d,
             print_nwkskey := upto_nul n, print_appskey := upto_nul a\<rparr>))))))"

definition write_lorawan :: "'s ble_env \<Rightarrow> json_item list \<Rightarrow> string \<Rightarrow> nat \<Rightarrow> 's spp \<Rightarrow> fault + 's spp" where
  "write_lorawan env attributes buf len st =
     andthen (str_of env attributes ''Devaddr'') (\<lambda>devaddr.
     andthen (str_of env attributes ''Nwkskey'') (\<lambda>nwkskey.
     andthen (str_of env attributes ''Appskey'') (\<lambda>appskey.
     let s = save_string (api env) ''APPSKEY'' appskey (save_string (api env) ''NWKSKEY'' nwkskey
               (save_string (api env) ''DEVADDR'' devaddr (flash st)))
     in andthen (reply (''Write: '' @ buf @ '',['' @ print_int (int len) @ '']'' @ LF) (st\<lparr>flash := s\<rparr>))
          (lora_keys env))))"

definition read_lorawan :: "'s spp \<Rightarrow> fault + 's spp" where
  "read_lorawan st =
     replies [''Devaddr:'' @ print_devaddr st @ LF, ''NWKSkey:'' @ print_nwkskey st @ LF,
              ''APPSKEY:'' @ print_appskey st @ LF] st"

text \<open>\<open>while (myvalue > 0) { meshid[i] = myvalue % 10; myvalue /= 10; i--; }\<close>\<close>

function mesh_digits :: "int \<Rightarrow> int \<Rightarrow> int list \<Rightarrow> fault + int list" where
  "mesh_digits myvalue i ids =
     (if 0 < myvalue then
        (if i < 0 then Inl Out_Of_Bounds
         else andthen (wr ids (nat i) (myvalue mod 10)) (\<lambda>ids'.
              mesh_digits (myvalue div 10) (i - 1) ids'))
      else Inr ids)"
  by pat_completeness auto
termination
  by (relation "measure (\<lambda>(myvalue, _, _). nat myvalue)") auto

declare mesh_digits.simps [simp del]

definition write_mesh :: "'s ble_env \<Rightarrow> json_item list \<Rightarrow> string \<Rightarrow> nat \<Rightarrow> 's spp \<Rightarrow> fault + 's spp" where
  "write_mesh env attributes buf len st =
     andthen (int_of env attributes ''MESHID'') (\<lambda>myvalue.
     andthen (mesh_digits myvalue 5 (meshid (status_led (lamp st)))) (\<lambda>digits.
     andthen (int_of env attributes ''MESHCH'') (\<lambda>ch.
     reply (''Write : '' @ buf @ '',['' @ print_int (int len) @ '']'' @ LF)
       (save_status env (set_led ((status_led (lamp st))\<lparr>meshid := digits, meshch := word_of_int ch\<rparr>) st)))))"

fun mac_colons :: "u8 list \<Rightarrow> string" where
  "mac_colons [] = []"
| "mac_colons [b] = print_byte False b"
| "mac_colons (b # bs) = print_byte False b @ '':'' @ mac_colons bs"

definition read_mesh :: "'s ble_env \<Rightarrow> 's spp \<Rightarrow> fault + 's spp" where
  "read_mesh env st =
     (let st1 = read_status env st; led = status_led (lamp st1);
          nodes_num = unat (of_nat (length (children env)) :: u8) in
      andthen (reply (''MAC ID:'' @ mac_string (sta_mac env) @ LF) st1) (\<lambda>st2.
      andthen (array_to_num (meshid led) (num_rows env)) (\<lambda>n.
      andthen (replies [''MESH ID:'' @ print_int n @ LF, ''MESH CH:'' @ print_int (uint (meshch led)) @ LF,
                        ''nodes_num:'' @ print_int (int nodes_num) @ LF] st2) (\<lambda>st3.
      replies (concat (map (\<lambda>mac. [''Child mac: '' @ mac_colons mac, LF]) (take nodes_num (children env)))) st3))))"

definition received_reply :: "string \<Rightarrow> nat \<Rightarrow> 's spp \<Rightarrow> fault + 's spp" where
  "received_reply buf len st = reply (''Receined characters: '' @ buf @ '',['' @ print_int (int len) @ '']'' @ LF) st"

definition test_control :: "'s ble_env \<Rightarrow> json_item list \<Rightarrow> string \<Rightarrow> nat \<Rightarrow> 's spp \<Rightarrow> fault + 's spp" where
  "test_control env attributes buf len st =
     andthen (int_of env attributes ''COLOR'') (\<lambda>color.
     andthen (int_of env attributes ''BRIGHT'') (\<lambda>bright.
     received_reply buf len (test_light env color bright st)))"

text \<open>\<open>%04x\<close> and \<open>%02x\<close> of an \<open>int\<close>, into five bytes each.\<close>

definition print_hex_int :: "nat \<Rightarrow> int \<Rightarrow> string" where
  "print_hex_int w i = pad_zeros w (print_hex (nat (i mod 2 ^ 32)))"

definition group_text :: "int \<Rightarrow> int \<Rightarrow> fault + string" where
  "group_text color bright =
     andthen (strcpy_to (replicate 5 NUL) (print_hex_int 4 color)) (\<lambda>_.
     andthen (strcpy_to (replicate 5 NUL) (print_hex_int 2 bright)) (\<lambda>_.
     Inr (''9601020304050687'' @ print_hex_int 4 color @ ''6f'' @ print_hex_int 2 bright @ ''9b02'')))"

definition test_control_gr :: "'s ble_env \<Rightarrow> json_item list \<Rightarrow> string \<Rightarrow> nat \<Rightarrow> 's spp \<Rightarrow> fault + 's spp" where
  "test_control_gr env attributes buf len st =
     andthen (int_of env attributes ''COLOR'') (\<lambda>color.
     andthen (int_of env attributes ''BRIGHT'') (\<lambda>bright.
     let st1 = test_light env color bright st in
     andthen (group_text color bright) (\<lambda>s.
     andthen (strcpy_to (recvb_form_ble (lamp st1)) s) (\<lambda>recvb.
     received_reply buf len (st1\<lparr>lamp := (lamp st1)\<lparr>recvb_form_ble := recvb, ble_cmd_to_gr := True\<rparr>\<rparr>)))))"

definition read_street_light :: "'s ble_env \<Rightarrow> 's spp \<Rightarrow> fault + 's spp" where
  "read_street_light env st =
     (let st1 = read_status env st; led = status_led (lamp st1) in
      replies ([''MODEL:'' @ print_int (uint (MODEL led)) @ '' watt'' @ LF]
        @ (if GEN led = 2 then [''GEN:DIM'' @ LF] else if GEN led = 1 then [''GEN:DIMCOLOR'' @ LF] else [])
        @ [''PWM LOW:'' @ print_int (uint (LOW_PWM led)) @ '' watt'' @ LF,
           ''PWM MAX:'' @ print_int (uint (MAX_PWM led)) @ '' watt'' @ LF]) st1)"

definition write_street_light :: "'s ble_env \<Rightarrow> json_item list \<Rightarrow> string \<Rightarrow> nat \<Rightarrow> 's spp \<Rightarrow> fault + 's spp" where
  "write_street_light env attributes buf len st =
     andthen (int_of env attributes ''MODEL'') (\<lambda>model.
     andthen (member_of env attributes ''GEN'') (\<lambda>gen.
     andthen (int_of env attributes ''LOW_WATT'') (\<lambda>low.
     andthen (int_of env attributes ''HIGH_WATT'') (\<lambda>high.
     andthen (valuestring gen) (\<lambda>mygen.
     let led = (status_led (lamp st))\<lparr>MODEL := word_of_int model, LOW_PWM := word_of_int low,
                 MAX_PWM := word_of_int high\<rparr>;
         led' = (if mygen = ''DIM'' then led\<lparr>GEN := 2\<rparr>
                 else if mygen = ''DIMCOLOR'' then led\<lparr>GEN := 1\<rparr> else led)
     in received_reply buf len (save_status env (set_led led' st)))))))"

definition restart_mcu :: "string \<Rightarrow> nat \<Rightarrow> 's spp \<Rightarrow> fault + 's spp" where
  "restart_mcu buf len st =
     andthen (received_reply buf len st) (\<lambda>st1.
     andthen (reply (''MCU RESTART PLEASE WAIT..'' @ LF) st1) (\<lambda>st2. Inr (call Restart st2)))"

definition scan_sl :: "string \<Rightarrow> nat \<Rightarrow> 's spp \<Rightarrow> fault + 's spp" where
  "scan_sl buf len st =
     andthen (received_reply buf len st) (\<lambda>st1.
     andthen (reply (''OK TEST BLINK SL!!!!!!'' @ LF) st1) (\<lambda>st2.
     let led = status_led (lamp st2)
     in Inr (st2\<lparr>lamp := (lamp st2)\<lparr>leds := leds (lamp st2)
          @ concat (replicate 5 (Set_Brightness led 10 @ Set_Brightness led 100))
          @ Set_Brightness led (mybrightness led)\<rparr>\<rparr>)))"

text \<open>\<open>enum cmd_bluetooth\<close>\<close>

abbreviation (input) WRITE_LORAWAN_PF :: u8 where "WRITE_LORAWAN_PF \<equiv> 1"
abbreviation (input) READ_LORAWAN_PF :: u8 where "READ_LORAWAN_PF \<equiv> 2"
abbreviation (input) WRITE_MESH_NETWORK_PF :: u8 where "WRITE_MESH_NETWORK_PF \<equiv> 3"
abbreviation (input) READ_MESH_NETWORK_PF :: u8 where "READ_MESH_NETWORK_PF \<equiv> 4"
abbreviation (input) TEST_CONTROL_SL :: u8 where "TEST_CONTROL_SL \<equiv> 5"
abbreviation (input) UPDATE_FW_VIA_BLE :: u8 where "UPDATE_FW_VIA_BLE \<equiv> 6"
abbreviation (input) RESTART_MCU :: u8 where "RESTART_MCU \<equiv> 7"
abbreviation (input) WRITE_STREET_LIGHT_PF :: u8 where "WRITE_STREET_LIGHT_PF \<equiv> 8"
abbreviation (input) READ_STREET_LIGHT_PF :: u8 where "READ_STREET_LIGHT_PF \<equiv> 9"
abbreviation (input) TEST_CONTROL_SL_GR :: u8 where "TEST_CONTROL_SL_GR \<equiv> 10"
abbreviation (input) SCAN_SL :: u8 where "SCAN_SL \<equiv> 11"

definition run_command ::
  "'s ble_env \<Rightarrow> u8 \<Rightarrow> json_item list \<Rightarrow> string \<Rightarrow> nat \<Rightarrow> 's spp \<Rightarrow> fault + 's spp" where
  "run_command env LIST_CMD attributes buf len st =
     (if LIST_CMD = WRITE_LORAWAN_PF then write_lorawan env attributes buf len st
      else if LIST_CMD = READ_LORAWAN_PF then read_lorawan st
      else if LIST_CMD = WRITE_MESH_NETWORK_PF then write_mesh env attributes buf len st
      else if LIST_CMD = READ_MESH_NETWORK_PF then read_mesh env st
      else if LIST_CMD = TEST_CONTROL_SL then test_control env attributes buf len st
      else if LIST_CMD = TEST_CONTROL_SL_GR then test_control_gr env attributes buf len st
      else if LIST_CMD = UPDATE_FW_VIA_BLE then Inr (call Start_Ota st)
      else if LIST_CMD = READ_STREET_LIGHT_PF then read_street_light env st
      else if LIST_CMD = WRITE_STREET_LIGHT_PF then write_street_light env attributes buf len st
      else if LIST_CMD = RESTART_MCU then restart_mcu buf len st
      else if LIST_CMD = SCAN_SL then scan_sl buf len st
      else Inr st)"

section \<open>The callbacks\<close>

text \<open>\<open>snprintf (buf, len, data)\<close>: the received bytes are the format, at most \<open>len - 1\<close>
  characters are kept. \<open>data\<close> is the memory from the received bytes on.\<close>

definition received :: "nat \<Rightarrow> string \<Rightarrow> fault + string" where
  "received len data =
     andthen (cstr data) (\<lambda>format. andthen (format_text format) (\<lambda>s.
     if len = 0 then Inl Uninit_Read else Inr (take (len - 1) s)))"

datatype spp_event =
    ESP_SPP_INIT_EVT | ESP_SPP_DATA_IND_EVT nat string | ESP_SPP_OTHER_EVT

definition esp_spp_cb :: "'s ble_env \<Rightarrow> spp_event \<Rightarrow> 's spp \<Rightarrow> fault + 's spp" where
  "esp_spp_cb env event st =
     (case event of
        ESP_SPP_INIT_EVT \<Rightarrow>
          andthen (strcpy_to (replicate 24 NUL) (''cm_master_'' @ mac_string (sta_mac env))) (\<lambda>bluetooth.
          andthen (cstr bluetooth) (\<lambda>name.
          Inr (call Start_Server (call Set_Scan_Mode (call (Set_Device_Name name) st)))))
      | ESP_SPP_DATA_IND_EVT len data \<Rightarrow>
          if len < 1023 then
            andthen (received len data) (\<lambda>buf.
            case json_parse env buf of
              None \<Rightarrow> Inr st
            | Some attributes \<Rightarrow>
                andthen (int_of env attributes ''CMD'') (\<lambda>cmd.
                run_command env (word_of_int cmd) attributes buf len st))
          else Inr st
      | ESP_SPP_OTHER_EVT \<Rightarrow> Inr st)"

datatype gap_event =
    ESP_BT_GAP_AUTH_CMPL_EVT | ESP_BT_GAP_PIN_REQ_EVT bool | ESP_BT_GAP_CFM_REQ_EVT
  | ESP_BT_GAP_KEY_NOTIF_EVT | ESP_BT_GAP_KEY_REQ_EVT | ESP_BT_GAP_OTHER_EVT

datatype gap_reply = Pin_Reply bool nat "u8 list" | Ssp_Confirm_Reply bool

definition esp_bt_gap_cb :: "gap_event \<Rightarrow> gap_reply list" where
  "esp_bt_gap_cb event =
     (case event of
        ESP_BT_GAP_PIN_REQ_EVT min_16_digit \<Rightarrow>
          if min_16_digit then [Pin_Reply True 16 (replicate 16 0)]
          else [Pin_Reply True 4 (map of_char ''4321'')]
      | ESP_BT_GAP_CFM_REQ_EVT \<Rightarrow> [Ssp_Confirm_Reply True]
      | _ \<Rightarrow> [])"

text \<open>The start: each step only when the ones before succeeded; the last two are not checked.\<close>

datatype bt_step =
    Controller_Init | Controller_Enable | Bluedroid_Init | Bluedroid_Enable
  | Gap_Register | Spp_Register | Spp_Init | Set_Security_Param | Set_Pin

fun bt_steps :: "(bt_step \<Rightarrow> esp_err) \<Rightarrow> bt_step list \<Rightarrow> bt_step list" where
  "bt_steps ret [] = [Set_Security_Param, Set_Pin]"
| "bt_steps ret (s # ss) = s # (if ret s \<noteq> ESP_OK then [] else bt_steps ret ss)"

definition init_bluetooth :: "(bt_step \<Rightarrow> esp_err) \<Rightarrow> bt_step list" where
  "init_bluetooth ret =
     bt_steps ret [Controller_Init, Controller_Enable, Bluedroid_Init, Bluedroid_Enable,
                   Gap_Register, Spp_Register, Spp_Init]"

section \<open>The digits of the mesh id\<close>

fun dec_digits :: "nat \<Rightarrow> nat list" where
  "dec_digits n = (if n = 0 then [] else dec_digits (n div 10) @ [n mod 10])"

declare dec_digits.simps [simp del]

lemma dec_digits_small: "d \<in> set (dec_digits n) \<Longrightarrow> d < 10"
  by (induction n rule: dec_digits.induct) (subst (asm) dec_digits.simps, auto split: if_splits)

lemma dec_digits_value: "digits_value 10 (dec_digits n) = n"
  by (induction n rule: dec_digits.induct)
    (subst dec_digits.simps, auto simp: digits_value_append, simp add: digits_value_def)

lemma dec_digits_length: "length (dec_digits n) \<le> k \<longleftrightarrow> n < 10 ^ k"
proof (induction k arbitrary: n)
  case 0
  then show ?case by (subst dec_digits.simps) auto
next
  case (Suc k)
  have "n div 10 < 10 ^ k \<longleftrightarrow> n < 10 ^ Suc k" by (simp add: div_less_iff_less_mult mult.commute)
  then show ?case using Suc [of "n div 10"] by (subst dec_digits.simps) auto
qed

lemma mesh_digits_spec:
  "i < int (length ids) \<Longrightarrow> - 1 \<le> i \<Longrightarrow>
    mesh_digits (int n) i ids =
      (if length (dec_digits n) \<le> nat (i + 1)
       then Inr (take (nat (i + 1) - length (dec_digits n)) ids @ map int (dec_digits n) @ drop (nat (i + 1)) ids)
       else Inl Out_Of_Bounds)"
proof (induction n arbitrary: i ids rule: dec_digits.induct)
  case (1 n)
  show ?case
  proof (cases "n = 0")
    case True
    then show ?thesis by (simp add: mesh_digits.simps dec_digits.simps)
  next
    case False
    have dd: "dec_digits n = dec_digits (n div 10) @ [n mod 10]" using False by (subst dec_digits.simps) simp
    show ?thesis
    proof (cases "i < 0")
      case True
      then show ?thesis using False dd by (subst mesh_digits.simps) simp
    next
      case neg: False
      let ?j = "nat i" and ?ids = "ids[nat i := int (n mod 10)]" and ?k = "length (dec_digits (n div 10))"
      have j: "?j < length ids" "nat (i + 1) = Suc ?j" "nat (i - 1 + 1) = ?j"
        using neg 1(2) by auto
      have "mesh_digits (int n) i ids = mesh_digits (int (n div 10)) (i - 1) ?ids"
        using False neg j(1) by (subst mesh_digits.simps) (simp add: zdiv_int zmod_int)
      also have "\<dots> = (if ?k \<le> ?j
          then Inr (take (?j - ?k) ?ids @ map int (dec_digits (n div 10)) @ drop ?j ?ids)
          else Inl Out_Of_Bounds)"
        using 1(1) [OF False, of "i - 1" ?ids] 1(2) neg j(3) by simp
      also have "drop ?j ?ids = int (n mod 10) # drop (Suc ?j) ids"
        using j(1) by (metis Cons_nth_drop_Suc drop_update_cancel length_list_update lessI nth_list_update_eq)
      also have "take (?j - ?k) ?ids = take (?j - ?k) ids" by simp
      finally show ?thesis by (simp add: dd j(2))
    qed
  qed
qed

lemma digits_value_concat: "digits_value b (xs @ ys) = digits_value b xs * b ^ length ys + digits_value b ys"
proof (induction ys rule: rev_induct)
  case Nil
  then show ?case by (simp add: digits_value_def)
next
  case (snoc y ys)
  then show ?case using digits_value_append [of b "xs @ ys" y] digits_value_append [of b ys y]
    by (simp add: algebra_simps)
qed

lemma reply_spec:
  assumes "NUL \<notin> set msg"
  shows "reply msg st = (if length msg < 256 then Inr (call (Reply msg) st) else Inl Out_Of_Bounds)"
  using assms by (simp add: reply_def strcpy_to_def Let_def)

lemma set_led_fields [simp]:
  "status_led (lamp (set_led led st)) = led" "saved (lamp (set_led led st)) = saved (lamp st)"
  "flash (set_led led st) = flash st" "calls (set_led led st) = calls st"
  "recvb_form_ble (lamp (set_led led st)) = recvb_form_ble (lamp st)"
  by (simp_all add: set_led_def)

lemma call_fields [simp]:
  "lamp (call c st) = lamp st" "flash (call c st) = flash st" "calls (call c st) = calls st @ [c]"
  by (simp_all add: call_def)

lemma save_status_fields [simp]:
  "status_led (lamp (save_status env st)) = status_led (lamp st)"
  "saved (lamp (save_status env st)) = saved (lamp st) @ [status_led (lamp st)]"
  "flash (save_status env st) = save_led (api env) (status_led (lamp st)) (flash st)"
  by (simp_all add: save_status_def Let_def)

section \<open>The group command as text\<close>

lemma pad_hex_step:
  assumes "0 < w"
  shows "pad_zeros (Suc w) (print_hex n) = pad_zeros w (print_hex (n div 16)) @ [digit_char False (n mod 16)]"
proof (cases "n < 16")
  case True
  have zero: "digit_char False 0 = CHR ''0''" by code_simp
  obtain v where v: "w = Suc v" using assms by (cases w) auto
  have "replicate w CHR ''0'' = replicate v CHR ''0'' @ [CHR ''0'']"
    unfolding v by (simp add: replicate_append_same)
  then show ?thesis using True
    by (simp add: pad_zeros_def print_base.simps [of 16 n] print_base.simps [of 16 0] zero v)
next
  case False
  then show ?thesis by (simp add: pad_zeros_def print_base.simps [of 16 n])
qed

lemma pad_hex_digit: "n < 16 \<Longrightarrow> pad_zeros 1 (print_hex n) = [digit_char False n]"
  by (simp add: pad_zeros_def print_base.simps [of 16 n])

lemma pad_hex_steps:
  "pad_zeros 2 (print_hex n) = pad_zeros 1 (print_hex (n div 16)) @ [digit_char False (n mod 16)]"
  "pad_zeros 3 (print_hex n) = pad_zeros 2 (print_hex (n div 16)) @ [digit_char False (n mod 16)]"
  "pad_zeros 4 (print_hex n) = pad_zeros 3 (print_hex (n div 16)) @ [digit_char False (n mod 16)]"
proof -
  have e: "Suc 1 = (2 :: nat)" "Suc 2 = (3 :: nat)" "Suc 3 = (4 :: nat)" by simp_all
  show "pad_zeros 2 (print_hex n) = pad_zeros 1 (print_hex (n div 16)) @ [digit_char False (n mod 16)]"
    by (rule pad_hex_step [of 1 n, unfolded e]) simp
  show "pad_zeros 3 (print_hex n) = pad_zeros 2 (print_hex (n div 16)) @ [digit_char False (n mod 16)]"
    by (rule pad_hex_step [of 2 n, unfolded e]) simp
  show "pad_zeros 4 (print_hex n) = pad_zeros 3 (print_hex (n div 16)) @ [digit_char False (n mod 16)]"
    by (rule pad_hex_step [of 3 n, unfolded e]) simp
qed

lemma hex_byte: "n < 256 \<Longrightarrow> pad_zeros 2 (print_hex n) = print_byte False (of_nat n)"
  using pad_hex_digit [of "n div 16"] by (simp add: pad_hex_steps(1) print_byte_def unat_of_nat del: One_nat_def)

lemma hex_word:
  assumes "n < 65536"
  shows "pad_zeros 4 (print_hex n) = print_bytes False (be16 (of_nat n))"
proof -
  have "n div 16 div 16 div 16 < 16" using assms by simp
  then have "pad_zeros 4 (print_hex n) = [digit_char False (n div 16 div 16 div 16),
      digit_char False (n div 16 div 16 mod 16), digit_char False (n div 16 mod 16), digit_char False (n mod 16)]"
    by (simp only: pad_hex_steps pad_hex_digit append.simps)
  moreover have "unat (of_nat n :: u16) = n" using assms by (simp add: unat_of_nat)
  then have "unat (byte 8 (of_nat n :: u16)) = n div 256" "unat (byte 0 (of_nat n :: u16)) = n mod 256"
    using assms by (simp_all add: unat_byte)
  moreover have "n div 16 div 16 = n div 256" "n div 16 mod 16 = n mod 256 div 16" "n mod 256 mod 16 = n mod 16"
    using mod_mult2_eq [of n 16 16] mod_mod_cancel [of 16 256 n] div_mult2_eq [of n 16 16]
    by simp_all
  ultimately show ?thesis
    by (simp add: print_bytes_def print_byte_def be16_def div_mult2_eq [symmetric])
qed

definition group_items :: "nat \<Rightarrow> nat \<Rightarrow> downlink_item list" where
  "group_items c b = [D_Nodeid [1, 2, 3, 4, 5, 6], D_Color (of_nat c), D_Brightness (of_nat b), D_Type 2]"

lemma group_text_items:
  assumes "c < 65536" "b < 256"
  shows "group_text (int c) (int b) = Inr (print_bytes False (items_bytes (group_items c b)))"
proof -
  have h: "print_hex_int 4 (int c) = print_bytes False (be16 (of_nat c))"
      "print_hex_int 2 (int b) = print_bytes False [of_nat b]"
    using assms hex_word hex_byte by (simp_all add: print_hex_int_def print_bytes_def)
  have "strcpy_to (replicate 5 NUL) (print_hex_int 4 (int c)) = Inr (print_bytes False (be16 (of_nat c)) @ [NUL])"
    "\<exists>d. strcpy_to (replicate 5 NUL) (print_hex_int 2 (int b)) = Inr d"
    unfolding h by (simp_all add: strcpy_to_def Let_def)
  moreover have "''9601020304050687'' @ print_bytes False (be16 (of_nat c)) @ ''6f'' @
      print_bytes False [of_nat b] @ ''9b02'' = print_bytes False (items_bytes (group_items c b))"
  proof -
    have "''9601020304050687'' = print_bytes False [150, 1, 2, 3, 4, 5, 6, 135]"
      "''6f'' = print_bytes False [111]" "''9b02'' = print_bytes False [155, 2]" by code_simp+
    then show ?thesis by (simp only: group_items_def items_bytes.simps item_bytes.simps print_bytes_append [symmetric]) simp
  qed
  ultimately show ?thesis by (auto simp: group_text_def h)
qed

section \<open>Properties\<close>

definition sample_ble :: "(led_status option \<times> nat) ble_env" where
  "sample_ble = env.extend sample_env
     \<lparr>json_parse = (\<lambda>_. None), json_get_ci = (\<lambda>js k. find (\<lambda>i. json_key i = k) js), api = ideal_nvs,
      children = [], num_rows = replicate 6 ''xyz''\<rparr>"

definition sample_spp :: "(led_status option \<times> nat) spp" where
  "sample_spp = \<lparr>lamp = sample_lamp, flash = (None, 0), print_devaddr = [], print_nwkskey = [],
     print_appskey = [], calls = []\<rparr>"

lemma sample_int_of: "int_of sample_ble js k = (case find (\<lambda>i. json_key i = k) js of
    None \<Rightarrow> Inl Bad_Pointer | Some i \<Rightarrow> Inr (valueint i))"
  by (simp add: int_of_def member_of_def sample_ble_def env.extend_def split: option.splits)

text \<open>C21: The mesh id of a command replaces as many digits as it has: an id below a million is
  read back by \<open>array_to_num\<close> behind the digits of the old id it did not reach, so only an id of
  six digits is stored as given; an id of more digits stores in front of the array.\<close>

theorem mesh_id_written:
  assumes "\<forall>d \<in> set old. d < 10" and "length old = 6" and "meshid (status_led (lamp st)) = map int old"
    and "length rows = 6" and "\<forall>r \<in> set rows. length r = 3"
    and "int_of env attributes ''MESHID'' = Inr (int n)" and "int_of env attributes ''MESHCH'' = Inr ch"
    and "NUL \<notin> set buf" and "length buf + length (print_int (int len)) < 240"
  shows "if n < 10 ^ 6
    then \<exists>st'. write_mesh env attributes buf len st = Inr st'
      \<and> array_to_num (meshid (status_led (lamp st'))) rows
        = Inr (int (digits_value 10 (take (6 - length (dec_digits n)) old) * 10 ^ length (dec_digits n) + n))
      \<and> saved (lamp st') = saved (lamp st) @ [status_led (lamp st')]
    else write_mesh env attributes buf len st = Inl Out_Of_Bounds"
proof (cases "n < 10 ^ 6")
  case False
  then have "\<not> length (dec_digits n) \<le> 6" using dec_digits_length [of n 6] by simp
  then have "mesh_digits (int n) 5 (map int old) = Inl Out_Of_Bounds"
    using mesh_digits_spec [of 5 "map int old" n] assms(2) by simp
  then show ?thesis using False assms(3,6) by (simp add: write_mesh_def)
next
  case True
  let ?k = "length (dec_digits n)"
  let ?ds = "take (6 - ?k) old @ dec_digits n"
  have k: "?k \<le> 6" using True dec_digits_length [of n 6] by simp
  have digits: "mesh_digits (int n) 5 (map int old) = Inr (map int ?ds)"
    using mesh_digits_spec [of 5 "map int old" n] assms(2) k by (simp add: take_map)
  have "\<forall>d \<in> set ?ds. d < 10" using assms(1) dec_digits_small by (auto dest: in_set_takeD)
  moreover have "length ?ds \<le> 6" using k assms(2) by simp
  ultimately have "array_to_num (map int ?ds) rows = Inr (int (digits_value 10 ?ds))"
    by (rule array_to_num_digits [OF _ _ assms(4,5)])
  moreover have "digits_value 10 ?ds = digits_value 10 (take (6 - ?k) old) * 10 ^ ?k + n"
    by (simp add: digits_value_concat dec_digits_value)
  moreover have "NUL \<notin> set (print_int (int len))"
    using print_base_no_nul [of 10 len] by (simp add: print_int_def)
  ultimately show ?thesis using True assms(8,9) digits
    by (simp add: write_mesh_def assms(3,6,7) reply_spec)
qed

theorem mesh_id_written_witness:
  "\<exists>st'. write_mesh sample_ble [AddNumber ''MESHID'' 42, AddNumber ''MESHCH'' 13] ''{}'' 2 sample_spp = Inr st'
    \<and> array_to_num (meshid (status_led (lamp st'))) (replicate 6 ''xyz'') = Inr 123442"
proof -
  have "dec_digits 42 = [4, 2]" by code_simp
  moreover have "digits_value 10 (take 4 [1, 2, 3, 4, 5, 6]) = 1234" by code_simp
  moreover have "length (print_int 2) = 1" by code_simp
  ultimately show ?thesis
    using mesh_id_written [of "[1, 2, 3, 4, 5, 6]" sample_spp "replicate 6 ''xyz''" sample_ble
        "[AddNumber ''MESHID'' 42, AddNumber ''MESHCH'' 13]" 42 13 "''{}''" 2]
    by (auto simp: sample_int_of sample_spp_def default_profile_def)
qed

lemma test_control_gr_run:
  assumes "int_of env attributes ''COLOR'' = Inr (int c)" "int_of env attributes ''BRIGHT'' = Inr (int b)"
    "b < 256" "c < 65536" "length (recvb_form_ble (lamp st)) = 32"
    "NUL \<notin> set buf" "length buf + length (print_int (int len)) < 230"
  shows "\<exists>st'. test_control_gr env attributes buf len st = Inr st' \<and> ble_cmd_to_gr (lamp st')
    \<and> cstr (recvb_form_ble (lamp st')) = Inr (print_bytes False (items_bytes (group_items c b)))
    \<and> mycolor (status_led (lamp st')) = of_nat c \<and> mybrightness (status_led (lamp st')) = of_nat b
    \<and> mesh_out (lamp st') = mesh_out (lamp st) \<and> counter_sec (lamp st') = counter_sec (lamp st)"
proof -
  let ?t = "print_bytes False (items_bytes (group_items c b))"
  have "length ?t = 28" by (simp add: group_items_def)
  then have "strcpy_to (recvb_form_ble (lamp st)) ?t = Inr (?t @ NUL # drop 29 (recvb_form_ble (lamp st)))"
    using assms(5) by (simp add: strcpy_to_def Let_def)
  moreover have "NUL \<notin> set (print_int (int len))"
    using print_base_no_nul [of 10 len] by (simp add: print_int_def)
  ultimately show ?thesis using assms(6,7) group_text_items [OF assms(4,3)]
    by (simp add: test_control_gr_def assms(1,2) received_reply_def reply_spec test_light_def set_light_def Let_def)
qed

text \<open>The group command sends the text of the items node id 01..06, color, brightness and
  group type to the mesh reader of the timer when the color fits 16 bits and the brightness 8;
  a color of more than four hexadecimal digits overruns its buffer.\<close>

lemma group_command_text:
  assumes "int_of env attributes ''COLOR'' = Inr (int c)" and "int_of env attributes ''BRIGHT'' = Inr (int b)"
    and "b < 256" and "c < 2 ^ 31" and "length (recvb_form_ble (lamp st)) = 32"
    and "NUL \<notin> set buf" and "length buf + length (print_int (int len)) < 230"
  shows "if c < 65536
    then \<exists>st'. test_control_gr env attributes buf len st = Inr st' \<and> ble_cmd_to_gr (lamp st')
      \<and> cstr (recvb_form_ble (lamp st')) = Inr (print_bytes False (items_bytes (group_items c b)))
      \<and> mycolor (status_led (lamp st')) = of_nat c \<and> mybrightness (status_led (lamp st')) = of_nat b
    else test_control_gr env attributes buf len st = Inl Out_Of_Bounds"
proof (cases "c < 65536")
  case True
  with test_control_gr_run [OF assms(1-3) True assms(5-7)] show ?thesis by auto
next
  case False
  obtain ds where ds: "print_hex c = map (digit_char False) ds" "\<forall>d \<in> set ds. d < 16" "digits_value 16 ds = c"
    using print_base_digits [of 16 c] by auto
  have "\<not> length ds \<le> 4"
  proof
    assume "length ds \<le> 4"
    then have "(16 :: nat) ^ length ds \<le> 16 ^ 4" by (rule power_increasing) simp
    then show False using digits_value_bound [OF ds(2)] ds(3) False by simp
  qed
  moreover have "nat (int c mod 2 ^ 32) = c" using assms(4) by simp
  ultimately have "print_hex_int 4 (int c) = print_hex c" "5 \<le> length (print_hex c)"
    using ds(1) by (simp_all add: print_hex_int_def pad_zeros_def)
  moreover have "NUL \<notin> set (print_hex c)" using print_base_no_nul [of 16 c] by simp
  ultimately have "group_text (int c) (int b) = Inl Out_Of_Bounds"
    by (simp add: group_text_def strcpy_to_def Let_def)
  then show ?thesis using False by (simp add: test_control_gr_def assms(1,2) Let_def)
qed

end
