(* ===== verification/Uart_Lifecycle.thy ===== *)
theory Uart_Lifecycle
  imports Nmea_Parser Murata
begin

text \<open>
  The life of the two UART parsers: what \<open>nmea_parser_init\<close> and \<open>murata_parser_init\<close> acquire,
  which of it their error labels release, and what the deinit functions give back. A step of
  the set-up succeeds or fails by a parameter; freeing NULL and deleting a driver that is not
  installed have no effect. The third part is the task of the GPS parser around \<open>gps_decode\<close>.
\<close>

section \<open>Set-up and release\<close>

datatype resource = Parser_Object | Line_Buffer | Uart_Driver | Event_Loop | Parser_Task

datatype init_step =
    Calloc_Object | Calloc_Buffer | Uart_Param_Config | Uart_Set_Pin | Uart_Driver_Install
  | Event_Loop_Create | Task_Create

datatype res_call = Acquire resource | Release resource

abbreviation err_object :: "res_call list" where      \<comment> \<open>\<open>err_gps\<close>, \<open>err_cm\<close>\<close>
  "err_object \<equiv> [Release Parser_Object]"

abbreviation err_buffer :: "res_call list" where      \<comment> \<open>also \<open>err_uart_config\<close>\<close>
  "err_buffer \<equiv> Release Line_Buffer # err_object"

abbreviation err_eloop :: "res_call list" where       \<comment> \<open>also \<open>err_uart_install\<close>\<close>
  "err_eloop \<equiv> Release Uart_Driver # err_buffer"

abbreviation err_task_create :: "res_call list" where
  "err_task_create \<equiv> Release Event_Loop # err_eloop"

definition nmea_parser_init :: "(init_step \<Rightarrow> bool) \<Rightarrow> bool \<times> res_call list" where
  "nmea_parser_init ok =
     (if \<not> ok Calloc_Object then (False, err_object)
      else let c1 = [Acquire Parser_Object] in
      if \<not> ok Calloc_Buffer then (False, c1 @ err_buffer)
      else let c2 = c1 @ [Acquire Line_Buffer] in
      if \<not> ok Uart_Param_Config then (False, c2 @ err_buffer)
      else if \<not> ok Uart_Set_Pin then (False, c2 @ err_buffer)
      else if \<not> ok Uart_Driver_Install then (False, c2 @ err_eloop)
      else let c3 = c2 @ [Acquire Uart_Driver] in
      if \<not> ok Event_Loop_Create then (False, c3 @ err_eloop)
      else let c4 = c3 @ [Acquire Event_Loop] in
      if \<not> ok Task_Create then (False, c4 @ err_task_create)
      else (True, c4 @ [Acquire Parser_Task]))"

definition murata_parser_init :: "(init_step \<Rightarrow> bool) \<Rightarrow> bool \<times> res_call list" where
  "murata_parser_init ok =
     (if \<not> ok Calloc_Object then (False, err_object)
      else let c1 = [Acquire Parser_Object] in
      if \<not> ok Calloc_Buffer then (False, c1 @ err_buffer)
      else let c2 = c1 @ [Acquire Line_Buffer] in
      if \<not> ok Uart_Param_Config then (False, c2 @ err_buffer)
      else if \<not> ok Uart_Set_Pin then (False, c2 @ err_buffer)
      else if \<not> ok Uart_Driver_Install then (False, c2 @ err_eloop)
      else let c3 = c2 @ [Acquire Uart_Driver] in
      if \<not> ok Event_Loop_Create then (False, c3 @ err_eloop)
      else let c4 = c3 @ [Acquire Event_Loop] in
      if \<not> ok Task_Create then (False, c4 @ err_task_create)
      else (True, c4 @ [Acquire Parser_Task]))"

definition nmea_parser_deinit :: "res_call list" where
  "nmea_parser_deinit =
     [Release Parser_Task, Release Event_Loop, Release Uart_Driver, Release Line_Buffer, Release Parser_Object]"

definition murata_parser_deinit :: "res_call list" where
  "murata_parser_deinit =
     [Release Parser_Task, Release Event_Loop, Release Uart_Driver, Release Line_Buffer, Release Parser_Object]"

text \<open>What is held after a sequence of calls. A resource must not be acquired while it is held,
  and what is used by a later one (the object holds the buffer, the loop and the driver; the
  task uses them all) is released after it.\<close>

fun depends :: "resource \<Rightarrow> resource list" where
  "depends Parser_Object = [Line_Buffer, Uart_Driver, Event_Loop, Parser_Task]"
| "depends Line_Buffer = [Parser_Task]"
| "depends Uart_Driver = [Parser_Task]"
| "depends Event_Loop = [Parser_Task]"
| "depends Parser_Task = []"

fun held :: "resource list \<Rightarrow> res_call list \<Rightarrow> resource list option" where
  "held rs [] = Some rs"
| "held rs (Acquire r # cs) = (if r \<in> set rs then None else held (r # rs) cs)"
| "held rs (Release r # cs) =
     (if list_ex (\<lambda>d. d \<in> set rs) (depends r) then None else held (removeAll r rs) cs)"

lemma init_outcomes:
  "nmea_parser_init ok = (b, cs) \<Longrightarrow>
    (b \<longleftrightarrow> (\<forall>s. ok s)) \<and> held [] cs = Some (if b then
      [Parser_Task, Event_Loop, Uart_Driver, Line_Buffer, Parser_Object] else [])"
proof -
  assume run: "nmea_parser_init ok = (b, cs)"
  have all: "(\<forall>s. ok s) \<longleftrightarrow> ok Calloc_Object \<and> ok Calloc_Buffer \<and> ok Uart_Param_Config \<and> ok Uart_Set_Pin
      \<and> ok Uart_Driver_Install \<and> ok Event_Loop_Create \<and> ok Task_Create"
    by (metis init_step.exhaust)
  show ?thesis unfolding all using run
    by (auto simp: nmea_parser_init_def Let_def split: if_splits)
qed

lemma same_init: "murata_parser_init ok = nmea_parser_init ok"
  by (simp add: murata_parser_init_def nmea_parser_init_def)

section \<open>The task of the GPS parser\<close>

abbreviation (input) CONFIG_NMEA_PARSER_RING_BUFFER_SIZE :: nat where
  "CONFIG_NMEA_PARSER_RING_BUFFER_SIZE \<equiv> 1024"

definition NMEA_PARSER_RUNTIME_BUFFER_SIZE :: nat where
  "NMEA_PARSER_RUNTIME_BUFFER_SIZE = CONFIG_NMEA_PARSER_RING_BUFFER_SIZE div 2"

text \<open>\<open>esp_handle_uart_pattern\<close> of \<open>nmea_parser.c\<close>: a position of \<open>-1\<close> flushes the input, an
  error of the driver (\<open>read_len = -1\<close>) stores in front of the buffer.\<close>

definition gps_uart_pattern :: "int \<Rightarrow> string option \<Rightarrow> esp_gps \<Rightarrow> fault + esp_gps" where
  "gps_uart_pattern pos line g =
     (if pos = - 1 then Inr g
      else case line of
        None \<Rightarrow> Inl Out_Of_Bounds
      | Some bytes \<Rightarrow> if NMEA_PARSER_RUNTIME_BUFFER_SIZE \<le> length bytes then Inl Out_Of_Bounds else gps_decode g (bytes @ [NUL]))"

definition nmea_round :: "uart_event \<Rightarrow> esp_gps \<Rightarrow> fault + esp_gps" where
  "nmea_round event g = (case event of UART_PATTERN_DET pos line \<Rightarrow> gps_uart_pattern pos line g | _ \<Rightarrow> Inr g)"

definition get_gps_info :: "esp_gps \<Rightarrow> gps" where
  "get_gps_info g = gps_info g"

text \<open>Whichever step of the set-up fails, the parsers return NULL and hold nothing afterwards,
  nothing is released that something still held needs; when all steps succeed they hold all
  five resources, which the deinit functions give back in an order that respects their use.\<close>

lemma parser_init_releases:
  "\<exists>b cs. nmea_parser_init ok = (b, cs) \<and> murata_parser_init ok = (b, cs)
    \<and> (if \<forall>s. ok s then b \<and> held [] (cs @ nmea_parser_deinit) = Some []
         \<and> held [] (cs @ murata_parser_deinit) = Some []
       else \<not> b \<and> held [] cs = Some [])"
proof -
  obtain b cs where run: "nmea_parser_init ok = (b, cs)" by (cases "nmea_parser_init ok")
  have "held [] (xs @ ys) = (case held [] xs of None \<Rightarrow> None | Some rs \<Rightarrow> held rs ys)" for xs ys
  proof -
    have "held rs (xs @ ys) = (case held rs xs of None \<Rightarrow> None | Some rs' \<Rightarrow> held rs' ys)" for rs
      by (induction rs xs rule: held.induct) auto
    then show ?thesis .
  qed
  then show ?thesis using init_outcomes [OF run] run
    by (auto simp: same_init nmea_parser_deinit_def murata_parser_deinit_def)
qed

end
