(* ===== verification/Firmware_Update.thy ===== *)
theory Firmware_Update
  imports Prelude
begin

text \<open>
  The firmware update of \<open>main/main.c\<close>: \<open>ota_task\<close> downloads an image from the server, writes
  it to the update partition and sends it to the other lamps. The HTTP client and the upgrade
  library are parameters: the outcome of each attempt to connect, the value of the header, the
  sizes and write results of the reads, in the order of the calls. What the task does is the
  list of its calls.
\<close>

datatype ota_call =
    Http_Open | Fetch_Headers | Read_Body | Firmware_Init u32 | Firmware_Write nat
  | Firmware_Send | Send_Restart
  | Free_Data | Result_Free | Http_Close | Http_Cleanup | Task_Delete

record ota_env =
  client :: bool                    \<comment> \<open>\<open>esp_http_client_init\<close> did not return NULL\<close>
  open_ok :: "nat \<Rightarrow> bool"          \<comment> \<open>result of the attempts to connect\<close>
  is_root :: "nat \<Rightarrow> bool"          \<comment> \<open>\<open>esp_mesh_is_root\<close> after a failed attempt\<close>
  headers :: int                    \<comment> \<open>\<open>esp_http_client_fetch_headers\<close>, \<open>-1\<close> for an error\<close>
  init_ok :: bool
  read_size :: "nat \<Rightarrow> int"         \<comment> \<open>\<open>esp_http_client_read\<close>\<close>
  write_ok :: "nat \<Rightarrow> bool"
  send_ok :: bool
  successed_num :: nat

abbreviation exit_calls :: "ota_call list" where
  "exit_calls \<equiv> [Free_Data, Result_Free, Http_Close, Http_Cleanup, Task_Delete]"

text \<open>\<open>do { ret = open; ... } while (ret != MDF_OK)\<close>: whether it was left by \<open>goto EXIT\<close>, and the
  number of attempts. It may run for ever: \<open>None\<close> is no result.\<close>

partial_function (option) open_loop :: "ota_env \<Rightarrow> nat \<Rightarrow> (bool \<times> nat) option" where
  "open_loop env n =
     (if open_ok env n then Some (True, Suc n)
      else if \<not> is_root env n then Some (False, Suc n)
      else open_loop env (Suc n))"

text \<open>\<open>for (size = 0, recv_size = 0; recv_size < total_size; recv_size += size)\<close>: the result says
  whether the loop ended by its condition; a size of the read that is not positive or a failed
  write leaves it. \<open>total_size\<close> is unsigned, so is the comparison; \<open>recv_size\<close> is a signed 32-bit
  number, and passing its largest value is a fault.\<close>

function download_loop :: "ota_env \<Rightarrow> nat \<Rightarrow> nat \<Rightarrow> nat \<Rightarrow> fault + bool \<times> ota_call list" where
  "download_loop env total_size n recv_size =
     (if recv_size < total_size then
        (let size = read_size env n in
         if size < 0 then Inr (False, [Read_Body])
         else if size > 0 then
           (if \<not> write_ok env n then Inr (False, [Read_Body, Firmware_Write (nat size)])
            else if 2147483647 < recv_size + nat size then Inl Int_Overflow
            else andthen (download_loop env total_size (Suc n) (recv_size + nat size)) (\<lambda>(done, cs).
                  Inr (done, Read_Body # Firmware_Write (nat size) # cs)))
         else Inr (False, [Read_Body]))
      else Inr (True, []))"
  by pat_completeness auto
termination
  by (relation "measure (\<lambda>(_, total_size, _, recv_size). total_size - recv_size)") auto

declare download_loop.simps [simp del]

definition after_open :: "ota_env \<Rightarrow> fault + ota_call list" where
  "after_open env =
     (let total_size = (word_of_int (headers env) :: u32) in
      if total_size = 0 then Inr ([Fetch_Headers, Read_Body] @ exit_calls)
      else if \<not> init_ok env then Inr ([Fetch_Headers, Firmware_Init total_size] @ exit_calls)
      else andthen (download_loop env (unat total_size) 0 0) (\<lambda>(done, cs).
        Inr ([Fetch_Headers, Firmware_Init total_size] @ cs @
          (if \<not> done then exit_calls
           else if \<not> send_ok env then Firmware_Send # exit_calls
           else if successed_num env = 0 then Firmware_Send # exit_calls
           else [Firmware_Send, Send_Restart] @ exit_calls))))"

definition ota_task :: "ota_env \<Rightarrow> (fault + ota_call list) option" where
  "ota_task env =
     (if \<not> client env then Some (Inr exit_calls)
      else (case open_loop env 0 of
              None \<Rightarrow> None
            | Some (ok, n) \<Rightarrow> Some (andthen (if ok then after_open env else Inr exit_calls)
                (\<lambda>cs. Inr (replicate n Http_Open @ cs)))))"

section \<open>Lemmas\<close>

fun written :: "ota_call list \<Rightarrow> nat" where
  "written [] = 0"
| "written (Firmware_Write k # cs) = k + written cs"
| "written (c # cs) = written cs"

lemma written_append [simp]: "written (xs @ ys) = written xs + written ys"
  by (induction xs rule: written.induct) simp_all

lemma written_replicate [simp]: "written (replicate n Http_Open) = 0"
  by (induction n) simp_all

lemma download_loop_calls:
  "download_loop env tot n recv = Inr (ok, cs) \<Longrightarrow>
    set cs \<subseteq> insert Read_Body (range Firmware_Write) \<and> (ok \<longrightarrow> tot \<le> recv + written cs)"
proof (induction env tot n recv arbitrary: ok cs rule: download_loop.induct)
  case (1 env tot n recv)
  let ?size = "nat (read_size env n)"
  show ?case
  proof (cases "recv < tot \<and> 0 < read_size env n \<and> write_ok env n")
    case True
    then obtain cs' where rest: "download_loop env tot (Suc n) (recv + ?size) = Inr (ok, cs')"
        "cs = Read_Body # Firmware_Write ?size # cs'" and room: "\<not> 2147483647 < recv + ?size"
      using "1.prems" by (auto simp: download_loop.simps [of env tot n] Let_def andthen_eq_Inr split: if_splits)
    have "set cs' \<subseteq> insert Read_Body (range Firmware_Write) \<and> (ok \<longrightarrow> tot \<le> recv + ?size + written cs')"
      by (rule "1.IH" [OF _ refl _ _ _ room rest(1)]) (use True in auto)
    then show ?thesis using rest(2) by auto
  next
    case False
    then show ?thesis using "1.prems"
      by (auto simp: download_loop.simps [of env tot n] Let_def split: if_splits)
  qed
qed

text \<open>With reads of at most \<open>MWIFI_PAYLOAD_LEN\<close> bytes the received size only passes its type for
  an announced size near the largest signed number.\<close>

lemma download_loop_no_fault:
  "\<forall>n. read_size env n \<le> 1456 \<Longrightarrow> tot \<le> 2147482191 \<Longrightarrow> \<exists>r. download_loop env tot n recv = Inr r"
proof (induction env tot n recv rule: download_loop.induct)
  case (1 env tot n recv)
  let ?size = "nat (read_size env n)"
  show ?case
  proof (cases "recv < tot \<and> 0 < read_size env n \<and> write_ok env n")
    case True
    have "read_size env n \<le> 1456" using "1.prems"(1) by blast
    then have room: "\<not> 2147483647 < recv + ?size" using True "1.prems"(2) by linarith
    have "\<exists>r. download_loop env tot (Suc n) (recv + ?size) = Inr r"
      by (rule "1.IH" [OF _ refl _ _ _ room "1.prems"]) (use True in auto)
    then show ?thesis using True room by (auto simp: download_loop.simps [of env tot n] Let_def)
  next
    case False
    then show ?thesis by (auto simp: download_loop.simps [of env tot n] Let_def)
  qed
qed

lemma open_loop_ends:
  assumes "open_loop env n = Some y"
  shows "\<exists>k. open_ok env k \<or> \<not> is_root env k"
proof (rule open_loop.raw_induct [where P = "\<lambda>env n y. \<exists>k. open_ok env k \<or> \<not> is_root env k", OF _ assms])
  fix loop :: "ota_env \<Rightarrow> nat \<Rightarrow> (bool \<times> nat) option" and env n y
  assume IH: "\<And>env n y. loop env n = Some y \<Longrightarrow> \<exists>k. open_ok env k \<or> \<not> is_root env k"
    and body: "(if open_ok env n then Some (True, Suc n) else if \<not> is_root env n then Some (False, Suc n)
      else loop env (Suc n)) = Some y"
  show "\<exists>k. open_ok env k \<or> \<not> is_root env k"
  proof (cases "open_ok env n \<or> \<not> is_root env n")
    case False
    then have "loop env (Suc n) = Some y" using body by simp
    then show ?thesis by (rule IH)
  qed blast
qed

lemma open_loop_first:
  "open_ok env n \<or> \<not> is_root env n \<Longrightarrow> \<forall>j<n. \<not> open_ok env j \<and> is_root env j \<Longrightarrow> k \<le> n \<Longrightarrow>
    open_loop env k = Some (open_ok env n, Suc n)"
proof (induction "n - k" arbitrary: k)
  case 0
  then have "k = n" by simp
  then show ?case using 0 by (subst open_loop.simps) auto
next
  case (Suc d)
  then have "k < n" "d = n - Suc k" by auto
  then show ?case using Suc by (subst open_loop.simps) auto
qed

text \<open>The connection loop ends exactly when an attempt succeeds or the lamp is no longer root.\<close>

lemma open_loop_spec:
  "open_loop env 0 = (if \<exists>n. open_ok env n \<or> \<not> is_root env n
     then let n = LEAST n. open_ok env n \<or> \<not> is_root env n in Some (open_ok env n, Suc n) else None)"
proof (cases "\<exists>n. open_ok env n \<or> \<not> is_root env n")
  case True
  let ?n = "LEAST n. open_ok env n \<or> \<not> is_root env n"
  have "open_ok env ?n \<or> \<not> is_root env ?n" by (rule LeastI_ex [OF True])
  moreover have "\<forall>j<?n. \<not> open_ok env j \<and> is_root env j" using not_less_Least by blast
  ultimately have "open_loop env 0 = Some (open_ok env ?n, Suc ?n)" by (rule open_loop_first) simp
  then show ?thesis using True by (simp add: Let_def)
next
  case False
  then have "open_loop env 0 \<noteq> Some y" for y using open_loop_ends [of env 0 y] by blast
  then have "open_loop env 0 = None" by (cases "open_loop env 0") auto
  then show ?thesis using False by simp
qed

definition image_size :: "ota_env \<Rightarrow> nat" where
  "image_size env = unat (word_of_int (headers env) :: u32)"

lemma after_open_calls:
  assumes "after_open env = Inr cs"
  shows "\<exists>body. cs = body @ exit_calls \<and> set body \<inter> set exit_calls = {}
    \<and> (Firmware_Send \<in> set body \<longrightarrow> init_ok env \<and> 0 < image_size env \<and> image_size env \<le> written body)"
proof -
  let ?T = "word_of_int (headers env) :: u32"
  let ?P = "\<lambda>body. cs = body @ exit_calls \<and> set body \<inter> set exit_calls = {}
    \<and> (Firmware_Send \<in> set body \<longrightarrow> init_ok env \<and> 0 < image_size env \<and> image_size env \<le> written body)"
  consider "?T = 0" | "?T \<noteq> 0" "\<not> init_ok env" | "?T \<noteq> 0" "init_ok env" by blast
  then have "\<exists>body. ?P body"
  proof cases
    case 1
    then have "?P [Fetch_Headers, Read_Body]" using assms by (simp add: after_open_def)
    then show ?thesis by blast
  next
    case 2
    then have "?P [Fetch_Headers, Firmware_Init ?T]" using assms by (simp add: after_open_def)
    then show ?thesis by blast
  next
    case 3
    then obtain ok ds where d: "download_loop env (image_size env) 0 0 = Inr (ok, ds)"
      using assms by (auto simp: after_open_def Let_def andthen_eq_Inr image_size_def)
    note calls = download_loop_calls [OF d]
    let ?tail = "if \<not> ok then [] else if \<not> send_ok env \<or> successed_num env = 0 then [Firmware_Send]
      else [Firmware_Send, Send_Restart]"
    let ?body = "[Fetch_Headers, Firmware_Init ?T] @ ds @ ?tail"
    have "cs = ?body @ exit_calls" using assms 3 d by (auto simp: after_open_def image_size_def Let_def)
    moreover have "set ?body \<inter> set exit_calls = {}" using calls by auto
    moreover have "Firmware_Send \<in> set ?body \<longrightarrow> init_ok env \<and> 0 < image_size env \<and> image_size env \<le> written ?body"
      using calls 3 by (auto simp: image_size_def unat_gt_0 split: if_splits)
    ultimately have "?P ?body" by blast
    then show ?thesis by blast
  qed
  then show ?thesis .
qed

lemma after_open_no_fault:
  "\<forall>n. read_size env n \<le> 1456 \<Longrightarrow> image_size env \<le> 2147482191 \<Longrightarrow> \<exists>cs. after_open env = Inr cs"
  using download_loop_no_fault [of env "image_size env" 0 0]
  by (auto simp: after_open_def image_size_def Let_def)

section \<open>Properties\<close>


definition sample_ota :: ota_env where
  "sample_ota = \<lparr>client = True, open_ok = (\<lambda>_. True), is_root = (\<lambda>_. True), headers = 5, init_ok = True,
     read_size = (\<lambda>_. 3), write_ok = (\<lambda>_. True), send_ok = True, successed_num = 1\<rparr>"


text \<open>An error of the headers, \<open>-1\<close>, is not the size 0 the task tests for.\<close>

lemma header_error_is_a_size: "headers env = - 1 \<Longrightarrow> image_size env = 4294967295"
  by (simp add: image_size_def unsigned_minus_1_eq_mask mask_eq_exp_minus_1)

end
