(* ===== verification/Startup.thy ===== *)
theory Startup
  imports Nvs_Storage C_Float
begin

text \<open>
  The start of the firmware and its housekeeping: the supply voltage
  (\<open>CM-TOOLS/voltage.c\<close>), and from \<open>main/main.c\<close> the mesh configuration made from the profile,
  \<open>wifi_init\<close>, the events of the mesh, one message of the reader of the root's messages (its loop
  is in \<open>Mesh_Readers\<close>) and the timer that restarts a lamp short of memory.
\<close>

section \<open>Voltage\<close>

text \<open>\<open>raw i\<close> is what the converter stores in the \<open>i\<close>-th sample; an error of
  \<open>adc2_get_raw\<close> stores nothing and is not looked at.\<close>

fun sum_samples :: "(nat \<Rightarrow> int option) \<Rightarrow> nat \<Rightarrow> nat \<Rightarrow> int \<Rightarrow> fault + int" where
  "sum_samples raw i 0 volt_read = Inr volt_read"
| "sum_samples raw i (Suc n) volt_read =
     (case raw i of
        None \<Rightarrow> Inl Uninit_Read
      | Some r \<Rightarrow> if volt_read + r > 2147483647 \<or> volt_read + r < - 2147483648 then Inl Int_Overflow
                  else sum_samples raw (Suc i) n (volt_read + r))"

definition NO_OF_SAMPLES :: nat where "NO_OF_SAMPLES = 1000"

definition read_voltage :: "(nat \<Rightarrow> int option) \<Rightarrow> fault + int" where
  "read_voltage raw =
     andthen (sum_samples raw 0 NO_OF_SAMPLES 0) (\<lambda>volt_read. Inr (volt_read sdiv int NO_OF_SAMPLES))"

text \<open>\<open>voltage_sl = read_voltage ()/100.00\<close>\<close>

definition supply_voltage :: "(nat \<Rightarrow> int option) \<Rightarrow> fault + c_float" where
  "supply_voltage raw =
     andthen (read_voltage raw) (\<lambda>v. Inr (narrow (f_div_const to_f64 (to_f64 (of_int v)) 100)))"

lemma sum_samples_bounds:
  "(\<And>j. i \<le> j \<Longrightarrow> j < i + n \<Longrightarrow> \<exists>r. raw j = Some r \<and> lo \<le> r \<and> r \<le> hi) \<Longrightarrow> 0 \<le> lo \<Longrightarrow> 0 \<le> s \<Longrightarrow>
    s + int n * hi \<le> 2147483647 \<Longrightarrow>
    \<exists>t. sum_samples raw i n s = Inr t \<and> s + int n * lo \<le> t \<and> t \<le> s + int n * hi"
proof (induction n arbitrary: i s)
  case 0
  then show ?case by simp
next
  case (Suc n)
  obtain r where r: "raw i = Some r" "lo \<le> r" "r \<le> hi" using Suc.prems(1) [of i] by auto
  have hi: "0 \<le> int n * hi" using Suc.prems(2) r(2,3) by simp
  have sum: "int (Suc n) * hi = hi + int n * hi" "int (Suc n) * lo = lo + int n * lo"
    by (simp_all add: algebra_simps)
  have room: "s + r \<le> 2147483647" "0 \<le> s + r" using hi sum(1) Suc.prems(2-4) r(2,3) by linarith+
  have "\<exists>t. sum_samples raw (Suc i) n (s + r) = Inr t \<and> s + r + int n * lo \<le> t \<and> t \<le> s + r + int n * hi"
    by (rule Suc.IH) (use Suc.prems r sum in auto)
  then obtain t where t: "sum_samples raw (Suc i) n (s + r) = Inr t" "s + r + int n * lo \<le> t"
      "t \<le> s + r + int n * hi" by blast
  have "s + int (Suc n) * lo \<le> t" "t \<le> s + int (Suc n) * hi" using t(2,3) sum r(2,3) by linarith+
  then show ?case using r(1) room t(1) by simp
qed

text \<open>The mean of samples of the 12-bit converter lies between the smallest and the largest.\<close>

lemma read_voltage_mean:
  assumes "\<And>j. j < 1000 \<Longrightarrow> \<exists>r. raw j = Some r \<and> lo \<le> r \<and> r \<le> hi" "0 \<le> lo" "hi \<le> 4095"
  shows "\<exists>v. read_voltage raw = Inr v \<and> lo \<le> v \<and> v \<le> hi"
proof -
  obtain t where t: "sum_samples raw 0 1000 0 = Inr t" "1000 * lo \<le> t" "t \<le> 1000 * hi"
    using sum_samples_bounds [of 0 1000 raw lo hi 0] assms by auto
  have "0 \<le> t" using t(2) assms(2) by linarith
  then have "t sdiv 1000 = t div 1000" by (rule sdiv_nonneg) simp
  moreover have "lo \<le> t div 1000" "t div 1000 \<le> hi" using t(2,3) by linarith+
  ultimately show ?thesis using t(1) by (simp add: read_voltage_def NO_OF_SAMPLES_def)
qed

section \<open>Mesh\<close>

text \<open>The configuration \<open>app_main\<close> makes from the profile: the channel, and the id, one byte for
  each digit. The names of the router are \<open>CONFIG_ROUTER_SSID\<close> and \<open>CONFIG_ROUTER_PASS\<close>.\<close>

datatype mesh_type = MESH_ROOT | MESH_OTHER

record mwifi_config =
  router_ssid :: string
  router_password :: string
  channel :: u8
  mesh_id :: "u8 list"
  mesh_type :: mesh_type

definition mesh_config :: "string \<Rightarrow> string \<Rightarrow> led_status \<Rightarrow> mwifi_config" where
  "mesh_config CONFIG_ROUTER_SSID CONFIG_ROUTER_PASS led =
     \<lparr>router_ssid = CONFIG_ROUTER_SSID, router_password = CONFIG_ROUTER_PASS, channel = meshch led,
      mesh_id = map word_of_int (take 6 (meshid led)), mesh_type = MESH_ROOT\<rparr>"

text \<open>The ids whose bytes the mesh gets unchanged.\<close>

lemma mesh_id_bytes:
  "length (meshid led) = 6 \<Longrightarrow> \<forall>d \<in> set (meshid led). 0 \<le> d \<and> d < 256 \<Longrightarrow>
    map uint (mesh_id (mesh_config ssid pass led)) = meshid led"
  by (auto simp: mesh_config_def unsigned_of_int take_bit_int_eq_self map_idI)

datatype wifi_step =
    Nvs_Flash_Init | Nvs_Flash_Erase | Tcpip_Init | Event_Loop_Init | Wifi_Init | Set_Storage
  | Set_Mode | Set_Ps | Set_6m_Rate | Wifi_Start | Abort

fun asserted :: "(wifi_step \<Rightarrow> bool) \<Rightarrow> wifi_step list \<Rightarrow> wifi_step list" where
  "asserted ok [] = []"
| "asserted ok (s # ss) = s # (if s = Tcpip_Init \<or> ok s then asserted ok ss else [Abort])"

text \<open>\<open>wifi_init\<close>: \<open>full\<close> says that the flash has no free page or a new version, \<open>again\<close> whether
  the second initialisation works; every other call but \<open>tcpip_adapter_init\<close> is asserted.\<close>

definition wifi_init :: "bool \<Rightarrow> bool \<Rightarrow> (wifi_step \<Rightarrow> bool) \<Rightarrow> wifi_step list" where
  "wifi_init full again ok =
     (let rest = asserted ok [Tcpip_Init, Event_Loop_Init, Wifi_Init, Set_Storage, Set_Mode, Set_Ps,
                              Set_6m_Rate, Wifi_Start]
      in if full then
           (if \<not> ok Nvs_Flash_Erase then [Nvs_Flash_Init, Nvs_Flash_Erase, Abort]
            else [Nvs_Flash_Init, Nvs_Flash_Erase, Nvs_Flash_Init] @ (if again then rest else [Abort]))
         else Nvs_Flash_Init # (if ok Nvs_Flash_Init then rest else [Abort]))"

datatype mdf_event =
    MDF_EVENT_MWIFI_STARTED | MDF_EVENT_MWIFI_PARENT_CONNECTED | MDF_EVENT_MWIFI_PARENT_DISCONNECTED
  | MDF_EVENT_MWIFI_ROOT_GOT_IP | MDF_EVENT_MUPGRADE_STARTED | MDF_EVENT_MUPGRADE_STATUS | MDF_EVENT_OTHER

datatype mesh_task = Root_Read_Task | Node_Read_Task

definition event_loop_cb :: "mdf_event \<Rightarrow> mesh_task list" where
  "event_loop_cb event =
     (case event of
        MDF_EVENT_MWIFI_PARENT_CONNECTED \<Rightarrow> [Root_Read_Task, Node_Read_Task]
      | _ \<Rightarrow> [])"

text \<open>One message read by \<open>node_read_task\<close>: whether it is handed to the upgrade library, and
  whether the lamp restarts.\<close>

definition node_read :: "bool \<Rightarrow> string \<Rightarrow> bool \<times> bool" where
  "node_read upgrade data = (if upgrade then (True, False) else (False, data = ''restart''))"

text \<open>\<open>print_system_info_timercb\<close>: restart when less than 8000 bytes are free.\<close>

definition low_memory_restart :: "nat \<Rightarrow> bool" where
  "low_memory_restart free_heap \<longleftrightarrow> free_heap < 8000"

end
