(* ===== verification/Boot_Order.thy ===== *)
theory Boot_Order
  imports Msg_Queue
begin

text \<open>
  The order of the set-up in \<open>app_main\<close> (\<open>main/main.c\<close>) against the tasks it starts: the tasks
  run as soon as their call is done, while \<open>app_main\<close> goes on. The four users of the message
  queue are the mesh reader, the LoRaWAN parser, the bridge and the timer; \<open>queue\<close> is the null
  pointer until \<open>queue_init\<close>. A run is a sequence of calls of \<open>app_main\<close> and uses of the queue in
  any order the starts allow.
\<close>

section \<open>Set-up as a sequence of calls\<close>

datatype boot_call =
    Mdf_Event_Loop_Init | Wifi_Init_Call | Mwifi_Init | Mwifi_Set_Config | Mwifi_Start
  | Init_Bluetooth | Init_Si7006 | Nmea_Parser_Init | Init_Led | Queue_Init
  | Murata_Parser_Init | Murata_Add_Handler | Lora_Init | Create_ReadCMD   \<comment> \<open>\<open>init_LoraWAN\<close>\<close>
  | Create_Bridge | Start_Info_Timer | Create_Working_Timer | Start_Working_Timer

definition app_main :: "boot_call list" where
  "app_main =
     [Mdf_Event_Loop_Init, Wifi_Init_Call, Mwifi_Init, Mwifi_Set_Config, Mwifi_Start,
      Init_Bluetooth, Init_Si7006, Nmea_Parser_Init, Init_Led, Queue_Init,
      Murata_Parser_Init, Murata_Add_Handler, Lora_Init, Create_ReadCMD, Create_Bridge,
      Start_Info_Timer, Create_Working_Timer, Start_Working_Timer]"

text \<open>The calls under \<open>MDF_ERROR_ASSERT\<close> or \<open>ESP_ERROR_CHECK\<close>: their failure stops the chip.\<close>

fun checked :: "boot_call \<Rightarrow> bool" where
  "checked c \<longleftrightarrow> c \<in> {Mdf_Event_Loop_Init, Wifi_Init_Call, Mwifi_Init, Mwifi_Set_Config, Mwifi_Start,
     Create_Working_Timer, Start_Working_Timer}"

datatype queue_user = Mesh_Reader | Lorawan_Parser | Bridge | Working_Timer

text \<open>The call after which a user of the queue may run.\<close>

fun started_by :: "queue_user \<Rightarrow> boot_call" where
  "started_by Mesh_Reader = Mwifi_Start"          \<comment> \<open>\<open>event_loop_cb\<close> creates \<open>root_read_task\<close>\<close>
| "started_by Lorawan_Parser = Murata_Add_Handler"
| "started_by Bridge = Create_Bridge"
| "started_by Working_Timer = Start_Working_Timer"

record boot =
  calls_done :: "boot_call list"
  calls_todo :: "boot_call list"
  aborted :: bool
  boot_queue :: "msg_queue option"

definition power_on :: boot where
  "power_on = \<lparr>calls_done = [], calls_todo = app_main, aborted = False, boot_queue = None\<rparr>"

datatype boot_event = Main bool | Use queue_user "string queue_op"

text \<open>\<open>enqueue\<close> and \<open>isEmpty\<close> read \<open>queue->size\<close> first, which is a null dereference before
  \<open>queue_init\<close>.\<close>

fun queue_access :: "string queue_op \<Rightarrow> msg_queue option \<Rightarrow> fault + msg_queue" where
  "queue_access op None = Inl Bad_Pointer"
| "queue_access (Put s) (Some q) = enqueue q s"
| "queue_access Get (Some q) = andthen (take_msg q) (\<lambda>(_, q'). Inr q')"

text \<open>\<open>None\<close>: the event is not possible in this state. \<open>junk\<close> is the memory of the slots.\<close>

fun boot_step :: "string list \<Rightarrow> boot_event \<Rightarrow> boot \<Rightarrow> (fault + boot) option" where
  "boot_step junk (Main ok) b =
     (if aborted b then None
      else case calls_todo b of
        [] \<Rightarrow> None
      | c # cs \<Rightarrow>
          if checked c \<and> \<not> ok then Some (Inr (b\<lparr>aborted := True\<rparr>))
          else Some (Inr (b\<lparr>calls_done := calls_done b @ [c], calls_todo := cs,
                 boot_queue := (if c = Queue_Init then Some (queue_init junk) else boot_queue b)\<rparr>)))"
| "boot_step junk (Use u op) b =
     (if aborted b \<or> started_by u \<notin> set (calls_done b) then None
      else Some (andthen (queue_access op (boot_queue b)) (\<lambda>q. Inr (b\<lparr>boot_queue := Some q\<rparr>))))"

fun boot_run :: "string list \<Rightarrow> boot_event list \<Rightarrow> boot \<Rightarrow> (fault + boot) option" where
  "boot_run junk [] b = Some (Inr b)"
| "boot_run junk (e # es) b =
     (case boot_step junk e b of
        None \<Rightarrow> None
      | Some (Inl f) \<Rightarrow> if es = [] then Some (Inl f) else None
      | Some (Inr b') \<Rightarrow> boot_run junk es b')"

section \<open>Invariant\<close>

definition boot_inv :: "boot \<Rightarrow> bool" where
  "boot_inv b \<longleftrightarrow> calls_done b @ calls_todo b = app_main \<and>
     (case boot_queue b of None \<Rightarrow> Queue_Init \<notin> set (calls_done b)
      | Some q \<Rightarrow> Queue_Init \<in> set (calls_done b) \<and> queue_inv 32 q)"

lemma boot_inv_power_on: "boot_inv power_on"
  by (simp add: boot_inv_def power_on_def)

lemma queue_access_ok: "queue_inv 32 q \<Longrightarrow> \<exists>q'. queue_access op (Some q) = Inr q' \<and> queue_inv 32 q'"
  using mq.put_law [of 32 q] mq.get_law [of 32 q] by (cases op) fastforce+

text \<open>The calls in the order of \<open>app_main\<close>: everything but the mesh reader starts after
  \<open>queue_init\<close>.\<close>

primrec boot_index :: "boot_call \<Rightarrow> nat" where
  "boot_index Mdf_Event_Loop_Init = 0" | "boot_index Wifi_Init_Call = 1" | "boot_index Mwifi_Init = 2"
| "boot_index Mwifi_Set_Config = 3" | "boot_index Mwifi_Start = 4" | "boot_index Init_Bluetooth = 5"
| "boot_index Init_Si7006 = 6" | "boot_index Nmea_Parser_Init = 7" | "boot_index Init_Led = 8"
| "boot_index Queue_Init = 9" | "boot_index Murata_Parser_Init = 10" | "boot_index Murata_Add_Handler = 11"
| "boot_index Lora_Init = 12" | "boot_index Create_ReadCMD = 13" | "boot_index Create_Bridge = 14"
| "boot_index Start_Info_Timer = 15" | "boot_index Create_Working_Timer = 16"
| "boot_index Start_Working_Timer = 17"

lemma boot_index_inj: "boot_index c = boot_index d \<Longrightarrow> c = d"
  by (cases c; cases d; simp)

instantiation boot_call :: linorder
begin

definition less_eq_boot_call :: "boot_call \<Rightarrow> boot_call \<Rightarrow> bool" where
  "c \<le> d \<longleftrightarrow> boot_index c \<le> boot_index d"

definition less_boot_call :: "boot_call \<Rightarrow> boot_call \<Rightarrow> bool" where
  "c < d \<longleftrightarrow> boot_index c < boot_index d"

instance
  by standard (auto simp: less_eq_boot_call_def less_boot_call_def dest: boot_index_inj)

end

lemma app_main_sorted: "sorted app_main" "Queue_Init \<in> set app_main"
  by (simp_all add: app_main_def less_eq_boot_call_def)

lemma early_users: "started_by u \<le> Queue_Init \<longleftrightarrow> u = Mesh_Reader"
  by (cases u) (simp_all add: less_eq_boot_call_def)

lemma app_main_prefix:
  assumes "xs @ ys = app_main" "started_by u \<in> set xs" "Queue_Init \<notin> set xs"
  shows "u = Mesh_Reader"
proof -
  have "sorted (xs @ ys)" "Queue_Init \<in> set ys" using app_main_sorted assms(1,3) by (simp, metis Un_iff set_append)
  then have "started_by u \<le> Queue_Init" using assms(2) by (auto simp: sorted_append)
  then show ?thesis by (simp add: early_users)
qed

lemma boot_step_inv:
  assumes inv: "boot_inv b" and step: "boot_step junk e b = Some r" and junk: "queue_inv 32 (queue_init junk)"
  shows "case r of Inr b' \<Rightarrow> boot_inv b'
    | Inl f \<Rightarrow> f = Bad_Pointer \<and> (\<exists>op. e = Use Mesh_Reader op) \<and> boot_queue b = None"
proof (cases e)
  case (Main ok)
  then show ?thesis using inv step junk
    by (auto simp: boot_inv_def split: if_splits list.splits option.splits)
next
  case (Use u op)
  show ?thesis
  proof (cases "boot_queue b")
    case None
    then have "u = Mesh_Reader"
      using app_main_prefix [of "calls_done b" "calls_todo b" u] inv step Use
      by (auto simp: boot_inv_def split: if_splits)
    then show ?thesis using step Use None by (auto split: if_splits)
  next
    case (Some q)
    then obtain q' where "queue_access op (Some q) = Inr q'" "queue_inv 32 q'"
      using queue_access_ok inv by (auto simp: boot_inv_def)
    then show ?thesis using inv step Use Some by (auto simp: boot_inv_def split: if_splits)
  qed
qed

lemma boot_run_inv:
  assumes "boot_inv b" "boot_run junk es b = Some r" "queue_inv 32 (queue_init junk)"
  shows "case r of Inr b' \<Rightarrow> boot_inv b'
    | Inl f \<Rightarrow> f = Bad_Pointer \<and> (\<exists>es' op b'. es = es' @ [Use Mesh_Reader op] \<and>
        boot_run junk es' b = Some (Inr b') \<and> Queue_Init \<notin> set (calls_done b'))"
  using assms(1,2)
proof (induction es arbitrary: b)
  case Nil
  then show ?case by auto
next
  case (Cons e es)
  obtain r1 where r1: "boot_step junk e b = Some r1" using Cons.prems(2) by (auto split: option.splits)
  note step = boot_step_inv [OF Cons.prems(1) r1 assms(3)]
  show ?case
  proof (cases r1)
    case (Inl f)
    then obtain op where "f = Bad_Pointer" "e = Use Mesh_Reader op" "boot_queue b = None" using step by auto
    moreover have "es = []" "r = Inl f" using Cons.prems(2) r1 Inl by (auto split: if_splits)
    moreover have "Queue_Init \<notin> set (calls_done b)" using Cons.prems(1) \<open>boot_queue b = None\<close>
      by (simp add: boot_inv_def)
    ultimately show ?thesis by (auto intro!: exI [of _ "[] :: boot_event list"])
  next
    case (Inr b1)
    then have ih: "case r of Inr b' \<Rightarrow> boot_inv b'
        | Inl f \<Rightarrow> f = Bad_Pointer \<and> (\<exists>es' op b'. es = es' @ [Use Mesh_Reader op] \<and>
            boot_run junk es' b1 = Some (Inr b') \<and> Queue_Init \<notin> set (calls_done b'))"
      using Cons.IH [of b1] Cons.prems(2) r1 step by simp
    show ?thesis
    proof (cases r)
      case (Inl f)
      then obtain es' op b' where "f = Bad_Pointer" "es = es' @ [Use Mesh_Reader op]"
          "boot_run junk es' b1 = Some (Inr b')" "Queue_Init \<notin> set (calls_done b')" using ih by auto
      then have "e # es = (e # es') @ [Use Mesh_Reader op]" "boot_run junk (e # es') b = Some (Inr b')"
        using r1 \<open>r1 = Inr b1\<close> by simp_all
      then show ?thesis using Inl \<open>f = Bad_Pointer\<close> \<open>Queue_Init \<notin> set (calls_done b')\<close> by simp
    next
      case (Inr b2)
      then show ?thesis using ih by simp
    qed
  qed
qed

section \<open>Properties\<close>

text \<open>C29: In every interleaving of the set-up with the tasks it has started, the queue is used
  before \<open>queue_init\<close> by the mesh reader only, and every other access is free of faults; the
  mesh reader can be that early, because the mesh is started five calls before the queue: a
  report that arrives in between dereferences the null pointer.\<close>

theorem queue_used_before_init:
  assumes "length junk = 32" "\<forall>s \<in> set junk. length s = QUEUE_MAX_MSG_SIZE"
  shows "(\<forall>es f. boot_run junk es power_on = Some (Inl f) \<longrightarrow> f = Bad_Pointer \<and>
      (\<exists>es' op b. es = es' @ [Use Mesh_Reader op] \<and> boot_run junk es' power_on = Some (Inr b)
        \<and> Queue_Init \<notin> set (calls_done b)))
    \<and> boot_run junk (replicate 5 (Main True) @ [Use Mesh_Reader (Put report)]) power_on = Some (Inl Bad_Pointer)"
proof (intro conjI allI impI)
  note init = queue_init_inv(1) [OF assms]
  fix es f
  assume "boot_run junk es power_on = Some (Inl f)"
  then show "f = Bad_Pointer"
    "\<exists>es' op b. es = es' @ [Use Mesh_Reader op] \<and> boot_run junk es' power_on = Some (Inr b)
        \<and> Queue_Init \<notin> set (calls_done b)"
    using boot_run_inv [OF boot_inv_power_on _ init] by fastforce+
next
  show "boot_run junk (replicate 5 (Main True) @ [Use Mesh_Reader (Put report)]) power_on = Some (Inl Bad_Pointer)"
    by (simp add: numeral_eq_Suc power_on_def app_main_def)
qed

theorem queue_used_before_init_witness:
  "boot_run (replicate 32 (replicate 127 NUL)) (replicate 5 (Main True) @ [Use Mesh_Reader (Put ''96'')]) power_on
    = Some (Inl Bad_Pointer)"
  using queue_used_before_init [of "replicate 32 (replicate 127 NUL)" "''96''"] by simp

end
