(* ===== verification/Queue_Race.thy ===== *)
theory Queue_Race
  imports Msg_Queue
begin

text \<open>
  The queue of \<open>components/CM-QUEUE/queue.c\<close> under preemption. It has no lock, and it is used by
  tasks of different priority: the mesh reader, the LoRaWAN parser and the timer enqueue, the
  bridge dequeues. Here \<open>enqueue\<close> and \<open>dequeue\<close> are taken statement by statement, the updates of
  \<open>size\<close> as a load and a store, and a run interleaves the statements of several callers by a
  schedule. Alone, the statements are \<open>enqueue\<close> and \<open>dequeue\<close> of \<open>Msg_Queue\<close>.
\<close>

section \<open>Statements and schedules\<close>

datatype queue_pc =
    E_Full | E_Rear | E_Clear | E_Copy | E_Load | E_Store u32
  | D_Empty | D_Item | D_Front msg_ptr | D_Load msg_ptr | D_Store msg_ptr u32
  | Returned "msg_ptr option"

fun queue_stmt :: "string \<Rightarrow> queue_pc \<Rightarrow> msg_queue \<Rightarrow> fault + (queue_pc \<times> msg_queue)" where
  "queue_stmt item E_Full q = Inr (if isFull q then Returned None else E_Rear, q)"
| "queue_stmt item E_Rear q =
     (if q_capacity q = 0 then Inl Div_Zero
      else Inr (E_Clear, q\<lparr>q_rear := (q_rear q + 1) mod q_capacity q\<rparr>))"
| "queue_stmt item E_Clear q =
     andthen (wr (q_array q) (unat (q_rear q)) (replicate QUEUE_MAX_MSG_SIZE NUL)) (\<lambda>arr.
     Inr (E_Copy, q\<lparr>q_array := arr\<rparr>))"
| "queue_stmt item E_Copy q =
     andthen (rd (q_array q) (unat (q_rear q))) (\<lambda>slot.
     andthen (strncpy_to slot item (QUEUE_MAX_MSG_SIZE - 1)) (\<lambda>msg.
     Inr (E_Load, q\<lparr>q_array := (q_array q)[unat (q_rear q) := msg]\<rparr>)))"
| "queue_stmt item E_Load q = Inr (E_Store (q_size q + 1), q)"
| "queue_stmt item (E_Store w) q = Inr (Returned None, q\<lparr>q_size := w\<rparr>)"
| "queue_stmt item D_Empty q = Inr (if isEmpty q then Returned (Some INT_MIN_ptr) else D_Item, q)"
| "queue_stmt item D_Item q = Inr (D_Front (Slot_ptr (unat (q_front q))), q)"
| "queue_stmt item (D_Front p) q =
     (if q_capacity q = 0 then Inl Div_Zero
      else Inr (D_Load p, q\<lparr>q_front := (q_front q + 1) mod q_capacity q\<rparr>))"
| "queue_stmt item (D_Load p) q = Inr (D_Store p (q_size q - 1), q)"
| "queue_stmt item (D_Store p w) q = Inr (Returned (Some p), q\<lparr>q_size := w\<rparr>)"
| "queue_stmt item (Returned r) q = Inr (Returned r, q)"

text \<open>A caller is its position and its argument; the schedule names the caller of each step.\<close>

fun race_run ::
  "nat list \<Rightarrow> (queue_pc \<times> string) list \<Rightarrow> msg_queue \<Rightarrow> fault + ((queue_pc \<times> string) list \<times> msg_queue)" where
  "race_run [] ts q = Inr (ts, q)"
| "race_run (i # is) ts q =
     (if length ts \<le> i then race_run is ts q
      else andthen (queue_stmt (snd (ts ! i)) (fst (ts ! i)) q) (\<lambda>(pc, q').
        race_run is (ts[i := (pc, snd (ts ! i))]) q'))"

lemma race_run_append:
  "race_run (is @ js) ts q = andthen (race_run is ts q) (\<lambda>(ts', q'). race_run js ts' q')"
  by (induction "is" ts q rule: race_run.induct) (auto simp: andthen_def split: sum.splits)

section \<open>One caller alone\<close>

lemma enqueue_alone:
  "race_run (replicate 6 0) [(E_Full, item)] q = andthen (enqueue q item) (\<lambda>q'. Inr ([(Returned None, item)], q'))"
proof (cases "isFull q \<or> q_capacity q = 0")
  case True
  then show ?thesis by (auto simp: numeral_eq_Suc enqueue_def)
next
  case False
  let ?r = "unat ((q_rear q + 1) mod q_capacity q)"
  show ?thesis using False
    by (cases "?r < length (q_array q)") (simp_all add: numeral_eq_Suc enqueue_def Let_def rd_def wr_def
      strncpy_to_def)
qed

lemma dequeue_alone:
  "race_run (replicate 5 0) [(D_Empty, item)] q =
    andthen (dequeue q) (\<lambda>(p, q'). Inr ([(Returned (Some p), item)], q'))"
  by (simp add: numeral_eq_Suc dequeue_def)

section \<open>Two callers\<close>

text \<open>An enqueue preempted between its advance of \<open>rear\<close> and its store of the message, by another
  enqueue: both write the slot of the second.\<close>

lemma preempted_enqueue:
  assumes inv: "queue_inv n q" and room: "Suc (Suc (unat (q_size q))) \<le> n"
  defines "s0 \<equiv> slot_at q (unat (q_size q))" and "s1 \<equiv> slot_at q (Suc (unat (q_size q)))"
  shows "\<exists>q' d. race_run ([0, 0] @ replicate 6 1 @ replicate 4 0) [(E_Full, a), (E_Full, b)] q
      = Inr ([(Returned None, a), (Returned None, b)], q')
    \<and> q_front q' = q_front q \<and> q_capacity q' = q_capacity q \<and> unat (q_size q') = Suc (Suc (unat (q_size q)))
    \<and> q_array q' = (q_array q)[s1 := d] \<and> upto_nul d = clip_msg a"
proof -
  note q = queue_invD [OF inv]
  let ?R0 = "(q_rear q + 1) mod q_capacity q"
  let ?R1 = "(?R0 + 1) mod q_capacity q"
  have R0: "unat ?R0 = s0" by (simp add: next_rear [OF inv] s0_def slot_at_def q(1))
  have "s0 < n" using q(2) by (simp add: s0_def slot_at_def q(1))
  then have "unat (?R0 + 1) = Suc s0" using unat_inc_small [of ?R0] q(3) by (simp add: R0)
  then have R1: "unat ?R1 = s1" by (simp add: unat_mod q(1) s0_def s1_def slot_at_def mod_Suc_eq)
  have len: "s1 < length (q_array q)" using q(2) by (simp add: s1_def slot_at_def q(1,4))
  have full: "\<not> isFull q" using room by (simp add: isFull_iff [OF inv])
  obtain da db where d: "strncpy_to (replicate QUEUE_MAX_MSG_SIZE NUL) a (QUEUE_MAX_MSG_SIZE - 1) = Inr da"
      "upto_nul da = clip_msg a"
      "strncpy_to (replicate QUEUE_MAX_MSG_SIZE NUL) b (QUEUE_MAX_MSG_SIZE - 1) = Inr db"
    using cleared_slot [of a] cleared_slot [of b] by blast
  have "unat (q_size q + 1) = Suc (unat (q_size q))" by (rule unat_inc_small) (use room q(3) in simp)
  moreover have "unat (q_size q + 1 + 1) = Suc (unat (q_size q + 1))"
    by (rule unat_inc_small) (use calculation room q(3) in simp)
  ultimately have size: "unat (q_size q + 1 + 1) = Suc (Suc (unat (q_size q)))" by simp
  let ?q = "q\<lparr>q_rear := ?R1, q_array := (q_array q)[s1 := da], q_size := q_size q + 1 + 1\<rparr>"
  have "race_run ([0, 0] @ replicate 6 1 @ replicate 4 0) [(E_Full, a), (E_Full, b)] q
      = Inr ([(Returned None, a), (Returned None, b)], ?q)"
    using full q(11) len d by (simp add: numeral_eq_Suc isFull_def R0 R1 rd_def wr_def)
  then show ?thesis using size d(2) by (intro exI [of _ ?q] exI [of _ da]) simp
qed

text \<open>An enqueue preempted after its test of a queue with one free slot, by another enqueue: it
  goes on with a full queue, over the oldest message.\<close>

lemma preempted_test:
  assumes inv: "queue_inv n q" and room: "Suc (unat (q_size q)) = n"
  shows "\<exists>q'. race_run ([0] @ replicate 6 1 @ replicate 5 0) [(E_Full, a), (E_Full, b)] q
      = Inr ([(Returned None, a), (Returned None, b)], q')
    \<and> unat (q_capacity q') = n \<and> unat (q_size q') = Suc n \<and> \<not> isFull q'
    \<and> upto_nul (q_array q' ! slot_at q' 0) = clip_msg a"
proof -
  note q = queue_invD [OF inv]
  let ?s0 = "slot_at q (unat (q_size q))" and ?s1 = "slot_at q n"
  let ?R0 = "(q_rear q + 1) mod q_capacity q"
  let ?R1 = "(?R0 + 1) mod q_capacity q"
  have R0: "unat ?R0 = ?s0" by (simp add: next_rear [OF inv] slot_at_def q(1))
  have "?s0 < n" using q(2) by (simp add: slot_at_def q(1))
  then have "unat (?R0 + 1) = Suc ?s0" using unat_inc_small [of ?R0] q(3) by (simp add: R0)
  then have R1: "unat ?R1 = ?s1"
    by (simp add: unat_mod q(1) slot_at_def mod_Suc_eq flip: room)
  have len: "?s0 < length (q_array q)" "?s1 < length (q_array q)" using q(2) by (simp_all add: slot_at_def q(1,4))
  have full: "\<not> isFull q" using room by (simp add: isFull_iff [OF inv])
  obtain da db where d: "strncpy_to (replicate QUEUE_MAX_MSG_SIZE NUL) a (QUEUE_MAX_MSG_SIZE - 1) = Inr da"
      "upto_nul da = clip_msg a"
      "strncpy_to (replicate QUEUE_MAX_MSG_SIZE NUL) b (QUEUE_MAX_MSG_SIZE - 1) = Inr db"
    using cleared_slot [of a] cleared_slot [of b] by blast
  have s1: "unat (q_size q + 1) = n" using unat_inc_small [of "q_size q"] room q(3) by simp
  then have size: "unat (q_size q + 1 + 1) = Suc n" using unat_inc_small [of "q_size q + 1"] q(3) by simp
  let ?q = "q\<lparr>q_rear := ?R1, q_array := (q_array q)[?s0 := db, ?s1 := da], q_size := q_size q + 1 + 1\<rparr>"
  have "race_run ([0] @ replicate 6 1 @ replicate 5 0) [(E_Full, a), (E_Full, b)] q
      = Inr ([(Returned None, a), (Returned None, b)], ?q)"
    using full q(11) len d by (simp add: numeral_eq_Suc R0 R1 rd_def wr_def)
  moreover have "\<not> isFull ?q" using size q(1) by (auto simp: isFull_def)
  moreover have "slot_at q 0 = ?s1" by (simp add: slot_at_def q(1))
  then have "upto_nul (q_array ?q ! slot_at ?q 0) = clip_msg a" using len(2) d(2) by simp
  ultimately show ?thesis using size q(1) by (intro exI [of _ ?q]) simp
qed

text \<open>An enqueue preempted between its load and its store of \<open>size\<close>, by a dequeue.\<close>

lemma preempted_store:
  assumes inv: "queue_inv n q" and size: "0 < unat (q_size q)" "unat (q_size q) < n"
  shows "\<exists>q'. race_run (replicate 5 0 @ replicate 5 1 @ [0]) [(E_Full, a), (D_Empty, b)] q
      = Inr ([(Returned None, a), (Returned (Some (Slot_ptr (slot_at q 0))), b)], q')
    \<and> unat (q_front q') = Suc (unat (q_front q)) mod n \<and> q_capacity q' = q_capacity q
    \<and> unat (q_size q') = Suc (unat (q_size q))
    \<and> (\<exists>d. q_array q' = (q_array q)[slot_at q (unat (q_size q)) := d] \<and> upto_nul d = clip_msg a)"
proof -
  note q = queue_invD [OF inv]
  have R0: "unat ((q_rear q + 1) mod q_capacity q) = slot_at q (unat (q_size q))"
    by (simp add: next_rear [OF inv] slot_at_def q(1))
  have len: "slot_at q (unat (q_size q)) < length (q_array q)" using q(2) by (simp add: slot_at_def q(1,4))
  have full: "\<not> isFull q" using size(2) by (simp add: isFull_iff [OF inv])
  have ne: "\<not> isEmpty q" using size(1) by (simp add: isEmpty_def unat_gt_0)
  obtain d where d: "strncpy_to (replicate QUEUE_MAX_MSG_SIZE NUL) a (QUEUE_MAX_MSG_SIZE - 1) = Inr d"
      "upto_nul d = clip_msg a"
    using cleared_slot [of a] by blast
  let ?q = "q\<lparr>q_rear := (q_rear q + 1) mod q_capacity q, q_array := (q_array q)[slot_at q (unat (q_size q)) := d],
     q_front := (q_front q + 1) mod q_capacity q, q_size := q_size q + 1\<rparr>"
  have "race_run (replicate 5 0 @ replicate 5 1 @ [0]) [(E_Full, a), (D_Empty, b)] q
      = Inr ([(Returned None, a), (Returned (Some (Slot_ptr (unat (q_front q)))), b)], ?q)"
    using full ne q(11) len d by (simp add: numeral_eq_Suc isEmpty_def R0 rd_def wr_def)
  moreover have "slot_at q 0 = unat (q_front q)" using q(5) by (simp add: slot_at_def q(1))
  moreover have "unat (q_front ?q) = Suc (unat (q_front q)) mod n"
    using unat_inc_small [of "q_front q"] q(3,5) by (simp add: unat_mod q(1))
  moreover have "unat (q_size ?q) = Suc (unat (q_size q))"
    using unat_inc_small [of "q_size q"] size(2) q(3) by simp
  ultimately show ?thesis using d(2) by (intro exI [of _ ?q] conjI exI [of _ d]) simp_all
qed

section \<open>Properties\<close>

text \<open>Executed without preemption, the statements of \<open>enqueue\<close> and \<open>dequeue\<close> are the operations:
  same result, same queue, same faults.\<close>

lemma queue_calls_are_statements:
  "race_run (replicate 6 0) [(E_Full, item)] q = andthen (enqueue q item) (\<lambda>q'. Inr ([(Returned None, item)], q'))
   \<and> race_run (replicate 5 0) [(D_Empty, item)] q =
       andthen (dequeue q) (\<lambda>(p, q'). Inr ([(Returned (Some p), item)], q'))"
  using enqueue_alone dequeue_alone by blast

lemma slot_neq:
  assumes "queue_inv n q" "j < k" "k < n + j"
  shows "slot_at q j \<noteq> slot_at q k"
proof
  note q = queue_invD [OF assms(1)]
  assume "slot_at q j = slot_at q k"
  then have "n dvd k - j"
    using mod_eq_dvd_iff_nat [of "unat (q_front q) + j" "unat (q_front q) + k" n] assms(2) by (simp add: slot_at_def q(1))
  then show False using assms(2,3) by (auto dest: dvd_imp_le)
qed

lemma hd_queue_items: "0 < unat (q_size q) \<Longrightarrow> hd (queue_items q) = upto_nul (q_array q ! slot_at q 0)"
  by (simp add: queue_items_def hd_map upt_conv_Cons)

lemma tl_queue_items:
  "unat (q_size q) = Suc m \<Longrightarrow> tl (queue_items q) = map (\<lambda>k. upto_nul (q_array q ! slot_at q (Suc k))) [0..<m]"
  by (simp add: queue_items_def upt_conv_Cons map_Suc_upt [symmetric] del: upt_Suc)

text \<open>C9: The queue has no lock. From any state it can be in there are schedules of two callers, in
  which both return, such that: with two free slots, the second of two messages is lost and
  what its slot held before is queued in its place; with one free slot, the second enqueue
  replaces the oldest message and the size passes the capacity, after which the queue is never
  found full; and an enqueue around a dequeue undoes its decrement, so that an old slot is
  queued behind the new message.\<close>

theorem racing_queue_calls:
  assumes inv: "queue_inv n q"
  shows "(unat (q_size q) + 2 \<le> n \<longrightarrow> (\<exists>sched q'.
      race_run sched [(E_Full, a), (E_Full, b)] q = Inr ([(Returned None, a), (Returned None, b)], q') \<and>
      queue_items q' = queue_items q @ [upto_nul (q_array q ! slot_at q (unat (q_size q))), clip_msg a]))
   \<and> (unat (q_size q) + 1 = n \<longrightarrow> (\<exists>sched q'.
      race_run sched [(E_Full, a), (E_Full, b)] q = Inr ([(Returned None, a), (Returned None, b)], q') \<and>
      length (queue_items q') = n + 1 \<and> hd (queue_items q') = clip_msg a \<and> \<not> isFull q'))
   \<and> (0 < unat (q_size q) \<and> unat (q_size q) < n \<longrightarrow> (\<exists>sched q'.
      race_run sched [(E_Full, a), (D_Empty, b)] q
        = Inr ([(Returned None, a), (Returned (Some (Slot_ptr (slot_at q 0))), b)], q') \<and>
      queue_items q' = tl (queue_items q) @ [clip_msg a, upto_nul (q_array q ! slot_at q (unat (q_size q) + 1))]))"
proof (intro conjI impI)
  note q = queue_invD [OF inv]
  let ?s = "unat (q_size q)"
  have inb: "slot_at q k < length (q_array q)" for k using q(2) by (simp add: slot_at_def q(1,4))
  {
    assume room: "?s + 2 \<le> n"
    then obtain q' d where run: "race_run ([0, 0] @ replicate 6 1 @ replicate 4 0) [(E_Full, a), (E_Full, b)] q
        = Inr ([(Returned None, a), (Returned None, b)], q')"
      and q': "q_front q' = q_front q" "q_capacity q' = q_capacity q" "unat (q_size q') = Suc (Suc ?s)"
        "q_array q' = (q_array q)[slot_at q (Suc ?s) := d]" "upto_nul d = clip_msg a"
      using preempted_enqueue [OF inv, of a b] by auto
    have "slot_at q' k = slot_at q k" for k by (simp add: slot_at_def q')
    moreover have "slot_at q (Suc ?s) \<noteq> slot_at q k" if "k < Suc ?s" for k
      using slot_neq [OF inv that] room by simp
    ultimately have "queue_items q' = queue_items q @ [upto_nul (q_array q ! slot_at q ?s), clip_msg a]"
      by (simp add: queue_items_def q' inb)
    then show "\<exists>sched q'.
        race_run sched [(E_Full, a), (E_Full, b)] q = Inr ([(Returned None, a), (Returned None, b)], q') \<and>
        queue_items q' = queue_items q @ [upto_nul (q_array q ! slot_at q ?s), clip_msg a]"
      using run by blast
  next
    assume "?s + 1 = n"
    then obtain q' where "race_run ([0] @ replicate 6 1 @ replicate 5 0) [(E_Full, a), (E_Full, b)] q
        = Inr ([(Returned None, a), (Returned None, b)], q')" "unat (q_size q') = Suc n" "\<not> isFull q'"
        "upto_nul (q_array q' ! slot_at q' 0) = clip_msg a"
      using preempted_test [OF inv, of a b] by auto
    moreover from this have "length (queue_items q') = n + 1" "hd (queue_items q') = clip_msg a"
      using hd_queue_items [of q'] by simp_all
    ultimately show "\<exists>sched q'.
        race_run sched [(E_Full, a), (E_Full, b)] q = Inr ([(Returned None, a), (Returned None, b)], q') \<and>
        length (queue_items q') = n + 1 \<and> hd (queue_items q') = clip_msg a \<and> \<not> isFull q'" by blast
  next
    assume size: "0 < ?s \<and> ?s < n"
    then obtain q' d where run: "race_run (replicate 5 0 @ replicate 5 1 @ [0]) [(E_Full, a), (D_Empty, b)] q
        = Inr ([(Returned None, a), (Returned (Some (Slot_ptr (slot_at q 0))), b)], q')"
      and q': "unat (q_front q') = Suc (unat (q_front q)) mod n" "q_capacity q' = q_capacity q"
        "unat (q_size q') = Suc ?s" "q_array q' = (q_array q)[slot_at q ?s := d]" "upto_nul d = clip_msg a"
      using preempted_store [OF inv, of a b] by auto
    have next_slot: "slot_at q' k = slot_at q (Suc k)" for k by (simp add: slot_at_def q' q(1) mod_simps)
    obtain m where m: "?s = Suc m" using size gr0_implies_Suc by blast
    have "slot_at q ?s \<noteq> slot_at q (Suc k)" if "k < m" for k using slot_neq [OF inv, of "Suc k" ?s] that m size by simp
    moreover have "slot_at q ?s \<noteq> slot_at q (Suc ?s)" using slot_neq [OF inv, of ?s "Suc ?s"] m size by simp
    ultimately have "queue_items q' = tl (queue_items q) @ [clip_msg a, upto_nul (q_array q ! slot_at q (?s + 1))]"
      using inb [of "Suc m"] by (simp add: tl_queue_items [OF m] queue_items_def [of q'] q' next_slot m)
    then show "\<exists>sched q'. race_run sched [(E_Full, a), (D_Empty, b)] q
        = Inr ([(Returned None, a), (Returned (Some (Slot_ptr (slot_at q 0))), b)], q') \<and>
      queue_items q' = tl (queue_items q) @ [clip_msg a, upto_nul (q_array q ! slot_at q (?s + 1))]"
      using run by blast
  }
qed

theorem racing_queue_calls_witness:
  "\<exists>sched q'. race_run sched [(E_Full, ''96''), (E_Full, ''97'')] (queue_init (replicate 32 (replicate 127 NUL)))
      = Inr ([(Returned None, ''96''), (Returned None, ''97'')], q') \<and> queue_items q' = ['''', ''96'']"
proof -
  let ?q = "queue_init (replicate 32 (replicate 127 NUL))"
  have inv: "queue_inv 32 ?q" "queue_items ?q = []" by (rule queue_init_inv; simp)+
  have size: "unat (q_size ?q) = 0" by (simp add: queue_init_def createQueue_def)
  have "q_array ?q ! slot_at ?q 0 = replicate 127 NUL"
    by (simp add: queue_init_def createQueue_def slot_at_def)
  moreover have "upto_nul (replicate 127 NUL) = ''''" by (simp add: numeral_eq_Suc upto_nul_Cons)
  moreover have "clip_msg ''96'' = ''96''" by code_simp
  ultimately show ?thesis using racing_queue_calls [OF inv(1), of "''96''" "''97''"] by (simp add: size inv(2))
qed

end
