(* ===== verification/Event_Runs.thy ===== *)
theory Event_Runs
  imports Prelude
begin

text \<open>
  Runs of a fallible step function with outputs, and two contracts for them: a step that keeps an
  invariant (\<open>preserved\<close>), and a step that takes its outputs, one at a time and in order, from
  what is pending (\<open>ordered_output\<close>). The queue and the whole lamp interpret them.
\<close>

fun runs :: "('e \<Rightarrow> 's \<Rightarrow> fault + ('o option \<times> 's)) \<Rightarrow> 'e list \<Rightarrow> 's \<Rightarrow> fault + ('o list \<times> 's)" where
  "runs step [] s = Inr ([], s)"
| "runs step (e # es) s =
     andthen (step e s) (\<lambda>(out, s1).
     andthen (runs step es s1) (\<lambda>(outs, s2).
     Inr ((case out of None \<Rightarrow> outs | Some x \<Rightarrow> x # outs), s2)))"

lemma runs_append:
  "runs step (es @ fs) s = andthen (runs step es s) (\<lambda>(outs, s1).
     andthen (runs step fs s1) (\<lambda>(outs', s2). Inr (outs @ outs', s2)))"
  by (induction es arbitrary: s) (auto simp: andthen_def split: sum.splits option.splits)

lemma runs_ConsE:
  assumes "runs step (e # es) s = Inr (outs, s')"
  obtains out s1 outs1 where "step e s = Inr (out, s1)" "runs step es s1 = Inr (outs1, s')"
    "outs = (case out of None \<Rightarrow> outs1 | Some x \<Rightarrow> x # outs1)"
  using assms by (auto simp: andthen_eq_Inr)

locale preserved =
  fixes step :: "'e \<Rightarrow> 's \<Rightarrow> fault + ('o option \<times> 's)" and inv :: "'s \<Rightarrow> bool"
  assumes step_inv: "inv s \<Longrightarrow> step e s = Inr (out, s') \<Longrightarrow> inv s'"
begin

lemma runs_inv: "inv s \<Longrightarrow> runs step es s = Inr (outs, s') \<Longrightarrow> inv s'"
  by (induction es arbitrary: s outs) (auto elim!: runs_ConsE dest: step_inv simp del: runs.simps(2))

end

locale ordered_output = preserved step inv
  for step :: "'e \<Rightarrow> 's \<Rightarrow> fault + ('o option \<times> 's)" and inv :: "'s \<Rightarrow> bool" +
  fixes pending :: "'s \<Rightarrow> 'm list" and shows_msg :: "'o \<Rightarrow> 'm \<Rightarrow> bool"
  assumes step_out: "inv s \<Longrightarrow> step e s = Inr (out, s') \<Longrightarrow>
    (case out of
       None \<Rightarrow> \<exists>added. length added \<le> 1 \<and> pending s' = pending s @ added
     | Some x \<Rightarrow> \<exists>m. pending s = m # pending s' \<and> shows_msg x m)"
begin

lemma runs_in_order:
  "inv s \<Longrightarrow> runs step es s = Inr (outs, s') \<Longrightarrow>
    \<exists>sent added. list_all2 shows_msg outs sent \<and> sent @ pending s' = pending s @ added \<and> length added \<le> length es"
proof (induction es arbitrary: s outs)
  case Nil
  then show ?case by (auto intro!: exI [of _ "[]"])
next
  case (Cons e es)
  obtain out s1 outs1 where step: "step e s = Inr (out, s1)" and rest: "runs step es s1 = Inr (outs1, s')"
    and outs: "outs = (case out of None \<Rightarrow> outs1 | Some x \<Rightarrow> x # outs1)"
    using runs_ConsE [OF Cons.prems(2)] .
  obtain sent added where IH: "list_all2 shows_msg outs1 sent" "sent @ pending s' = pending s1 @ added"
      "length added \<le> length es"
    using Cons.IH [OF step_inv [OF Cons.prems(1) step] rest] by blast
  note first = step_out [OF Cons.prems(1) step]
  show ?case
  proof (cases out)
    case None
    then obtain a where "length a \<le> 1" "pending s1 = pending s @ a" using first by auto
    then show ?thesis using IH outs None
      by (intro exI [of _ sent] exI [of _ "a @ added"]) auto
  next
    case (Some x)
    then obtain m where "pending s = m # pending s1" "shows_msg x m" using first by auto
    then show ?thesis using IH outs Some
      by (intro exI [of _ "m # sent"] exI [of _ added]) auto
  qed
qed

end

end
