(* ===== verification/Lighting_System.thy ===== *)
theory Lighting_System
  imports Lighting_Uplink Lighting_Downlink Bluetooth Event_Runs
begin

text \<open>
  The lamp as a whole: the timer, the mesh reader, the LoRaWAN handler, the bridge and the
  Bluetooth callback act on one state, in any order. One event is one run of a handler or one
  round of a task; a run of the system is a sequence of events. (Preemption inside the queue
  is the subject of \<open>Queue_Race\<close>.)
\<close>

section \<open>Events and runs\<close>

datatype sys_event =
    Second c_float c_float c_float int       \<comment> \<open>\<open>streetlight_working\<close> with the readings of its report\<close>
  | Mesh_Message string                      \<comment> \<open>\<open>root_read_task\<close>\<close>
  | Lorawan_Event bool string "string list"  \<comment> \<open>\<open>cm_lorawan_event_handler\<close>\<close>
  | Bridge_Round nat                         \<comment> \<open>\<open>Brideg_LORAWAN_TX\<close> with the value of \<open>rand ()\<close>\<close>
  | Serial_Event spp_event                   \<comment> \<open>\<open>esp_spp_cb\<close>\<close>

text \<open>A handler of \<open>main.c\<close> changes the globals; the profiles it passed to \<open>save_led\<close> go to the
  flash in their order.\<close>

definition put_lamp :: "'s ble_env \<Rightarrow> 's spp \<Rightarrow> lighting \<Rightarrow> 's spp" where
  "put_lamp env st l =
     st\<lparr>lamp := l, flash := fold (save_led (api env)) (drop (length (saved (lamp st))) (saved l)) (flash st)\<rparr>"

fun sys_step :: "'s ble_env \<Rightarrow> sys_event \<Rightarrow> 's spp \<Rightarrow> fault + (string option \<times> 's spp)" where
  "sys_step env (Second temperature humidity temperature2 rssi) st =
     andthen (streetlight_working (env.truncate env) (lamp st) temperature humidity temperature2 rssi) (\<lambda>l.
     Inr (None, put_lamp env st l))"
| "sys_step env (Mesh_Message msg) st =
     andthen (root_read (env.truncate env) (lamp st) msg) (\<lambda>l. Inr (None, put_lamp env st l))"
| "sys_step env (Lorawan_Event event event_data rows) st =
     andthen (cm_lorawan_event_handler (env.truncate env) (lamp st) rows event event_data) (\<lambda>l.
     Inr (None, put_lamp env st l))"
| "sys_step env (Bridge_Round r) st =
     andthen (bridge_round (lamp st) r) (\<lambda>(cmd, l). Inr (cmd, put_lamp env st l))"
| "sys_step env (Serial_Event event) st = andthen (esp_spp_cb env event st) (\<lambda>st1. Inr (None, st1))"

abbreviation sys_run :: "'s ble_env \<Rightarrow> sys_event list \<Rightarrow> 's spp \<Rightarrow> fault + (string list \<times> 's spp)" where
  "sys_run env \<equiv> runs (sys_step env)"

section \<open>What the handlers do to the queue and the buffers\<close>

definition lamp_ok :: "lighting \<Rightarrow> bool" where
  "lamp_ok l \<longleftrightarrow> ring_ok 32 (msgs l) \<and> unat (counter_sec l) < 60
     \<and> length (data_form_node l) = 128 \<and> length (recvb_form_ble l) = 32"

definition grows :: "lighting \<Rightarrow> lighting \<Rightarrow> bool" where
  "grows l l' \<longleftrightarrow> lamp_ok l' \<and> (\<exists>added. length added \<le> 1 \<and> queue_items (msgs l') = queue_items (msgs l) @ added)"

lemma grows_same:
  "lamp_ok l \<Longrightarrow> msgs l' = msgs l \<Longrightarrow> unat (counter_sec l') < 60 \<Longrightarrow> length (data_form_node l') = 128 \<Longrightarrow>
    length (recvb_form_ble l') = 32 \<Longrightarrow> grows l l'"
  by (simp add: grows_def lamp_ok_def)

lemma enqueue_grows:
  assumes "lamp_ok l" "enqueue (msgs l) s = Inr q" "msgs l' = q" "unat (counter_sec l') < 60"
    "length (data_form_node l') = 128" "length (recvb_form_ble l') = 32"
  shows "grows l l'"
proof -
  obtain q' where "enqueue (msgs l) s = Inr q'" "ring_ok 32 q'"
    "queue_items q' = (if length (queue_items (msgs l)) < 32 then queue_items (msgs l) @ [clip_msg s]
       else queue_items (msgs l))"
    using ring.put_law [of 32 "msgs l" s] assms(1) by (auto simp: lamp_ok_def)
  then show ?thesis using assms(2-6) by (auto simp: grows_def lamp_ok_def)
qed

lemma queue_payload_grows: "lamp_ok l \<Longrightarrow> queue_payload env l lpp = Inr l' \<Longrightarrow> grows l l'"
  by (auto simp: queue_payload_def andthen_eq_Inr Let_def lamp_ok_def intro!: enqueue_grows)

lemma root_grows: "lamp_ok l \<Longrightarrow> add_queue_lpp_root env l t h t2 r = Inr l' \<Longrightarrow> grows l l'"
  by (auto simp: add_queue_lpp_root_def andthen_eq_Inr intro: queue_payload_grows)

lemma infomation_grows: "lamp_ok l \<Longrightarrow> add_queue_infomation env l rows = Inr l' \<Longrightarrow> grows l l'"
  by (auto simp: add_queue_infomation_def andthen_eq_Inr intro: queue_payload_grows)

lemma node_outcome:
  assumes "add_queue_lpp_node env l msg = Inr l'"
  shows "l' = l \<or> l' = l\<lparr>retry_count := retry_count l + 1\<rparr> \<or>
    (\<exists>b q. enqueue (msgs l) msg = Inr q \<and> l' = l\<lparr>retry_count := 0, node_id_compare := b, msgs := q\<rparr>)"
proof (cases "msg = []")
  case True
  then show ?thesis using assms by (simp add: add_queue_lpp_node_def)
next
  case False
  then obtain js where js: "decode_text env msg = Inr js"
    using assms by (auto simp: add_queue_lpp_node_def andthen_eq_Inr)
  show ?thesis
  proof (cases "json_get env js ''nodeid''")
    case None
    then show ?thesis using assms False js by (simp add: add_queue_lpp_node_def)
  next
    case (Some i)
    then show ?thesis using assms False js
      by (auto simp: add_queue_lpp_node_def andthen_eq_Inr split: if_splits)
  qed
qed

lemma node_grows: "lamp_ok l \<Longrightarrow> add_queue_lpp_node env l msg = Inr l' \<Longrightarrow> grows l l'"
  by (drule node_outcome) (auto simp: lamp_ok_def intro: grows_same [of l] enqueue_grows [of l])

lemma strcpy_length: "strcpy_to dst src = Inr d \<Longrightarrow> length d = length dst"
  by (auto simp: strcpy_to_def Let_def split: if_splits)

lemma read_grows: "lamp_ok l \<Longrightarrow> root_read env l msg = Inr l' \<Longrightarrow> grows l l'"
proof -
  assume ok: "lamp_ok l" and run: "root_read env l msg = Inr l'"
  obtain buf s l1 buf' where b: "strcpy_to (data_form_node l) msg = Inr buf"
      "add_queue_lpp_node env (l\<lparr>data_form_node := buf\<rparr>) s = Inr l1"
      "clear_loop (data_form_node l1) 0 2 = Inr buf'" "l' = l1\<lparr>data_form_node := buf'\<rparr>"
    using run by (auto simp: root_read_def andthen_eq_Inr)
  have "lamp_ok (l\<lparr>data_form_node := buf\<rparr>)" using ok strcpy_length [OF b(1)] by (simp add: lamp_ok_def)
  from node_grows [OF this b(2)] have "grows (l\<lparr>data_form_node := buf\<rparr>) l1" .
  moreover have "length buf' = length (data_form_node l1)"
  proof -
    have "NUL \<in> set buf" using b(1) by (auto simp: strcpy_to_def Let_def split: if_splits)
    then have "NUL \<in> set (data_form_node l1)" using node_keeps_buffer [OF b(2)] by simp
    from clear_loop_ends [OF this, of 0] b(3) show ?thesis by (auto simp: numeral_2_eq_2)
  qed
  ultimately show "grows l l'" by (auto simp: grows_def lamp_ok_def b(4))
qed

lemma write_msg_fields:
  "root_write_msg l s = Inr l' \<Longrightarrow> \<exists>m. l' = l\<lparr>mesh_out := mesh_out l @ [m]\<rparr>"
  by (auto simp: root_write_msg_def andthen_eq_Inr)

lemma set_light_fields [simp]:
  "msgs (set_light l c b) = msgs l" "counter_sec (set_light l c b) = counter_sec l"
  "data_form_node (set_light l c b) = data_form_node l" "recvb_form_ble (set_light l c b) = recvb_form_ble l"
  by (simp_all add: set_light_def Let_def)

text \<open>A command changes the lamp, forwards its text, does both, queues a position or does nothing.\<close>

lemma handler_outcome:
  assumes "cm_lorawan_event_handler env l rows event event_data = Inr l'"
  shows "l' = l \<or> (\<exists>c b. l' = set_light l c b) \<or> root_write_msg l event_data = Inr l'
    \<or> (\<exists>c b. root_write_msg (set_light l c b) event_data = Inr l') \<or> add_queue_infomation env l rows = Inr l'"
proof (cases event)
  case True
  then obtain js where "decode_text env event_data = Inr js"
    using assms by (auto simp: cm_lorawan_event_handler_def andthen_eq_Inr)
  then show ?thesis using assms True
    by (cases "json_get env js ''color''"; cases "json_get env js ''brightness''"; cases "json_get env js ''nodeid''";
        cases "json_get env js ''type_control''"; cases "json_get env js ''read_gps''")
      (auto simp: cm_lorawan_event_handler_def andthen_eq_Inr Let_def split: if_splits)
next
  case False
  then show ?thesis using assms by (simp add: cm_lorawan_event_handler_def)
qed

lemma handler_grows:
  assumes ok: "lamp_ok l" and run: "cm_lorawan_event_handler env l rows event event_data = Inr l'"
  shows "grows l l'"
  using handler_outcome [OF run] infomation_grows [OF ok] ok
  by (auto simp: lamp_ok_def dest!: write_msg_fields intro: grows_same [OF ok])

lemma working_grows:
  assumes ok: "lamp_ok l" and run: "streetlight_working env l t h t2 r = Inr l'"
  shows "grows l l'"
proof -
  let ?led = "(status_led l)\<lparr>ledworking := ledworking (status_led l) + 1\<rparr>"
  let ?first = "if counter_sec l = 59
    then add_queue_lpp_root env (l\<lparr>status_led := ?led, saved := saved l @ [?led], counter_sec := 0\<rparr>) t h t2 r
    else Inr (l\<lparr>counter_sec := counter_sec l + 1\<rparr>)"
  obtain l1 where l1: "?first = Inr l1"
      "l' = l1 \<or> (\<exists>cmd l2. root_write_msg l1 cmd = Inr l2 \<and> l' = l2\<lparr>ble_cmd_to_gr := False\<rparr>)"
    using run by (auto simp: streetlight_working_def andthen_eq_Inr Let_def split: if_splits)
  have "grows l l1"
  proof (cases "counter_sec l = 59")
    case True
    have "lamp_ok (l\<lparr>status_led := ?led, saved := saved l @ [?led], counter_sec := 0\<rparr>)"
      using ok by (simp add: lamp_ok_def)
    from root_grows [OF this, of env t h t2 r l1] l1(1) True show ?thesis by (simp add: grows_def)
  next
    case False
    have "unat (counter_sec l) \<noteq> 59" using False word_unat_eq_iff [of "counter_sec l" 59] by auto
    then have "unat (counter_sec l + 1) < 60"
      using unat_inc_small [of "counter_sec l"] ok by (simp add: lamp_ok_def)
    then show ?thesis using ok l1(1) False by (auto simp: lamp_ok_def intro: grows_same [OF ok])
  qed
  then show ?thesis using l1(2) by (auto simp: grows_def lamp_ok_def dest!: write_msg_fields)
qed

lemma bridge_takes:
  assumes ok: "lamp_ok l" and run: "bridge_round l r = Inr (cmd, l')"
  shows "lamp_ok l' \<and> (case cmd of None \<Rightarrow> queue_items (msgs l) = [] \<and> l' = l
    | Some c \<Rightarrow> \<exists>m. queue_items (msgs l) = m # queue_items (msgs l') \<and> c = send_command (r mod 10 + 1) m)"
proof (cases "queue_items (msgs l)")
  case Nil
  then show ?thesis using run ok by (auto simp: bridge_round_def isEmpty_iff)
next
  case (Cons m ms)
  then show ?thesis using bridge_round_spec [of 32 l m ms r] ok run
    by (auto simp: lamp_ok_def split: if_splits)
qed

section \<open>What the Bluetooth commands leave alone\<close>

definition keeps :: "'s spp \<Rightarrow> 's spp \<Rightarrow> bool" where
  "keeps st st' \<longleftrightarrow> msgs (lamp st') = msgs (lamp st) \<and> counter_sec (lamp st') = counter_sec (lamp st)
     \<and> data_form_node (lamp st') = data_form_node (lamp st)
     \<and> length (recvb_form_ble (lamp st')) = length (recvb_form_ble (lamp st))"

lemma keeps_refl [simp]: "keeps st st"
  by (simp add: keeps_def)

lemma keeps_trans: "keeps st st1 \<Longrightarrow> keeps st1 st2 \<Longrightarrow> keeps st st2"
  by (simp add: keeps_def)

lemma keeps_lamp: "lamp st' = lamp st \<Longrightarrow> keeps st st'"
  by (simp add: keeps_def)

lemma reply_lamp: "reply msg st = Inr st' \<Longrightarrow> lamp st' = lamp st"
  by (auto simp: reply_def call_def andthen_eq_Inr)

lemma replies_lamp: "replies ms st = Inr st' \<Longrightarrow> lamp st' = lamp st"
  by (induction ms st rule: replies.induct) (auto simp: andthen_eq_Inr dest: reply_lamp)

lemma keeps_updates [simp]:
  "keeps st (call c st)" "keeps st (set_led led st)" "keeps st (save_status env st)" "keeps st (read_status env st)"
  "keeps st (test_light env c' b st)"
  by (simp_all add: keeps_def call_def set_led_def save_status_def read_status_def test_light_def Let_def
      split: prod.splits)

lemma keeps_reply: "reply msg st1 = Inr st' \<Longrightarrow> keeps st st1 \<Longrightarrow> keeps st st'"
  by (metis keeps_lamp keeps_trans reply_lamp)

lemma keeps_replies: "replies ms st1 = Inr st' \<Longrightarrow> keeps st st1 \<Longrightarrow> keeps st st'"
  by (metis keeps_lamp keeps_trans replies_lamp)

lemma keeps_flash [simp]: "keeps st (st1\<lparr>flash := s\<rparr>) = keeps st st1"
  by (simp add: keeps_def)

lemma keeps_leds [simp]: "keeps st (st1\<lparr>lamp := (lamp st1)\<lparr>leds := xs\<rparr>\<rparr>) = keeps st st1"
  by (simp add: keeps_def)

lemma keeps_lora_keys: "lora_keys env st1 = Inr st' \<Longrightarrow> keeps st st1 \<Longrightarrow> keeps st st'"
  by (auto simp: lora_keys_def andthen_eq_Inr keeps_def split: prod.splits if_splits)

lemma keeps_save: "keeps st (save_status env (set_led led st))"
  by (rule keeps_trans [of _ "set_led led st"]) simp_all

lemma write_lorawan_keeps: "write_lorawan env attributes buf len st = Inr st' \<Longrightarrow> keeps st st'"
  by (auto simp: write_lorawan_def andthen_eq_Inr Let_def elim!: keeps_reply keeps_lora_keys)

lemma read_lorawan_keeps: "read_lorawan st = Inr st' \<Longrightarrow> keeps st st'"
  unfolding read_lorawan_def by (erule keeps_replies) simp

lemma write_mesh_keeps: "write_mesh env attributes buf len st = Inr st' \<Longrightarrow> keeps st st'"
  by (auto simp: write_mesh_def andthen_eq_Inr intro: keeps_reply keeps_save)

lemma read_mesh_keeps: "read_mesh env st = Inr st' \<Longrightarrow> keeps st st'"
proof -
  assume "read_mesh env st = Inr st'"
  then have "lamp st' = lamp (read_status env st)"
    by (auto simp: read_mesh_def andthen_eq_Inr Let_def simp del: replies.simps dest!: reply_lamp replies_lamp)
  then show ?thesis by (rule keeps_trans [OF keeps_updates(4) keeps_lamp])
qed

lemma test_control_keeps: "test_control env attributes buf len st = Inr st' \<Longrightarrow> keeps st st'"
  by (auto simp: test_control_def received_reply_def andthen_eq_Inr intro: keeps_reply)

lemma test_control_gr_keeps: "test_control_gr env attributes buf len st = Inr st' \<Longrightarrow> keeps st st'"
  by (auto simp: test_control_gr_def received_reply_def andthen_eq_Inr Let_def keeps_def test_light_def
      dest!: reply_lamp strcpy_length)

lemma read_street_light_keeps: "read_street_light env st = Inr st' \<Longrightarrow> keeps st st'"
  unfolding read_street_light_def Let_def by (erule keeps_replies) simp

lemma write_street_light_keeps: "write_street_light env attributes buf len st = Inr st' \<Longrightarrow> keeps st st'"
  by (auto simp: write_street_light_def received_reply_def andthen_eq_Inr Let_def intro: keeps_reply keeps_save)

lemma restart_mcu_keeps: "restart_mcu buf len st = Inr st' \<Longrightarrow> keeps st st'"
  by (auto simp: restart_mcu_def received_reply_def andthen_eq_Inr keeps_def dest!: reply_lamp)

lemma scan_sl_keeps: "scan_sl buf len st = Inr st' \<Longrightarrow> keeps st st'"
  by (auto simp: scan_sl_def received_reply_def andthen_eq_Inr Let_def keeps_def dest!: reply_lamp)

lemmas command_keeps = write_lorawan_keeps read_lorawan_keeps write_mesh_keeps read_mesh_keeps test_control_keeps
  test_control_gr_keeps read_street_light_keeps write_street_light_keeps restart_mcu_keeps scan_sl_keeps

lemma run_command_keeps: "run_command env cmd attributes buf len st = Inr st' \<Longrightarrow> keeps st st'"
  by (auto simp: run_command_def split: if_splits dest: command_keeps)

lemma serial_keeps: "esp_spp_cb env event st = Inr st' \<Longrightarrow> keeps st st'"
  by (cases event) (auto simp: esp_spp_cb_def andthen_eq_Inr keeps_lamp split: if_splits option.splits
      dest: run_command_keeps)

section \<open>Runs\<close>

lemma put_lamp_lamp [simp]: "lamp (put_lamp env st l) = l"
  by (simp add: put_lamp_def)

lemma sys_step_queue:
  assumes ok: "lamp_ok (lamp st)" and run: "sys_step env e st = Inr (cmd, st')"
  shows "lamp_ok (lamp st') \<and> (case cmd of
      None \<Rightarrow> \<exists>added. length added \<le> 1 \<and> queue_items (msgs (lamp st')) = queue_items (msgs (lamp st)) @ added
    | Some c \<Rightarrow> \<exists>m r. queue_items (msgs (lamp st)) = m # queue_items (msgs (lamp st')) \<and> c = send_command (r mod 10 + 1) m)"
proof (cases e)
  case (Second t h t2 r)
  then show ?thesis using run working_grows [OF ok] by (auto simp: andthen_eq_Inr grows_def)
next
  case (Mesh_Message msg)
  then show ?thesis using run read_grows [OF ok] by (auto simp: andthen_eq_Inr grows_def)
next
  case (Lorawan_Event event event_data rows)
  then show ?thesis using run handler_grows [OF ok] by (auto simp: andthen_eq_Inr grows_def)
next
  case (Bridge_Round r)
  then obtain l where "bridge_round (lamp st) r = Inr (cmd, l)" "lamp st' = l"
    using run by (auto simp: andthen_eq_Inr)
  with bridge_takes [OF ok this(1)] show ?thesis by (auto split: option.splits)
next
  case (Serial_Event event)
  then have "cmd = None" "keeps st st'" using run by (auto simp: andthen_eq_Inr dest: serial_keeps)
  then show ?thesis using ok by (auto simp: keeps_def lamp_ok_def)
qed

interpretation lamp: ordered_output "sys_step env" "\<lambda>st. lamp_ok (lamp st)" "\<lambda>st. queue_items (msgs (lamp st))"
    "\<lambda>cmd m. \<exists>r. cmd = send_command (r mod 10 + 1) m" for env
proof unfold_locales
  fix e st out st'
  assume "lamp_ok (lamp st)" "sys_step env e st = Inr (out, st')"
  note step = sys_step_queue [OF this]
  then show "lamp_ok (lamp st')" by blast
  from step show "case out of
      None \<Rightarrow> \<exists>added. length added \<le> 1 \<and> queue_items (msgs (lamp st')) = queue_items (msgs (lamp st)) @ added
    | Some x \<Rightarrow> \<exists>m. queue_items (msgs (lamp st)) = m # queue_items (msgs (lamp st'))
        \<and> (\<exists>r. x = send_command (r mod 10 + 1) m)"
    by (auto split: option.splits)
qed

section \<open>Properties\<close>

text \<open>C6: Whatever happens in whatever order, as long as no handler faults, what the bridge has sent
  followed by what is still queued is what was queued before followed by what was added: each
  message leaves once, unchanged, in the order of arrival, as one command; at most 32 wait, and
  the invariant of the queue, of the timer and of the buffers holds.\<close>

theorem messages_leave_in_order:
  assumes "lamp_ok (lamp st)" and "sys_run env es st = Inr (cmds, st')"
  shows "lamp_ok (lamp st') \<and> length (queue_items (msgs (lamp st'))) \<le> 32
    \<and> (\<exists>sent added. list_all2 (\<lambda>cmd m. \<exists>r. cmd = send_command (r mod 10 + 1) m) cmds sent
      \<and> sent @ queue_items (msgs (lamp st')) = queue_items (msgs (lamp st)) @ added \<and> length added \<le> length es)"
  using lamp.runs_inv [OF assms] lamp.runs_in_order [OF assms] ring.room_law [of 32 "msgs (lamp st')"]
  by (simp add: lamp_ok_def)

lemma sample_lamp_ok: "ring_ok 32 q \<Longrightarrow> lamp_ok (sample_lamp\<lparr>msgs := q\<rparr>)"
  by (simp add: lamp_ok_def sample_lamp_def)

theorem messages_leave_in_order_witness:
  "\<exists>q st'. queue_items q = [''96'']
    \<and> sys_run sample_ble [Bridge_Round 3] (sample_spp\<lparr>lamp := sample_lamp\<lparr>msgs := q\<rparr>\<rparr>)
        = Inr ([send_command 4 ''96''], st') \<and> length (queue_items (msgs (lamp st'))) \<le> 32"
proof -
  obtain q where q: "ring_ok 32 q" "queue_items q = [''96'']"
    using ring.put_law [OF sample_ring(1), of "''96''"] sample_ring(2) by (auto simp: clip_id)
  let ?st = "sample_spp\<lparr>lamp := sample_lamp\<lparr>msgs := q\<rparr>\<rparr>"
  have four: "length (print_int 4) = 1" by code_simp
  obtain q' where "bridge_round (lamp ?st) 3 = Inr (Some (send_command 4 ''96''), (lamp ?st)\<lparr>msgs := q'\<rparr>)"
    using bridge_round_spec [of 32 "lamp ?st" "''96''" "[]" 3] q by (auto simp: four)
  then obtain st' where run: "sys_run sample_ble [Bridge_Round 3] ?st = Inr ([send_command 4 ''96''], st')"
    by simp
  have "lamp_ok (lamp ?st)" using sample_lamp_ok [OF q(1)] by simp
  from messages_leave_in_order [OF this run] show ?thesis using q(2) run by blast
qed

end
