(* ===== verification/Lighting_Durable.thy ===== *)
theory Lighting_Durable
  imports Lighting_System
begin

text \<open>
  The profile in memory and the one in the flash. Every handler that changes \<open>status_led\<close> saves it
  before it returns, so after any run of the system a restart loads the profile in use. The
  flash library is a parameter with the laws of \<open>Nvs_Storage\<close>.
\<close>

section \<open>Handlers save what they change\<close>

definition logs :: "lighting \<Rightarrow> lighting \<Rightarrow> bool" where
  "logs l l' \<longleftrightarrow> (\<exists>ps. saved l' = saved l @ ps \<and> status_led l' = last (status_led l # ps))"

lemma logs_same: "saved l' = saved l \<Longrightarrow> status_led l' = status_led l \<Longrightarrow> logs l l'"
  by (simp add: logs_def)

lemma logs_save: "saved l' = saved l @ [led] \<Longrightarrow> status_led l' = led \<Longrightarrow> logs l l'"
  by (simp add: logs_def)

lemma queue_payload_same:
  "queue_payload env l lpp = Inr l' \<Longrightarrow> saved l' = saved l \<and> status_led l' = status_led l"
  by (auto simp: queue_payload_def andthen_eq_Inr Let_def)

lemma root_same:
  "add_queue_lpp_root env l t h t2 r = Inr l' \<Longrightarrow> saved l' = saved l \<and> status_led l' = status_led l"
  by (auto simp: add_queue_lpp_root_def andthen_eq_Inr dest: queue_payload_same)

lemma infomation_same:
  "add_queue_infomation env l rows = Inr l' \<Longrightarrow> saved l' = saved l \<and> status_led l' = status_led l"
  by (auto simp: add_queue_infomation_def andthen_eq_Inr dest: queue_payload_same)

lemma node_same:
  "add_queue_lpp_node env l msg = Inr l' \<Longrightarrow> saved l' = saved l \<and> status_led l' = status_led l"
  by (drule node_outcome) auto

lemma read_logs: "root_read env l msg = Inr l' \<Longrightarrow> logs l l'"
  by (auto simp: root_read_def andthen_eq_Inr intro!: logs_same dest!: node_same)

lemma set_light_saved:
  "saved (set_light l c b) = saved l @ [status_led (set_light l c b)]"
  by (simp add: set_light_def Let_def)

lemma handler_logs: "cm_lorawan_event_handler env l rows event event_data = Inr l' \<Longrightarrow> logs l l'"
  by (drule handler_outcome)
    (auto simp: set_light_saved dest!: write_msg_fields infomation_same intro: logs_same logs_save)

lemma working_logs: "streetlight_working env l t h t2 r = Inr l' \<Longrightarrow> logs l l'"
  by (auto simp: streetlight_working_def andthen_eq_Inr Let_def split: if_splits
      dest!: write_msg_fields root_same intro: logs_same logs_save)

lemma bridge_logs:
  assumes run: "bridge_round l r = Inr (cmd, l')"
  shows "logs l l'"
proof (cases "isEmpty (msgs l)")
  case True
  then show ?thesis using run by (auto simp: bridge_round_def intro: logs_same)
next
  case False
  then obtain m q where "take_msg (msgs l) = Inr (m, q)"
    using run by (auto simp: bridge_round_def andthen_eq_Inr)
  then have "l' = l \<or> l' = l\<lparr>msgs := q\<rparr>"
    using run False by (cases m) (auto simp: bridge_round_def andthen_eq_Inr)
  then show ?thesis by (auto intro: logs_same)
qed

section \<open>Memory and flash agree\<close>

text \<open>\<open>kept\<close> is the profile in the flash, as an observation of the library's state.\<close>

definition durable :: "('s \<Rightarrow> led_status option) \<Rightarrow> 's spp \<Rightarrow> bool" where
  "durable kept st \<longleftrightarrow> kept (flash st) = Some (status_led (lamp st))"

lemma put_lamp_durable:
  assumes laws: "nvs_laws (api env) kept opened" and rel: "nvs_reliable (api env) kept"
    and dur: "durable kept st" and logs: "logs (lamp st) l"
  shows "durable kept (put_lamp env st l)"
proof -
  have "kept (fold (save_led (api env)) ps s) = Some (last (p # ps))" if "kept s = Some p" for ps s p
    using that save_led_stored [OF laws rel] by (induction ps arbitrary: s p) auto
  then show ?thesis using dur logs by (auto simp: durable_def put_lamp_def logs_def)
qed

lemma reply_same: "reply msg st = Inr st' \<Longrightarrow> lamp st' = lamp st \<and> flash st' = flash st"
  by (auto simp: reply_def andthen_eq_Inr)

lemma replies_same: "replies ms st = Inr st' \<Longrightarrow> lamp st' = lamp st \<and> flash st' = flash st"
  by (induction ms st rule: replies.induct) (auto simp: andthen_eq_Inr dest: reply_same)

lemma durable_same: "lamp st' = lamp st \<and> flash st' = flash st \<Longrightarrow> durable kept st' = durable kept st"
  by (simp add: durable_def)

lemma save_status_durable:
  "nvs_laws (api env) kept opened \<Longrightarrow> nvs_reliable (api env) kept \<Longrightarrow> durable kept (save_status env st)"
  by (simp add: durable_def save_led_stored)

lemma read_status_durable:
  assumes "nvs_laws (api env) kept opened" "nvs_reliable (api env) kept" "durable kept st"
  shows "durable kept (read_status env st)"
  using read_led_stored [OF assms(1,2), of "flash st" "status_led (lamp st)" "status_led (lamp st)"] assms(3)
  by (auto simp: durable_def read_status_def set_led_def)

lemma test_light_durable:
  "nvs_laws (api env) kept opened \<Longrightarrow> nvs_reliable (api env) kept \<Longrightarrow> durable kept (test_light env c b st)"
  by (simp add: durable_def test_light_def Let_def save_led_stored)

lemma lora_keys_durable:
  assumes laws: "nvs_laws (api env) kept opened" and dur: "durable kept st" and run: "lora_keys env st = Inr st'"
  shows "durable kept st'"
proof -
  obtain ok1 d s1 where g1: "get_string (api env) ''DEVADDR'' [] 12 (flash st) = (ok1, d, s1)"
    by (cases "get_string (api env) ''DEVADDR'' [] 12 (flash st)")
  obtain ok2 n s2 where g2: "get_string (api env) ''NWKSKEY'' [] 48 s1 = (ok2, n, s2)"
    by (cases "get_string (api env) ''NWKSKEY'' [] 48 s1")
  obtain ok3 a s3 where g3: "get_string (api env) ''APPSKEY'' [] 48 s2 = (ok3, a, s3)"
    by (cases "get_string (api env) ''APPSKEY'' [] 48 s2")
  have "lamp st' = lamp st" "flash st' = s3"
    using run by (auto simp: lora_keys_def g1 g2 g3 andthen_eq_Inr split: if_splits)
  moreover have "kept s3 = kept (flash st)"
    using get_string_effect [OF laws g1] get_string_effect [OF laws g2] get_string_effect [OF laws g3] by simp
  ultimately show ?thesis using dur by (simp add: durable_def)
qed

lemma run_command_durable:
  assumes laws: "nvs_laws (api env) kept opened" and rel: "nvs_reliable (api env) kept"
    and dur: "durable kept st" and run: "run_command env cmd attributes buf len st = Inr st'"
  shows "durable kept st'"
proof -
  note [simp] = save_status_durable [OF laws rel] read_status_durable [OF laws rel dur] test_light_durable [OF laws rel]
  have keys: "durable kept st'" if "write_lorawan env attributes buf len st = Inr st'"
    using that dur save_string_effect [OF laws]
    by (auto simp: write_lorawan_def andthen_eq_Inr Let_def durable_def
        dest!: reply_same elim!: lora_keys_durable [OF laws, unfolded durable_def, rotated])
  have "durable kept st'" if "read_lorawan st = Inr st'"
    using that dur durable_same [OF replies_same] unfolding read_lorawan_def by blast
  moreover have "durable kept st'" if "write_mesh env attributes buf len st = Inr st'"
    using that by (auto simp: write_mesh_def andthen_eq_Inr durable_same [OF reply_same])
  moreover have "durable kept st'" if "read_mesh env st = Inr st'"
    using that by (auto simp: read_mesh_def andthen_eq_Inr Let_def durable_same [OF reply_same]
        durable_same [OF replies_same] simp del: replies.simps)
  moreover have "durable kept st'" if "test_control env attributes buf len st = Inr st'"
    using that by (auto simp: test_control_def received_reply_def andthen_eq_Inr durable_same [OF reply_same])
  moreover have "durable kept st'" if gr: "test_control_gr env attributes buf len st = Inr st'"
  proof -
    obtain c b recvb where "received_reply buf len ((test_light env c b st)\<lparr>lamp :=
        (lamp (test_light env c b st))\<lparr>recvb_form_ble := recvb, ble_cmd_to_gr := True\<rparr>\<rparr>) = Inr st'"
      using gr by (auto simp: test_control_gr_def andthen_eq_Inr Let_def)
    then show ?thesis using test_light_durable [OF laws rel, of c b st]
      by (auto simp: received_reply_def durable_def dest!: reply_same)
  qed
  moreover have "durable kept st'" if "read_street_light env st = Inr st'"
    using that durable_same [OF replies_same] read_status_durable [OF laws rel dur]
    unfolding read_street_light_def Let_def by blast
  moreover have "durable kept st'" if "write_street_light env attributes buf len st = Inr st'"
    using that by (auto simp: write_street_light_def received_reply_def andthen_eq_Inr Let_def
        durable_same [OF reply_same])
  moreover have "durable kept st'" if "restart_mcu buf len st = Inr st'"
    using that dur by (auto simp: restart_mcu_def received_reply_def andthen_eq_Inr durable_def dest!: reply_same)
  moreover have "durable kept st'" if "scan_sl buf len st = Inr st'"
    using that dur by (auto simp: scan_sl_def received_reply_def andthen_eq_Inr Let_def durable_def dest!: reply_same)
  moreover have "durable kept (call c st)" for c using dur by (simp add: durable_def)
  ultimately show ?thesis using run keys dur by (auto simp: run_command_def split: if_splits)
qed

lemma serial_durable:
  assumes "nvs_laws (api env) kept opened" "nvs_reliable (api env) kept" "durable kept st"
    "esp_spp_cb env event st = Inr st'"
  shows "durable kept st'"
proof (cases event)
  case (ESP_SPP_DATA_IND_EVT len data)
  then show ?thesis using assms(3,4) run_command_durable [OF assms(1-3)]
    by (auto simp: esp_spp_cb_def andthen_eq_Inr split: if_splits option.splits)
qed (use assms(3,4) in \<open>auto simp: esp_spp_cb_def andthen_eq_Inr durable_def\<close>)

lemma sys_step_durable:
  assumes "nvs_laws (api env) kept opened" "nvs_reliable (api env) kept" "durable kept st"
    "sys_step env e st = Inr (cmd, st')"
  shows "durable kept st'"
proof (cases e)
  case (Serial_Event event)
  then show ?thesis using assms(4) serial_durable [OF assms(1-3)] by (auto simp: andthen_eq_Inr)
qed (use assms(4) in \<open>auto simp: andthen_eq_Inr intro!: put_lamp_durable [OF assms(1-3)]
      intro: working_logs read_logs handler_logs bridge_logs\<close>)

interpretation durable: preserved "sys_step env"
    "\<lambda>st. nvs_laws (api env) kept opened \<and> nvs_reliable (api env) kept \<and> durable kept st" for env kept opened
  by unfold_locales (blast intro: sys_step_durable)

section \<open>Properties\<close>


lemma truncate_sample: "env.truncate sample_ble = sample_env" "api sample_ble = ideal_nvs"
  by (simp_all add: sample_ble_def env.truncate_def env.extend_def)


end
