(* ===== verification/Bridge_Delivery.thy ===== *)
theory Bridge_Delivery
  imports Lighting_Uplink Murata
begin

text \<open>
  The loop of the task \<open>Brideg_LORAWAN_TX\<close> (\<open>main.c\<close>) with the transmission inside: each round
  takes a message from the queue (\<open>bridge_round\<close>) and gives its command to \<open>sendCMD\<close>
  (\<open>murata_parser.c\<close>), which repeats it until the modem answers.
\<close>

section \<open>The task\<close>

text \<open>One element of the list for each round, the value of \<open>rand ()\<close> in it; \<open>send\<close> is \<open>sendCMD\<close>.
  \<open>None\<close> says that a call of it did not return.\<close>

fun bridge_task ::
  "(string \<Rightarrow> bool \<Rightarrow> wire \<Rightarrow> wire option) \<Rightarrow> nat list \<Rightarrow> lighting \<times> wire \<Rightarrow> fault + (lighting \<times> wire) option" where
  "bridge_task send [] (st, w) = Inr (Some (st, w))"
| "bridge_task send (r # rs) (st, w) =
     andthen (bridge_round st r) (\<lambda>(cmd, st1).
     case cmd of
       None \<Rightarrow> bridge_task send rs (st1, w)
     | Some c \<Rightarrow>
         (case send c True w of
            None \<Rightarrow> Inr None
          | Some w1 \<Rightarrow> bridge_task send rs (st1, w1)))"

text \<open>What goes out when the messages leave in the rounds with the numbers \<open>rs\<close>.\<close>

definition bridge_cmds :: "string list \<Rightarrow> nat list \<Rightarrow> (string \<times> bool) list" where
  "bridge_cmds ms rs = map2 (\<lambda>m r. (send_command (r mod 10 + 1) m, True)) ms rs"

section \<open>One round\<close>

lemma port_digits: "length (print_int (int (r mod 10 + 1))) \<le> 2"
proof -
  have "\<forall>p \<in> set [0..<10]. length (print_int (int (p + 1))) \<le> 2" by code_simp
  then show ?thesis by simp
qed

lemma round_empty: "ring_ok n (msgs st) \<Longrightarrow> queue_items (msgs st) = [] \<Longrightarrow> bridge_round st r = Inr (None, st)"
  by (simp add: bridge_round_def isEmpty_iff)

lemma round_takes:
  assumes "ring_ok n (msgs st)" "queue_items (msgs st) = m # ms" "length m \<le> 124"
  obtains q where "bridge_round st r = Inr (Some (send_command (r mod 10 + 1) m), st\<lparr>msgs := q\<rparr>)"
    "ring_ok n q" "queue_items q = ms"
  using bridge_round_spec [OF assms(1,2), of r] port_digits [of r] assms(3) by (auto split: if_splits)

lemma task_idle:
  "ring_ok n (msgs st) \<Longrightarrow> queue_items (msgs st) = [] \<Longrightarrow> bridge_task send rs (st, w) = Inr (Some (st, w))"
  by (induction rs) (auto simp: round_empty)

section \<open>The rounds together\<close>

context modem_link begin

lemma task_delivers:
  assumes "alive" "ring_ok n (msgs st)" "\<forall>m \<in> set (queue_items (msgs st)). length m \<le> 124"
    "length (queue_items (msgs st)) \<le> length rs"
  shows "\<exists>q ks. list_all2 (\<lambda>m k. 1 \<le> k \<and> k \<le> 9) (queue_items (msgs st)) ks
    \<and> bridge_task send rs (st, (c, tx))
      = Inr (Some (st\<lparr>msgs := q\<rparr>,
          (c + sum_list ks, tx @ transmissions (bridge_cmds (queue_items (msgs st)) rs) ks)))
    \<and> ring_ok n q \<and> queue_items q = []"
  using assms(2-)
proof (induction rs arbitrary: st c tx)
  case Nil
  have "queue_items (msgs st) = []" using Nil.prems(3) unfolding list.size(3) le_zero_eq length_0_conv .
  then show ?case using Nil.prems(1)
    by (intro exI [of _ "msgs st"] exI [of _ "[]"]) (simp add: bridge_cmds_def transmissions_def)
next
  case (Cons r rs)
  show ?case
  proof (cases "queue_items (msgs st)")
    case Nil
    with task_idle [OF Cons.prems(1) Nil] Cons.prems(1) show ?thesis
      by (intro exI [of _ "msgs st"] exI [of _ "[]"]) (simp add: bridge_cmds_def transmissions_def)
  next
    case items: (Cons m ms)
    let ?c = "send_command (r mod 10 + 1) m"
    obtain q where q: "bridge_round st r = Inr (Some ?c, st\<lparr>msgs := q\<rparr>)" "ring_ok n q" "queue_items q = ms"
      using round_takes [OF Cons.prems(1) items] Cons.prems(2) items by auto
    obtain k where k: "1 \<le> k" "k \<le> 9"
        "send ?c True (c, tx) = Some (c + k, tx @ replicate k ?c)"
      using delivers [OF assms(1)] by blast
    have step: "bridge_task send (r # rs) (st, (c, tx)) =
        bridge_task send rs (st\<lparr>msgs := q\<rparr>, (c + k, tx @ replicate k ?c))"
      using q(1) k(3) by simp
    obtain q' ks where rest: "list_all2 (\<lambda>m k. 1 \<le> k \<and> k \<le> 9) ms ks" "ring_ok n q'" "queue_items q' = []"
        "bridge_task send rs (st\<lparr>msgs := q\<rparr>, (c + k, tx @ replicate k ?c))
          = Inr (Some (st\<lparr>msgs := q'\<rparr>, (c + k + sum_list ks,
              (tx @ replicate k ?c) @ transmissions (bridge_cmds ms rs) ks)))"
      using Cons.IH [of "st\<lparr>msgs := q\<rparr>" "c + k" "tx @ replicate k ?c"] Cons.prems(2,3) q(2,3) items by auto
    show ?thesis
      by (intro exI [of _ q'] exI [of _ "k # ks"])
        (use k rest step items in \<open>simp add: bridge_cmds_def transmissions_def del: bridge_task.simps\<close>)
  qed
qed

end

section \<open>Properties\<close>


lemma two_waiting: "\<exists>q. ring_ok 32 q \<and> queue_items q = [''96'', ''6F'']"
proof -
  obtain q where q: "ring_ok 32 q" "queue_items q = [''96'']"
    using ring.put_law [OF sample_ring(1), of "''96''"] sample_ring(2) by (auto simp: clip_id)
  show ?thesis using ring.put_law [OF q(1), of "''6F''"] q(2) by (auto simp: clip_id)
qed


text \<open>A modem that never answers stops the task at the first message: \<open>sendCMD\<close> does not come back.\<close>

lemma task_stuck:
  assumes "\<forall>n. \<not> resp n" "init = (a, True) # cmds" "ring_ok n (msgs st)" "queue_items (msgs st) = m # ms" "length m \<le> 124"
  shows "bridge_task (sendCMD depth init resp) (r # rs) (st, w) = Inr None"
proof -
  obtain q where "bridge_round st r = Inr (Some (send_command (r mod 10 + 1) m), st\<lparr>msgs := q\<rparr>)"
    using round_takes [OF assms(3-5)] by blast
  then show ?thesis using silent_sendCMD [OF assms(1,2)] by simp
qed

end
