(* ===== verification/Gps_Position.thy ===== *)
theory Gps_Position
  imports Nmea_Sentences
begin

text \<open>
  The position out of a whole sentence: for the three kinds that carry one (\<open>GGA\<close>, \<open>RMC\<close>,
  \<open>GLL\<close>), of any talker, the items are followed from the characters to the latitude and the
  longitude of the parser object, with their hemisphere.
\<close>

section \<open>Positions\<close>

text \<open>The kinds with a position: the name, the number of the statement, and how many items stand
  between the name and the latitude.\<close>

definition position_kinds :: "(string \<times> u8 \<times> nat) list" where
  "position_kinds = [(''GGA'', STATEMENT_GGA, 1), (''RMC'', STATEMENT_RMC, 2), (''GLL'', STATEMENT_GLL, 0)]"

text \<open>\<open>s\<close> is the text of the coordinate of \<open>v\<close> degrees.\<close>

definition coord :: "string \<Rightarrow> rat \<Rightarrow> bool" where
  "coord s v \<longleftrightarrow> (\<exists>ip fp deg m. s = decimal ip fp \<and> ip \<noteq> [] \<and> (\<forall>d \<in> set (ip @ fp). d < 10)
     \<and> decimal_value ip fp = 100 * of_nat deg + m \<and> deg \<le> 180 \<and> 0 \<le> m \<and> m < 60
     \<and> v = of_nat deg + m / 60) \<and> length s \<le> 15"

definition near :: "c_float \<Rightarrow> rat \<Rightarrow> bool" where
  "near x v \<longleftrightarrow> (\<exists>y. x = Fin y \<and> \<bar>y - v\<bar> \<le> 1 / 17000)"

section \<open>One item\<close>

text \<open>The parser between two items of a sentence of kind \<open>k\<close>, before item \<open>n\<close>.\<close>

definition ready :: "u8 \<Rightarrow> nat \<Rightarrow> esp_gps \<Rightarrow> bool" where
  "ready k n g \<longleftrightarrow> gps_wf g \<and> item_pos g = 0 \<and> asterisk g = 0 \<and> cur_statement g = k
     \<and> unat (item_num g) = n"

lemma item_ok_no_nul: "item_ok s \<Longrightarrow> NUL \<notin> set s"
  by (auto simp: item_ok_def plain_def)

lemma loaded:
  assumes "ready k n g" "item_ok s"
  shows "gps_wf (load g s)" "item_num (load g s) = item_num g" "cur_statement (load g s) = k"
    "parent (load g s) = parent g" "asterisk (load g s) = 0" "gps_info (load g s) = gps_info g"
    "upto_nul (item_str (load g s)) = s" "item_str (load g s) ! 0 = hd (s @ [NUL])"
proof -
  show "gps_wf (load g s)" using load_wf(1) [of g s] assms by (simp add: ready_def item_ok_def)
  have p: "unat (item_pos g) = 0" using assms(1) by (simp add: ready_def)
  have it: "item_str (load g s) = s @ NUL # drop (length s + 1) (item_str g)"
    unfolding load_def Let_def p by simp
  show "upto_nul (item_str (load g s)) = s" unfolding it using item_ok_no_nul [OF assms(2)] by simp
  show "item_str (load g s) ! 0 = hd (s @ [NUL])" unfolding it by (cases s) simp_all
qed (use assms in \<open>simp_all add: ready_def load_def Let_def\<close>)

lemma next_ready:
  assumes "gps_wf g" "asterisk g = 0" "unat (item_num g) < 255"
  shows "\<exists>g'. next_item g = Inr g' \<and> ready (cur_statement g) (Suc (unat (item_num g))) g' \<and> parent g' = parent g
    \<and> gps_info g' = gps_info g"
  using next_item_ok [OF assms(1)] assms(2) unat_inc_small [of "item_num g"] assms(3)
  by (auto simp: next_item_def andthen_eq_Inr ready_def unat_eq_zero)

lemma run_step:
  assumes "ready k n g" "item_ok s" "n < 255" "parse_item (load g s) = Inr g1" "cur_statement g1 = k"
  shows "\<exists>g2. run_items g s (t # ts) = run_items g2 t ts \<and> ready k (Suc n) g2 \<and> parent g2 = parent g1
    \<and> gps_info g2 = gps_info g"
proof -
  note l = loaded [OF assms(1,2)]
  note f = parse_item_frame [OF l(1) assms(4)]
  let ?g = "g1\<lparr>crc := crc g1 XOR of_char CHR '',''\<rparr>"
  have "gps_wf ?g" using wf_frame [OF l(1) f] by (simp add: wf_crc)
  moreover have "asterisk ?g = 0" "unat (item_num ?g) = n" "cur_statement ?g = k" "gps_info ?g = gps_info g"
    using f l assms(1,5) by (simp_all add: frame_def ready_def)
  ultimately obtain g2 where "next_item ?g = Inr g2" "ready k (Suc n) g2" "parent g2 = parent g1"
      "gps_info g2 = gps_info g"
    using next_ready [of ?g] assms(3) by auto
  then show ?thesis using assms(4) by (intro exI [of _ g2]) simp
qed

lemma run_last:
  assumes "ready k n g" "item_ok s" "parse_item (load g s) = Inr g1"
  shows "\<exists>g2. run_items g s [] = Inr g2 \<and> parent g2 = parent g1 \<and> cur_statement g2 = cur_statement g1"
proof -
  note l = loaded [OF assms(1,2)]
  have "gps_wf (g1\<lparr>asterisk := 1\<rparr>)" using wf_frame [OF l(1) parse_item_frame [OF l(1) assms(3)]] by (simp add: wf_crc)
  from next_item_ok [OF this] obtain g2 where g2: "next_item (g1\<lparr>asterisk := 1\<rparr>) = Inr g2" by blast
  have "cur_statement g2 = cur_statement g1" using g2 by (auto simp: next_item_def andthen_eq_Inr)
  with g2 next_item_wf [OF \<open>gps_wf (g1\<lparr>asterisk := 1\<rparr>)\<close>] assms(3) show ?thesis
    by (intro exI [of _ g2]) auto
qed


section \<open>The parser of a kind\<close>

definition kind_parser :: "u8 \<Rightarrow> esp_gps \<Rightarrow> fault + esp_gps" where
  "kind_parser k = (if k = STATEMENT_GGA then parse_gga else if k = STATEMENT_RMC then parse_rmc else parse_gll)"

lemma parse_item_kind:
  assumes "gps_wf g" "unat (item_num g) \<noteq> 0" "cur_statement g = k" "(nm, k, b) \<in> set position_kinds"
  shows "parse_item g = kind_parser k g"
proof -
  have "item_num g \<noteq> 0" using assms(2) by auto
  then show ?thesis using assms
    by (auto simp: parse_item_def kind_parser_def position_kinds_def)
qed

text \<open>An operation that touches neither the coordinates nor the kind, and does not fault.\<close>

definition side_item :: "esp_gps \<Rightarrow> fault + esp_gps \<Rightarrow> bool" where
  "side_item g r \<longleftrightarrow> (\<exists>g1. r = Inr g1 \<and> cur_statement g1 = cur_statement g
     \<and> latitude (parent g1) = latitude (parent g) \<and> longitude (parent g1) = longitude (parent g))"

lemma side_self [simp]: "side_item g (Inr g)"
  by (simp add: side_item_def)

lemma side_set_parent:
  assumes "\<And>v p. latitude (upd v p) = latitude p \<and> longitude (upd v p) = longitude p" "r = Inr v"
  shows "side_item g (set_parent g r upd)"
  using assms by (simp add: side_item_def set_parent_def)

lemma side_utc:
  assumes "gps_wf g"
  shows "side_item g (parse_utc_time g)"
proof -
  obtain t where "utc_thousand (item_str g) 7 0 = Inr t"
    using utc_thousand_ends [of "item_str g" 7 0] assms by (auto simp: gps_wf_def)
  then show ?thesis using assms by (auto simp: parse_utc_time_def side_item_def gps_wf_def)
qed

lemma side_valid: "gps_wf g \<Longrightarrow> side_item g (set_valid g)"
  by (simp add: set_valid_def side_item_def set_parent_def)

lemma side_date:
  "gps_wf g \<Longrightarrow> side_item g (andthen (convert_two_digit2number (item_str g) 0) (\<lambda>d.
        andthen (convert_two_digit2number (item_str g) 2) (\<lambda>m.
        andthen (convert_two_digit2number (item_str g) 4) (\<lambda>y.
        Inr (g\<lparr>parent := (parent g)\<lparr>gps_date := \<lparr>day = d, month = m, year = ucast y\<rparr>\<rparr>\<rparr>)))))"
  by (auto simp: side_item_def gps_wf_def)

lemma side_float:
  "gps_wf g \<Longrightarrow> (\<And>v p. latitude (upd v p) = latitude p \<and> longitude (upd v p) = longitude p) \<Longrightarrow>
    side_item g (set_parent g (item_float g) upd)"
  "gps_wf g \<Longrightarrow> (\<And>v p. latitude (upd' v p) = latitude p \<and> longitude (upd' v p) = longitude p) \<Longrightarrow>
    side_item g (set_parent g (item_long g 10) upd')"
  by (simp_all add: side_item_def set_parent_def)

lemma side_kind:
  assumes "gps_wf g" "(nm, k, b) \<in> set position_kinds" "n = unat (item_num g)" "n \<noteq> 0" "n \<le> b \<or> b + 4 < n"
  shows "side_item g (kind_parser k g)"
proof -
  consider "k = STATEMENT_GGA" "b = 1" | "k = STATEMENT_RMC" "b = 2" | "k = STATEMENT_GLL" "b = 0"
    using assms(2) by (auto simp: position_kinds_def)
  then show ?thesis
  proof cases
    case 1
    then show ?thesis using assms
      by (auto simp: kind_parser_def parse_gga_def Let_def side_utc [OF assms(1)] simp del: item_reads
          intro!: side_float)
  next
    case 2
    then show ?thesis using assms side_date [OF assms(1)]
      by (auto simp: kind_parser_def parse_rmc_def Let_def side_utc side_valid simp del: item_reads two_digits_ok
          intro!: side_float)
  next
    case 3
    then show ?thesis using assms
      by (auto simp: kind_parser_def parse_gll_def Let_def side_utc side_valid)
  qed
qed

lemma position_item:
  assumes "(nm, k, b) \<in> set position_kinds"
  shows "unat (item_num g) = b + 1 \<Longrightarrow> kind_parser k g = set_latitude g"
    and "unat (item_num g) = b + 2 \<Longrightarrow> kind_parser k g = south g"
    and "unat (item_num g) = b + 3 \<Longrightarrow> kind_parser k g = set_longitude g"
    and "unat (item_num g) = b + 4 \<Longrightarrow> kind_parser k g = west g"
  using assms by (auto simp: position_kinds_def kind_parser_def parse_gga_def parse_rmc_def parse_gll_def)

section \<open>The four position items\<close>

text \<open>A coordinate as it was read, and after its hemisphere.\<close>

definition read_as :: "c_float \<Rightarrow> rat \<Rightarrow> bool" where
  "read_as x v \<longleftrightarrow> (\<exists>y. x = Fin y \<and> \<bar>y - v\<bar> \<le> 1 / 20000)"

lemma coord_read:
  assumes "coord s v" "gps_wf g" "upto_nul (item_str g) = s"
  shows "\<exists>x. parse_lat_long g = Inr x \<and> read_as x v \<and> 0 \<le> v \<and> v \<le> 181"
proof -
  obtain ip fp deg m where c: "s = decimal ip fp" "ip \<noteq> []" "\<forall>d \<in> set ip. d < 10" "\<forall>d \<in> set fp. d < 10"
      "decimal_value ip fp = 100 * of_nat deg + m" "deg \<le> 180" "0 \<le> m" "m < 60" "v = of_nat deg + m / 60"
    using assms(1) by (auto simp: coord_def)
  have "upto_nul (item_str g) = decimal ip fp" using assms(3) c(1) by simp
  from lat_long_accuracy [OF assms(2) this c(2-8)]
  obtain y where "parse_lat_long g = Inr (Fin y)" "\<bar>y - v\<bar> \<le> 1 / 20000" by (auto simp: c(9))
  moreover have "(of_nat deg :: rat) \<le> 180" using c(6) by simp
  then have "0 \<le> v" "v \<le> 181" using c(7-9) by auto
  ultimately show ?thesis by (auto simp: read_as_def)
qed

lemma coord_item_ok: "coord s v \<Longrightarrow> item_ok s"
proof -
  assume "coord s v"
  then obtain ip fp where s: "s = decimal ip fp" "\<forall>d \<in> set (ip @ fp). d < 10" "length s \<le> 15"
    by (auto simp: coord_def)
  have "plain (digit_char False d)" if "d < 10" for d
  proof -
    have "(of_char (digit_char False d) :: nat) = 48 + d" using that by simp
    then show ?thesis using that unfolding plain_def by (auto simp del: of_char_digit_char)
  qed
  moreover have "plain CHR ''.''" by (simp add: plain_def)
  ultimately have "\<forall>c \<in> set s. plain c" using s(2) by (auto simp: s(1) decimal_def)
  then show "item_ok s" using s(3) by (simp add: item_ok_def)
qed

lemma read_as_near: "read_as x v \<Longrightarrow> near x v"
  by (force simp: read_as_def near_def)

lemma negated_near:
  assumes "read_as x v" "0 \<le> v" "v \<le> 181"
  shows "near (f_mul to_f32 x (Fin (- 1))) (- v)"
proof -
  obtain y where y: "x = Fin y" "\<bar>y - v\<bar> \<le> 1 / 20000" using assms(1) by (auto simp: read_as_def)
  have p: "(2 :: rat) ^ 8 = 256" by simp
  have "\<bar>- y\<bar> < 2 ^ 8" using y(2) assms(2,3) unfolding p by linarith
  then obtain z where z: "to_f32 (- y) = Fin z" "\<bar>z - (- y)\<bar> \<le> 2 ^ 8 / 33554432"
    using to_f32_err_below [of "- y" 8] by auto
  have "\<bar>z - (- v)\<bar> \<le> 1 / 17000" using y(2) z(2) unfolding p by linarith
  then show ?thesis using y(1) z(1) by (simp add: near_def)
qed

lemma hemisphere:
  assumes "gps_wf g" "item_str g ! 0 = c" "read_as x v" "0 \<le> v" "v \<le> 181"
  shows "\<exists>x'. negate_if g up low x upd
      = Inr (if c = up \<or> c = low then g\<lparr>parent := upd x' (parent g)\<rparr> else g)
    \<and> near x' (- v)"
  using negated_near [OF assms(3-5)] assms(1,2)
  by (intro exI [of _ "f_mul to_f32 x (Fin (- 1))"]) (simp add: negate_if_def)


section \<open>From the name to the end\<close>

lemma name_kind:
  assumes "(nm, k, b) \<in> set position_kinds"
  shows "(let s = CHR ''$'' # t1 # t2 # nm in
      if strstr_found s ''GGA'' then STATEMENT_GGA else if strstr_found s ''GSA'' then STATEMENT_GSA
      else if strstr_found s ''RMC'' then STATEMENT_RMC else if strstr_found s ''GSV'' then STATEMENT_GSV
      else if strstr_found s ''GLL'' then STATEMENT_GLL else if strstr_found s ''VTG'' then STATEMENT_VTG
      else STATEMENT_UNKNOWN) = k"
proof -
  consider "nm = ''GGA''" "k = STATEMENT_GGA" | "nm = ''RMC''" "k = STATEMENT_RMC"
    | "nm = ''GLL''" "k = STATEMENT_GLL" using assms by (auto simp: position_kinds_def)
  then show ?thesis
  proof cases
    case 1
    then show ?thesis by (simp only: Let_def strstr_found.simps is_prefix.simps char.inject simp_thms HOL.if_True HOL.if_False)
  next
    case 2
    then show ?thesis by (simp only: Let_def strstr_found.simps is_prefix.simps char.inject simp_thms HOL.if_True HOL.if_False)
  next
    case 3
    then show ?thesis by (simp only: Let_def strstr_found.simps is_prefix.simps char.inject simp_thms HOL.if_True HOL.if_False)
  qed
qed

lemma run_name:
  assumes wf: "gps_wf g" and kind: "(nm, k, b) \<in> set position_kinds" and t1: "plain t1" and t2: "plain t2"
  shows "\<exists>g2. run_items (sentence_start g) (t1 # t2 # nm) (t # ts) = run_items g2 t ts \<and> ready k 1 g2"
proof -
  let ?g = "sentence_start g" and ?s = "t1 # t2 # nm"
  have st: "gps_wf ?g" "unat (item_pos ?g) = 1" using start_char [OF wf] by (simp_all add: sentence_start_def)
  have len: "unat (item_pos ?g) + length ?s \<le> 15" using st(2) kind by (auto simp: position_kinds_def)
  note l = load_wf(1) [OF st(1) len]
  have "\<exists>rest. item_str ?g = CHR ''$'' # rest"
    using wf by (cases "item_str g") (auto simp: sentence_start_def gps_wf_def)
  then obtain rest where "item_str ?g = CHR ''$'' # rest" by blast
  then have it: "item_str (load ?g ?s) = CHR ''$'' # ?s @ NUL # drop (length ?s + 1) rest"
    unfolding load_def Let_def st(2) by simp
  have nn: "t1 \<noteq> NUL" "t2 \<noteq> NUL" using t1 t2 by (simp_all add: plain_def)
  have c: "upto_nul (item_str (load ?g ?s)) = CHR ''$'' # ?s"
  proof -
    have "NUL \<notin> set nm" using kind by (auto simp: position_kinds_def)
    then have nul: "NUL \<notin> set (CHR ''$'' # ?s)" using nn by simp
    have "upto_nul ((CHR ''$'' # ?s) @ NUL # t) = CHR ''$'' # ?s" for t by (rule upto_nul_append_nul [OF nul])
    then show ?thesis unfolding it by (simp only: append_Cons)
  qed
  have str: "cstr (item_str (load ?g ?s)) = Inr (CHR ''$'' # ?s)"
    using nul_in_item [OF l] c by (simp add: cstr_def)
  have num: "item_num (load ?g ?s) = 0" by (simp add: load_def Let_def sentence_start_def)
  have c0: "item_char0 (load ?g ?s) = Inr CHR ''$''" by (simp add: item_reads(3) [OF l] it)
  have p: "parse_item (load ?g ?s) = Inr ((load ?g ?s)\<lparr>cur_statement := k\<rparr>)"
    by (simp only: parse_item_def c0 num str andthen_Inr simp_thms HOL.if_True
        name_kind [OF kind, of t1 t2, unfolded Let_def])
  let ?h = "(load ?g ?s)\<lparr>cur_statement := k, crc := crc (load ?g ?s) XOR of_char CHR '',''\<rparr>"
  have "gps_wf ?h" using l by (simp add: gps_wf_def)
  moreover have "asterisk ?h = 0" "unat (item_num ?h) = 0" "cur_statement ?h = k"
    by (simp_all add: load_def Let_def sentence_start_def)
  ultimately obtain g2 where "next_item ?h = Inr g2" "ready k 1 g2"
    using next_ready [of ?h] by auto
  with p show ?thesis by (intro exI [of _ g2]) simp
qed

lemma run_side:
  assumes "ready k n g" "(nm, k, b) \<in> set position_kinds" "item_ok s" "0 < n" "n \<le> b \<or> b + 4 < n"
  shows "\<exists>g1. parse_item (load g s) = Inr g1 \<and> cur_statement g1 = k
    \<and> latitude (parent g1) = latitude (parent g) \<and> longitude (parent g1) = longitude (parent g)"
proof -
  note l = loaded [OF assms(1,3)]
  have n: "unat (item_num (load g s)) = n" using l(2) assms(1) by (simp add: ready_def)
  have "parse_item (load g s) = kind_parser k (load g s)"
    by (rule parse_item_kind [OF l(1) _ l(3) assms(2)]) (use n assms(4) in simp)
  then show ?thesis using side_kind [OF l(1) assms(2) refl] n assms(4,5) l(3,4) by (simp add: side_item_def)
qed

lemma run_before:
  assumes "(nm, k, b) \<in> set position_kinds" "ready k n g" "0 < n" "n + length pre = b + 1" "\<forall>t \<in> set pre. item_ok t"
  shows "\<exists>g2. run_items g (hd (pre @ [t])) (tl (pre @ [t]) @ ts) = run_items g2 t ts \<and> ready k (b + 1) g2"
  using assms(2-)
proof (induction pre arbitrary: g n)
  case Nil
  then show ?case by auto
next
  case (Cons s pre)
  have b: "b \<le> 2" using assms(1) by (auto simp: position_kinds_def)
  obtain g1 where g1: "parse_item (load g s) = Inr g1" "cur_statement g1 = k"
    using run_side [OF Cons.prems(1) assms(1), of s] Cons.prems by auto
  obtain g2 where g2: "run_items g s (hd (pre @ [t]) # tl (pre @ [t]) @ ts) = run_items g2 (hd (pre @ [t])) (tl (pre @ [t]) @ ts)"
      "ready k (Suc n) g2"
    using run_step [OF Cons.prems(1) _ _ g1] Cons.prems b by fastforce
  have list: "hd ((s # pre) @ [t]) = s" "tl ((s # pre) @ [t]) @ ts = hd (pre @ [t]) # tl (pre @ [t]) @ ts"
    by (cases pre; simp)+
  show ?case unfolding list g2(1) by (rule Cons.IH [OF g2(2)]) (use Cons.prems in auto)
qed

lemma run_after:
  assumes "(nm, k, b) \<in> set position_kinds" "ready k n g" "item_ok s" "parse_item (load g s) = Inr g1"
    "cur_statement g1 = k" "b + 4 \<le> n" "n + length rest < 255" "\<forall>t \<in> set rest. item_ok t"
  shows "\<exists>g'. run_items g s rest = Inr g' \<and> latitude (parent g') = latitude (parent g1)
    \<and> longitude (parent g') = longitude (parent g1) \<and> cur_statement g' = k"
  using assms(2-)
proof (induction rest arbitrary: g s n g1)
  case Nil
  then show ?case using run_last [OF Nil.prems(1-3)] by auto
next
  case (Cons t rest)
  obtain g2 where g2: "run_items g s (t # rest) = run_items g2 t rest" "ready k (Suc n) g2" "parent g2 = parent g1"
    using run_step [OF Cons.prems(1,2) _ Cons.prems(3,4), of t rest] Cons.prems(6) by auto
  obtain g3 where g3: "parse_item (load g2 t) = Inr g3" "cur_statement g3 = k"
      "latitude (parent g3) = latitude (parent g2)" "longitude (parent g3) = longitude (parent g2)"
    using run_side [OF g2(2) assms(1), of t] Cons.prems by auto
  from Cons.IH [OF g2(2) _ g3(1,2)] Cons.prems g2 g3 show ?case by auto
qed


text \<open>The four items in their order, and what follows them.\<close>

lemma run_latitude:
  assumes kind: "(nm, k, b) \<in> set position_kinds" and r: "ready k (b + 1) g"
    and lat: "coord lat v" "item_ok lat" and ns: "ns \<in> {''N'', ''S''}"
  shows "\<exists>g'. run_items g lat (ns # t # ts) = run_items g' t ts \<and> ready k (b + 3) g'
    \<and> near (latitude (parent g')) (if ns = ''S'' then - v else v)"
proof -
  have b: "b \<le> 2" using kind by (auto simp: position_kinds_def)
  have ok: "item_ok ns" using ns by (auto simp: item_ok_def plain_def)
  note p = parse_item_kind [OF _ _ _ kind]
  note l = loaded [OF r lat(2)]
  have n1: "unat (item_num (load g lat)) = b + 1" using l(2) r by (simp add: ready_def)
  obtain x where x: "parse_lat_long (load g lat) = Inr x" "read_as x v" "0 \<le> v" "v \<le> 181"
    using coord_read [OF lat(1) l(1,7)] by blast
  let ?g1 = "(load g lat)\<lparr>parent := (parent g)\<lparr>latitude := x\<rparr>\<rparr>"
  have "parse_item (load g lat) = Inr ?g1"
    using p [OF l(1) _ l(3)] position_item(1) [OF kind n1] n1 x(1) l(4) by (simp add: set_latitude_def set_parent_def)
  from run_step [OF r lat(2) _ this, of ns "t # ts"] l(3) b
  obtain g2 where g2: "run_items g lat (ns # t # ts) = run_items g2 ns (t # ts)"
      "ready k (b + 2) g2" "parent g2 = (parent g)\<lparr>latitude := x\<rparr>" by auto
  note l = loaded [OF g2(2) ok]
  have n2: "unat (item_num (load g2 ns)) = b + 2" using l(2) g2(2) by (simp add: ready_def)
  have "\<exists>g3. parse_item (load g2 ns) = Inr g3 \<and> cur_statement g3 = k
      \<and> near (latitude (parent g3)) (if ns = ''S'' then - v else v)"
    using hemisphere [OF l(1) l(8) x(2-4), of "CHR ''S''" "CHR ''s''" "\<lambda>v p. p\<lparr>latitude := v\<rparr>"]
      p [OF l(1) _ l(3)] position_item(2) [OF kind n2] n2 ns l(3,4) g2(3) read_as_near [OF x(2)]
    by (auto simp: south_def)
  then obtain g3 where g3: "parse_item (load g2 ns) = Inr g3" "cur_statement g3 = k"
      "near (latitude (parent g3)) (if ns = ''S'' then - v else v)" by blast
  from run_step [OF g2(2) ok _ g3(1,2), of t ts] b g3(3) g2(1) show ?thesis by (auto simp: eval_nat_numeral)
qed

lemma run_longitude:
  assumes kind: "(nm, k, b) \<in> set position_kinds" and r: "ready k (b + 3) g"
    and lon: "coord lon u" "item_ok lon" and ew: "ew \<in> {''E'', ''W''}"
  shows "\<exists>g1 g2. run_items g lon (ew # ts) = run_items g1 ew ts \<and> ready k (b + 4) g1
    \<and> parse_item (load g1 ew) = Inr g2 \<and> cur_statement g2 = k \<and> latitude (parent g2) = latitude (parent g)
    \<and> near (longitude (parent g2)) (if ew = ''W'' then - u else u)"
proof -
  have b: "b \<le> 2" using kind by (auto simp: position_kinds_def)
  have ok: "item_ok ew" using ew by (auto simp: item_ok_def plain_def)
  note p = parse_item_kind [OF _ _ _ kind]
  note l = loaded [OF r lon(2)]
  have n3: "unat (item_num (load g lon)) = b + 3" using l(2) r by (simp add: ready_def)
  obtain y where y: "parse_lat_long (load g lon) = Inr y" "read_as y u" "0 \<le> u" "u \<le> 181"
    using coord_read [OF lon(1) l(1,7)] by blast
  let ?g = "(load g lon)\<lparr>parent := (parent g)\<lparr>longitude := y\<rparr>\<rparr>"
  have "parse_item (load g lon) = Inr ?g"
    using p [OF l(1) _ l(3)] position_item(3) [OF kind n3] n3 y(1) l(4)
    by (simp add: set_longitude_def set_parent_def)
  from run_step [OF r lon(2) _ this, of ew ts] l(3) b
  obtain g1 where g1: "run_items g lon (ew # ts) = run_items g1 ew ts"
      "ready k (b + 4) g1" "parent g1 = (parent g)\<lparr>longitude := y\<rparr>" by (auto simp: eval_nat_numeral)
  note l = loaded [OF g1(2) ok]
  have n4: "unat (item_num (load g1 ew)) = b + 4" using l(2) g1(2) by (simp add: ready_def)
  have "\<exists>g2. parse_item (load g1 ew) = Inr g2 \<and> cur_statement g2 = k \<and> latitude (parent g2) = latitude (parent g)
      \<and> near (longitude (parent g2)) (if ew = ''W'' then - u else u)"
    using hemisphere [OF l(1) l(8) y(2-4), of "CHR ''W''" "CHR ''w''" "\<lambda>v p. p\<lparr>longitude := v\<rparr>"]
      p [OF l(1) _ l(3)] position_item(4) [OF kind n4] n4 ew l(3,4) g1(3) read_as_near [OF y(2)]
    by (auto simp: west_def)
  with g1(1,2) show ?thesis by blast
qed

lemma run_position:
  assumes kind: "(nm, k, b) \<in> set position_kinds" and r: "ready k (b + 1) g"
    and lat: "coord lat v" "item_ok lat" and lon: "coord lon u" "item_ok lon"
    and ns: "ns \<in> {''N'', ''S''}" and ew: "ew \<in> {''E'', ''W''}"
    and rest: "length rest \<le> 240" "\<forall>t \<in> set rest. item_ok t"
  shows "\<exists>g'. run_items g lat (ns # lon # ew # rest) = Inr g' \<and> cur_statement g' = k
    \<and> near (latitude (parent g')) (if ns = ''S'' then - v else v)
    \<and> near (longitude (parent g')) (if ew = ''W'' then - u else u)"
proof -
  have b: "b \<le> 2" using kind by (auto simp: position_kinds_def)
  have ok: "item_ok ew" using ew by (auto simp: item_ok_def plain_def)
  obtain g1 where g1: "run_items g lat (ns # lon # ew # rest) = run_items g1 lon (ew # rest)" "ready k (b + 3) g1"
      "near (latitude (parent g1)) (if ns = ''S'' then - v else v)"
    using run_latitude [OF kind r lat ns] by blast
  obtain g2 g3 where g2: "run_items g1 lon (ew # rest) = run_items g2 ew rest" "ready k (b + 4) g2"
      "parse_item (load g2 ew) = Inr g3" "cur_statement g3 = k" "latitude (parent g3) = latitude (parent g1)"
      "near (longitude (parent g3)) (if ew = ''W'' then - u else u)"
    using run_longitude [OF kind g1(2) lon ew] by blast
  from run_after [OF kind g2(2) ok g2(3,4) _ _ rest(2)] rest(1) b
  obtain g' where "run_items g2 ew rest = Inr g'" "cur_statement g' = k" "latitude (parent g') = latitude (parent g3)"
      "longitude (parent g') = longitude (parent g3)" by auto
  then show ?thesis using g1 g2 by (intro exI [of _ g']) (simp del: run_items.simps)
qed

lemma position_decoded:
  assumes "gps_wf g" and "(nm, k, length pre) \<in> set position_kinds" and "plain t1" and "plain t2"
    and "\<forall>t \<in> set (pre @ rest). item_ok t" and "item_ok hh" and "length rest \<le> 240"
    and "coord lat v" and "coord lon u" and "ns \<in> {''N'', ''S''}" and "ew \<in> {''E'', ''W''}"
  shows "\<exists>g'. gps_decode g (sentence (t1 # t2 # nm) (pre @ [lat, ns, lon, ew] @ rest) hh @ [NUL]) = Inr g'
    \<and> near (latitude (parent g')) (if ns = ''S'' then - v else v)
    \<and> near (longitude (parent g')) (if ew = ''W'' then - u else u)
    \<and> gps_info g' = (if xor_chars 0 (body (t1 # t2 # nm) (pre @ [lat, ns, lon, ew] @ rest)) = word_of_int (strtol hh 16)
        \<and> ucast (parsed_statement g OR push_bit (unat k) 1) AND all_statements g = all_statements g
      then parent g' else gps_info g)"
proof -
  let ?ts = "pre @ [lat, ns, lon, ew] @ rest"
  have okc: "item_ok lat" "item_ok lon" using coord_item_ok assms(8,9) by blast+
  have "item_ok ns" "item_ok ew" using assms(10,11) by (auto simp: item_ok_def plain_def)
  then have ok: "\<forall>t \<in> set ?ts. item_ok t" using assms(5) okc by auto
  have nm: "\<forall>c \<in> set (t1 # t2 # nm). plain c" "length (t1 # t2 # nm) \<le> 14"
    using assms(2-4) by (auto simp: position_kinds_def plain_def)
  note dec = decode_sentence [OF assms(1) nm ok assms(6)]
  have list: "hd (pre @ [lat]) # tl (pre @ [lat]) @ ns # lon # ew # rest = ?ts" by (cases pre) simp_all
  obtain g2 where g2: "run_items (sentence_start g) (t1 # t2 # nm) ?ts
      = run_items g2 (hd (pre @ [lat])) (tl (pre @ [lat]) @ ns # lon # ew # rest)" "ready k 1 g2"
    using run_name [OF assms(1-4), of "hd (pre @ [lat])" "tl (pre @ [lat]) @ ns # lon # ew # rest"]
    unfolding list by blast
  obtain g3 where g3: "run_items g2 (hd (pre @ [lat])) (tl (pre @ [lat]) @ ns # lon # ew # rest)
      = run_items g3 lat (ns # lon # ew # rest)" "ready k (length pre + 1) g3"
    using run_before [OF assms(2) g2(2), of pre lat "ns # lon # ew # rest"] assms(5) by auto
  obtain g4 where g4: "run_items g3 lat (ns # lon # ew # rest) = Inr g4" "cur_statement g4 = k"
      "near (latitude (parent g4)) (if ns = ''S'' then - v else v)"
      "near (longitude (parent g4)) (if ew = ''W'' then - u else u)"
    using run_position [OF assms(2) g3(2) assms(8) okc(1) assms(9) okc(2) assms(10,11,7)] assms(5) by auto
  have run: "run_items (sentence_start g) (t1 # t2 # nm) ?ts = Inr g4" using g2(1) g3(1) g4(1) by simp
  have st: "gps_wf (sentence_start g)" "unat (item_pos (sentence_start g)) + length (t1 # t2 # nm) \<le> 15"
      "asterisk (sentence_start g) = 0"
    using start_char [OF assms(1)] nm(2) by (simp_all add: sentence_start_def)
  note eff = run_items_effect [OF st(1,2) ok st(3) run]
  have wf: "gps_wf (load g4 hh)" using load_wf(1) [of g4 hh] eff assms(6) by (simp add: item_ok_def)
  obtain g' where g': "end_of_statement (load g4 hh) = Inr g'" using end_of_statement_ok [OF wf] by blast
  have cur: "cur_statement (load g4 hh) = k" using g4(2) by (simp add: load_def Let_def)
  have nn: "NUL \<notin> set hh" by (rule item_ok_no_nul [OF assms(6)])
  have l: "crc (load g4 hh) = xor_chars 0 (body (t1 # t2 # nm) ?ts)" "parent (load g4 hh) = parent g4"
      "gps_info (load g4 hh) = gps_info g" "parsed_statement (load g4 hh) = parsed_statement g"
      "upto_nul (item_str (load g4 hh)) = hh" "all_statements (load g4 hh) = all_statements g"
    using eff nn by (simp_all add: load_def Let_def sentence_start_def)
  have mark: "parsed_statement (mark_statement (load g4 hh)) = parsed_statement g OR push_bit (unat k) 1"
    using cur assms(2) l(4) by (auto simp: mark_statement_def position_kinds_def)
  note e = end_of_statement_cases [OF wf g', unfolded l mark]
  have "gps_decode g (sentence (t1 # t2 # nm) ?ts hh @ [NUL]) = Inr g'"
    unfolding dec run using g' by simp
  moreover have "near (latitude (parent g')) (if ns = ''S'' then - v else v)"
      "near (longitude (parent g')) (if ew = ''W'' then - u else u)" using e g4(3,4) by simp_all
  moreover have "gps_info g' = (if xor_chars 0 (body (t1 # t2 # nm) ?ts) = word_of_int (strtol hh 16)
        \<and> ucast (parsed_statement g OR push_bit (unat k) 1) AND all_statements g = all_statements g
      then parent g' else gps_info g)" using e by (auto split: if_splits)
  ultimately show ?thesis by blast
qed

section \<open>Properties\<close>

text \<open>C23: A sentence with a position (of any talker, with any time, status and further items)
  is decoded, and leaves the latitude and the longitude within \<open>1/17000\<close> of a degree of what it
  says, south and west negative; the rest of the firmware gets to see just this position when
  the checksum is right and the sentence completes a set, and its old one otherwise.\<close>

theorem sentence_position:
  assumes "gps_wf g" and "(nm, k, length pre) \<in> set position_kinds" and "plain t1" and "plain t2"
    and "\<forall>t \<in> set (pre @ rest). item_ok t" and "item_ok hh" and "length rest \<le> 240"
    and "coord lat v" and "coord lon u" and "ns \<in> {''N'', ''S''}" and "ew \<in> {''E'', ''W''}"
  shows "\<exists>g'. gps_decode g (sentence (t1 # t2 # nm) (pre @ [lat, ns, lon, ew] @ rest) hh @ [NUL]) = Inr g'
    \<and> near (latitude (parent g')) (if ns = ''S'' then - v else v)
    \<and> near (longitude (parent g')) (if ew = ''W'' then - u else u)
    \<and> gps_info g' = (if xor_chars 0 (body (t1 # t2 # nm) (pre @ [lat, ns, lon, ew] @ rest)) = word_of_int (strtol hh 16)
        \<and> ucast (parsed_statement g OR push_bit (unat k) 1) AND all_statements g = all_statements g
      then parent g' else gps_info g)"
  by (rule position_decoded [OF assms])

lemma sample_coords: "coord ''1345.5'' (13 + 455 / 600)" "coord ''10030.75'' (100 + 3075 / 6000)"
proof -
  show "coord ''1345.5'' (13 + 455 / 600)"
    unfolding coord_def
    by (intro conjI exI [of _ "[1, 3, 4, 5]"] exI [of _ "[5]"] exI [of _ 13] exI [of _ "455 / 10"])
      (simp_all add: decimal_def decimal_value_def digits_value_def, code_simp)
  show "coord ''10030.75'' (100 + 3075 / 6000)"
    unfolding coord_def
    by (intro conjI exI [of _ "[1, 0, 0, 3, 0]"] exI [of _ "[7, 5]"] exI [of _ 100] exI [of _ "3075 / 100"])
      (simp_all add: decimal_def decimal_value_def digits_value_def, code_simp)
qed

theorem sentence_position_witness:
  "\<exists>g'. gps_decode initial_gps (sentence ''GNGLL'' [''1345.5'', ''S'', ''10030.75'', ''E'', ''123519'', ''A''] ''1D'' @ [NUL]) = Inr g'
    \<and> near (latitude (parent g')) (- (13 + 455 / 600)) \<and> near (longitude (parent g')) (100 + 3075 / 6000)"
proof -
  have kind: "(''GLL'', STATEMENT_GLL, length []) \<in> set position_kinds" by (simp add: position_kinds_def)
  have talker: "plain CHR ''G''" "plain CHR ''N''" by (simp_all add: plain_def)
  have items: "\<forall>t \<in> set ([] @ [''123519'', ''A'']). item_ok t" "item_ok ''1D''"
    by (simp_all add: item_ok_def plain_def)
  show ?thesis
    using sentence_position [OF initial_wf kind talker items _ sample_coords, of "''S''" "''E''"]
    by (auto simp del: gps_decode.simps)
qed

end
