(* ===== verification/Position_Report.thy ===== *)
theory Position_Report
  imports Lighting_Uplink Gps_Position
begin

text \<open>
  The report \<open>add_queue_infomation\<close> makes on request (\<open>main/main.c\<close>): the id of the lamp, the
  published position, the mesh id and the channel. The position comes from \<open>nmea_parser.c\<close>
  (\<open>Gps_Position\<close>) and is scaled by \<open>CayenneLPP__addGPS\<close> (\<open>CMLPP.c\<close>), which has no sign.
\<close>

section \<open>Scaling a position\<close>

lemma trunc_between: "0 \<le> z \<Longrightarrow> of_int (trunc z) \<le> z \<and> z < of_int (trunc z) + 1 \<and> 0 \<le> trunc z"
  using floor_correct [of z] by (simp add: trunc_nonneg)

text \<open>A position in the north or east: the 32-bit value, which fits the 24 bits that are sent.\<close>

lemma scale_position:
  assumes "near x v" "1 / 10000 \<le> v" "v \<le> 181"
  shows "\<exists>w. scale32 x 10000 = Inr w \<and> unat w < 2 ^ 24 \<and> \<bar>of_nat (unat w) / 10000 - v\<bar> \<le> 1 / 6000"
proof -
  obtain y where y: "x = Fin y" "\<bar>y - v\<bar> \<le> 1 / 17000" using assms(1) by (auto simp: near_def)
  have y0: "0 \<le> y * 10000" "y * 10000 < 1810001" using y(2) assms(2,3) by linarith+
  have p: "(2 :: rat) ^ 21 = 2097152" by simp
  obtain z where z: "to_f32 (y * 10000) = Fin z" "\<bar>z - y * 10000\<bar> \<le> 2 ^ 21 / 33554432"
    using to_f32_err_below [of "y * 10000" 21] y0 by auto
  have "\<exists>z'. to_f32 (y * 10000) = Fin z' \<and> of_int 0 \<le> z' \<and> z' \<le> of_int 1810001"
    by (rule to_f32_int_bounds) (use y0 in auto)
  then have z0: "0 \<le> z" "z \<le> 1810001" using z(1) by auto
  define i where "i = trunc z"
  note i = trunc_between [OF z0(1), folded i_def]
  have "of_int i \<le> (1810001 :: rat)" using i z0(2) by linarith
  then have i2: "i \<le> 1810001" by linarith
  have s: "scale32 x 10000 = Inr (word_of_int i)"
    using y(1) z(1) i i2 by (simp add: scale32_def f_to_u32_def i_def)
  have u: "unat (word_of_int i :: u32) = nat i" using i i2 by (simp add: unat_eq_nat_uint uint_word_of_int)
  have n: "(of_nat (nat i) :: rat) = of_int i" using i by simp
  have "\<bar>of_nat (nat i) / 10000 - v\<bar> \<le> 1 / 6000"
    unfolding n using i z(2) y(2) unfolding p by linarith
  then show ?thesis using s u i2 by (intro exI [of _ "word_of_int i"]) (simp only: u, simp)
qed

text \<open>One in the south or west is converted to an unsigned number, which C leaves undefined.\<close>

lemma scale_negative:
  assumes "near x (- v)" "1 / 1000 \<le> v" "v \<le> 181"
  shows "scale32 x 10000 = Inl Float_Range"
proof -
  obtain y where y: "x = Fin y" "\<bar>y - (- v)\<bar> \<le> 1 / 17000" using assms(1) by (auto simp: near_def)
  have y0: "y * 10000 \<le> - 9" "- 1810001 \<le> y * 10000" using y(2) assms(2,3) by linarith+
  have "\<exists>z. to_f32 (y * 10000) = Fin z \<and> of_int (- 1810001) \<le> z \<and> z \<le> of_int (- 9)"
    by (rule to_f32_int_bounds) (use y0 in auto)
  then obtain z where z: "to_f32 (y * 10000) = Fin z" "z \<le> - 9" by auto
  have "trunc z < 0" using z(2) by (simp add: trunc_def ceiling_less_zero)
  then show ?thesis using y(1) z(1) by (simp add: scale32_def f_to_u32_def)
qed


section \<open>The report\<close>

definition position_fields :: "env \<Rightarrow> lighting \<Rightarrow> nat \<Rightarrow> lpp_field list" where
  "position_fields env st mesh =
     [Node_ID (mac_string (sta_mac env)), GPS (latitude (position st)) (longitude (position st)) (Fin 0),
      Mesh_ID (of_nat mesh), Mesh_CH (ucast (meshch (status_led st)))]"

text \<open>The bytes of a report with the scaled latitude and longitude.\<close>

definition position_bytes :: "env \<Rightarrow> lighting \<Rightarrow> nat \<Rightarrow> u32 \<Rightarrow> u32 \<Rightarrow> u8 list list" where
  "position_bytes env st mesh lat lon =
     [150 # mac_bytes (mac_str2hex env (mac_string (sta_mac env))),
      LPP_GPS # be24 lat @ be24 lon @ be24 0, 153 # be24 (of_nat mesh), [154, meshch (status_led st)]]"

lemma channel_byte: "byte 0 (ucast (v :: u8) :: u16) = v"
  by (simp add: byte_def bit_eq_iff bit_simps)

lemma altitude_zero: "scale32 (Fin 0) 100 = Inr 0"
  using to_f32_int [of 0] by (simp add: scale32_def f_to_u32_def trunc_def)

lemma position_encoding:
  assumes "scale32 (latitude (position st)) 10000 = Inr lat" "scale32 (longitude (position st)) 10000 = Inr lon"
  shows "list_all2 (\<lambda>f bs. lpp_encode (mac_str2hex env) f = Inr bs) (position_fields env st mesh)
    (position_bytes env st mesh lat lon)"
  using assms altitude_zero channel_byte by (simp add: position_fields_def position_bytes_def)

lemma add_queue_infomation_spec:
  assumes "scale32 (latitude (position st)) 10000 = Inr lat" "scale32 (longitude (position st)) 10000 = Inr lon"
    and "array_to_num (meshid (status_led st)) rows = Inr (int mesh)"
    and "length (heap_block env) = 51" "ring_ok n (msgs st)" "pad env \<noteq> 0"
  shows "\<exists>st'. add_queue_infomation env st rows = Inr st'
    \<and> queued n st (print_bytes True (concat (position_bytes env st mesh lat lon))) st'"
proof -
  let ?m = "mac_str2hex env"
  have len: "length (concat (position_bytes env st mesh lat lon)) = 23" by (simp add: position_bytes_def)
  obtain lpp where lpp: "lpp_ops ?m (position_fields env st mesh) (CayenneLPP__create (heap_block env)) = Inr lpp"
      "lpp_wf 51 lpp" "payload lpp = concat (position_bytes env st mesh lat lon)"
    using report_spec [OF position_encoding [OF assms(1,2), of env mesh], of "heap_block env"] len assms(4) by auto
  have "add_queue_infomation env st rows = queue_payload env st lpp"
  proof -
    let ?f = "[Node_ID (mac_string (sta_mac env)), GPS (latitude (position st)) (longitude (position st)) (Fin 0)]"
    have "lpp_ops ?m (?f @ [Mesh_ID (of_nat mesh), Mesh_CH (ucast (meshch (status_led st)))])
        (CayenneLPP__create (heap_block env)) = Inr lpp"
      using lpp(1) by (simp only: position_fields_def append.simps)
    then obtain lpp1 where "lpp_ops ?m ?f (CayenneLPP__create (heap_block env)) = Inr lpp1"
        "lpp_ops ?m [Mesh_ID (of_nat mesh), Mesh_CH (ucast (meshch (status_led st)))] lpp1 = Inr lpp"
      unfolding lpp_ops_split by (auto simp: andthen_eq_Inr simp del: lpp_ops.simps)
    then show ?thesis by (simp add: add_queue_infomation_def assms(3) del: lpp_ops.simps)
  qed
  then show ?thesis using queue_report [OF lpp(2) assms(5), of env] lpp(3) len assms(6) by auto
qed

lemma add_queue_infomation_unscaled:
  assumes "scale32 (latitude (position st)) 10000 = Inl e
      \<or> (\<exists>lat. scale32 (latitude (position st)) 10000 = Inr lat) \<and> scale32 (longitude (position st)) 10000 = Inl e"
    and "length (heap_block env) = 51"
  shows "add_queue_infomation env st rows = Inl e"
proof -
  let ?node = "Node_ID (mac_string (sta_mac env))" and ?m = "mac_str2hex env"
  have "list_all2 (\<lambda>f bs. lpp_encode ?m f = Inr bs) [?node] [150 # mac_bytes (?m (mac_string (sta_mac env)))]"
    by simp
  from report_spec [OF this, of "heap_block env"] assms(2)
  obtain lpp where lpp: "lpp_ops ?m [?node] (CayenneLPP__create (heap_block env)) = Inr lpp" "lpp_wf 51 lpp"
      "payload lpp = 150 # mac_bytes (?m (mac_string (sta_mac env)))" by auto
  have "unat (lpp_cursor lpp) = 7" using lpp(2,3) by (auto simp: payload_def lpp_wf_def dest: arg_cong [of _ _ length])
  then have "CayenneLPP__addGPS lpp (latitude (position st)) (longitude (position st)) (Fin 0) = Inl e"
    using assms(1) lpp(2) by (auto simp: CayenneLPP__addGPS_def lpp_add_def lpp_wf_def)
  then have "lpp_ops ?m ([?node] @ [GPS (latitude (position st)) (longitude (position st)) (Fin 0)])
      (CayenneLPP__create (heap_block env)) = Inl e"
    unfolding lpp_ops_split using lpp(1) by simp
  then show ?thesis unfolding add_queue_infomation_def by (simp only: append.simps andthen_Inl)
qed


section \<open>The report of a position\<close>

text \<open>Asked for its position, a lamp north of the equator and east of Greenwich queues one
  message: the hexadecimal text of its id, the position within \<open>1/6000\<close> of a degree of the one
  the sentences gave, its mesh id and its channel. South or west of there the scaled value is
  negative and its conversion to \<open>unsigned long\<close> is undefined, so there is no report.\<close>

lemma position_report:
  assumes "near (latitude (position st)) v" and "near (longitude (position st)) u"
    and "1 / 1000 \<le> \<bar>v\<bar>" "\<bar>v\<bar> \<le> 181" "1 / 1000 \<le> \<bar>u\<bar>" "\<bar>u\<bar> \<le> 181"
    and "meshid (status_led st) = map int ds" "\<forall>d \<in> set ds. d < 10" "length ds \<le> 6"
    and "length rows = 6" "\<forall>r \<in> set rows. length r = 3"
    and "length (heap_block env) = 51" "ring_ok n (msgs st)" "pad env \<noteq> 0"
  shows "if 0 < v \<and> 0 < u
    then \<exists>st' lat lon. add_queue_infomation env st rows = Inr st'
      \<and> queued n st (print_bytes True (concat (position_bytes env st (digits_value 10 ds) lat lon))) st'
      \<and> unat lat < 2 ^ 24 \<and> \<bar>of_nat (unat lat) / 10000 - v\<bar> \<le> 1 / 6000
      \<and> unat lon < 2 ^ 24 \<and> \<bar>of_nat (unat lon) / 10000 - u\<bar> \<le> 1 / 6000
    else add_queue_infomation env st rows = Inl Float_Range"
proof -
  have pos: "\<exists>w. scale32 x 10000 = Inr w \<and> unat w < 2 ^ 24 \<and> \<bar>of_nat (unat w) / 10000 - z\<bar> \<le> 1 / 6000"
    if "near x z" "1 / 1000 \<le> \<bar>z\<bar>" "\<bar>z\<bar> \<le> 181" "0 < z" for x z
    by (rule scale_position [OF that(1)]) (use that(2-4) in auto)
  have neg: "scale32 x 10000 = Inl Float_Range"
    if "near x z" "1 / 1000 \<le> \<bar>z\<bar>" "\<bar>z\<bar> \<le> 181" "\<not> 0 < z" for x z
    using scale_negative [of x "- z"] that by auto
  note lat = pos [OF assms(1,3,4)] neg [OF assms(1,3,4)] and lon = pos [OF assms(2,5,6)] neg [OF assms(2,5,6)]
  have mesh: "array_to_num (meshid (status_led st)) rows = Inr (int (digits_value 10 ds))"
    unfolding assms(7) by (rule array_to_num_digits [OF assms(8-11)])
  show ?thesis
  proof (cases "0 < v \<and> 0 < u")
    case True
    obtain la lo where w: "scale32 (latitude (position st)) 10000 = Inr la" "unat la < 2 ^ 24"
        "\<bar>of_nat (unat la) / 10000 - v\<bar> \<le> 1 / 6000" "scale32 (longitude (position st)) 10000 = Inr lo"
        "unat lo < 2 ^ 24" "\<bar>of_nat (unat lo) / 10000 - u\<bar> \<le> 1 / 6000"
      using lat(1) lon(1) True by blast
    obtain st' where "add_queue_infomation env st rows = Inr st'"
        "queued n st (print_bytes True (concat (position_bytes env st (digits_value 10 ds) la lo))) st'"
      using add_queue_infomation_spec [OF w(1,4) mesh assms(12-14)] by blast
    with w True show ?thesis by metis
  next
    case False
    then have "scale32 (latitude (position st)) 10000 = Inl Float_Range
      \<or> (\<exists>w. scale32 (latitude (position st)) 10000 = Inr w) \<and> scale32 (longitude (position st)) 10000 = Inl Float_Range"
      using lat lon by blast
    from add_queue_infomation_unscaled [OF this assms(12)] False show ?thesis by simp
  qed
qed

end
