(* ===== verification/Lora_Keys.thy ===== *)
theory Lora_Keys
  imports Bluetooth Murata
begin

text \<open>
  The keys of the LoRaWAN network from the Bluetooth command to the modem: \<open>Bluetooth.c\<close> stores
  them with \<open>save_string\<close>, \<open>lora_init\<close> (\<open>murata_parser.c\<close>) loads them with \<open>get_string\<close>, keeps
  them for display and sends them, and \<open>app_main\<close> loads them again at the next start.
\<close>

section \<open>Strings in the flash\<close>

text \<open>\<open>strs s (ns, k)\<close> is the string under the key \<open>k\<close> of the namespace \<open>ns\<close>, \<open>space s h\<close> the
  namespace of an open handle. This is what the library documents of a flash without errors: a
  string is found as it was last set, if the buffer has room for it and its terminator;
  otherwise the error is neither \<open>ESP_OK\<close> nor "not found".\<close>

definition nvs_strings ::
  "'s nvs_api \<Rightarrow> ('s \<Rightarrow> string \<times> string \<Rightarrow> string option) \<Rightarrow> ('s \<Rightarrow> nat \<Rightarrow> string) \<Rightarrow> bool" where
  "nvs_strings lib strs space \<longleftrightarrow>
     (\<forall>s ns err h s'. nvs_open lib ns s = (err, h, s') \<longrightarrow>
        err = ESP_OK \<and> strs s' = strs s \<and> space s' h = ns) \<and>
     (\<forall>s h k v err s'. nvs_set_str lib h k v s = (err, s') \<longrightarrow>
        strs s' = (strs s) ((space s h, k) \<mapsto> v)) \<and>
     (\<forall>s h k len err v s'. nvs_get_str lib h k len s = (err, v, s') \<longrightarrow>
        strs s' = strs s \<and>
        (case strs s (space s h, k) of
           None \<Rightarrow> err = ESP_ERR_NVS_NOT_FOUND
         | Some t \<Rightarrow> if length t < len then err = ESP_OK \<and> v = t
                     else err \<notin> {ESP_OK, ESP_ERR_NVS_NOT_FOUND})) \<and>
     (\<forall>s h err s'. nvs_commit lib h s = (err, s') \<longrightarrow> strs s' = strs s) \<and>
     (\<forall>s h. strs (nvs_close lib h s) = strs s)"

lemma save_string_stored:
  assumes "nvs_strings lib strs space"
  shows "strs (save_string lib k v s) = (strs s) ((k, k) \<mapsto> v)"
proof -
  obtain e1 h s1 where o: "nvs_open lib k s = (e1, h, s1)" by (cases "nvs_open lib k s")
  obtain e2 s2 where w: "nvs_set_str lib h k v s1 = (e2, s2)" by fastforce
  obtain e3 s3 where c: "nvs_commit lib h s2 = (e3, s3)" by fastforce
  have "e1 = ESP_OK" "strs s1 = strs s" "space s1 h = k" "strs s2 = (strs s1) ((space s1 h, k) \<mapsto> v)"
    "strs s3 = strs s2" "strs (nvs_close lib h s3) = strs s3"
    using assms o w c unfolding nvs_strings_def by metis+
  then show ?thesis by (simp add: save_string_def o w c)
qed

lemma get_string_stored:
  assumes "nvs_strings lib strs space"
  shows "\<exists>s'. strs s' = strs s \<and> get_string lib k out len s =
    (case strs s (k, k) of
       None \<Rightarrow> (False, out, s')
     | Some t \<Rightarrow> if length t < len then (True, t, s') else (False, out, s'))"
proof -
  obtain e1 h s1 where o: "nvs_open lib k s = (e1, h, s1)" by (cases "nvs_open lib k s")
  obtain e2 v s2 where g: "nvs_get_str lib h k len s1 = (e2, v, s2)" by (cases "nvs_get_str lib h k len s1")
  have o1: "e1 = ESP_OK" "strs s1 = strs s" "space s1 h = k"
    using assms o unfolding nvs_strings_def by metis+
  have g1: "strs s2 = strs s1 \<and> (case strs s1 (space s1 h, k) of None \<Rightarrow> e2 = ESP_ERR_NVS_NOT_FOUND
      | Some t \<Rightarrow> if length t < len then e2 = ESP_OK \<and> v = t else e2 \<notin> {ESP_OK, ESP_ERR_NVS_NOT_FOUND})"
    using assms g unfolding nvs_strings_def by blast
  then show ?thesis using o1 by (intro exI [of _ s2])
      (auto simp: get_string_def o g split: option.splits esp_err.splits if_splits)
qed

lemma get_string_fits:
  assumes "nvs_strings lib strs space" "strs s (k, k) = Some t" "length t < len"
  obtains s' where "get_string lib k out len s = (True, t, s')" "strs s' = strs s"
  using get_string_stored [OF assms(1), of s k out len] assms(2,3) by auto

lemma get_string_too_long:
  assumes "nvs_strings lib strs space" "strs s (k, k) = Some t" "\<not> length t < len"
  obtains s' where "get_string lib k out len s = (False, out, s')" "strs s' = strs s"
  using get_string_stored [OF assms(1), of s k out len] assms(2,3) by auto

text \<open>The three keys in the flash.\<close>

definition keys_stored :: "('s \<Rightarrow> string \<times> string \<Rightarrow> string option) \<Rightarrow> string \<Rightarrow> string \<Rightarrow> string \<Rightarrow> 's \<Rightarrow> bool" where
  "keys_stored strs d n a s \<longleftrightarrow> strs s (''DEVADDR'', ''DEVADDR'') = Some d
     \<and> strs s (''NWKSKEY'', ''NWKSKEY'') = Some n \<and> strs s (''APPSKEY'', ''APPSKEY'') = Some a"

definition keys_fit :: "string \<Rightarrow> string \<Rightarrow> string \<Rightarrow> bool" where
  "keys_fit d n a \<longleftrightarrow> length d \<le> 11 \<and> length n \<le> 47 \<and> length a \<le> 47"

lemma boot_keys_stored:
  assumes laws: "nvs_strings lib strs space" and st: "keys_stored strs d n a s" and fit: "keys_fit d n a"
  shows "\<exists>s'. boot_keys lib s = (d, n, a, s')"
proof -
  obtain s1 where s1: "get_string lib ''DEVADDR'' [] 12 s = (True, d, s1)" "strs s1 = strs s"
    by (rule get_string_fits [OF laws, of s "''DEVADDR''" d 12 "[]"]) (use st fit in \<open>auto simp: keys_stored_def keys_fit_def\<close>)
  obtain s2 where s2: "get_string lib ''NWKSKEY'' [] 48 s1 = (True, n, s2)" "strs s2 = strs s1"
    by (rule get_string_fits [OF laws, of s1 "''NWKSKEY''" n 48 "[]"]) (use st fit s1 in \<open>auto simp: keys_stored_def keys_fit_def\<close>)
  obtain s3 where s3: "get_string lib ''APPSKEY'' [] 48 s2 = (True, a, s3)"
    by (rule get_string_fits [OF laws, of s2 "''APPSKEY''" a 48 "[]"]) (use st fit s1 s2 in \<open>auto simp: keys_stored_def keys_fit_def\<close>)
  show ?thesis by (simp add: boot_keys_def boot_key_def s1 s2 s3)
qed

lemma lora_keys_stored:
  assumes laws: "nvs_strings (api env) strs space" and st: "keys_stored strs d n a (flash st)"
    and nul: "NUL \<notin> set d" "NUL \<notin> set n" "NUL \<notin> set a"
  shows "if keys_fit d n a
    then \<exists>s'. strs s' = strs (flash st) \<and> lora_keys env st = Inr (call Lora_Init (st\<lparr>flash := s',
        print_devaddr := d, print_nwkskey := n, print_appskey := a\<rparr>))
    else lora_keys env st = Inl Uninit_Read"
proof -
  obtain s1 where s1: "strs s1 = strs (flash st)"
      "get_string (api env) ''DEVADDR'' [] 12 (flash st) = (if length d < 12 then (True, d, s1) else (False, [], s1))"
    using get_string_stored [OF laws, of "flash st" "''DEVADDR''" "[]" 12] st by (auto simp: keys_stored_def)
  obtain s2 where s2: "strs s2 = strs s1"
      "get_string (api env) ''NWKSKEY'' [] 48 s1 = (if length n < 48 then (True, n, s2) else (False, [], s2))"
    using get_string_stored [OF laws, of s1 "''NWKSKEY''" "[]" 48] st s1(1) by (auto simp: keys_stored_def)
  obtain s3 where s3: "strs s3 = strs s2"
      "get_string (api env) ''APPSKEY'' [] 48 s2 = (if length a < 48 then (True, a, s3) else (False, [], s3))"
    using get_string_stored [OF laws, of s2 "''APPSKEY''" "[]" 48] st s1(1) s2(1) by (auto simp: keys_stored_def)
  show ?thesis
  proof (cases "keys_fit d n a")
    case True
    then have len: "length d < 12" "length n < 48" "length a < 48" by (simp_all add: keys_fit_def)
    have room: "\<exists>b. strcpy_to (replicate 32 NUL) d = Inr b" "\<exists>b. strcpy_to (replicate 64 NUL) n = Inr b"
      "\<exists>b. strcpy_to (replicate 64 NUL) a = Inr b"
      using len nul by (simp_all add: strcpy_to_def Let_def)
    then obtain b1 b2 b3 where "strcpy_to (replicate 32 NUL) d = Inr b1" "strcpy_to (replicate 64 NUL) n = Inr b2"
        "strcpy_to (replicate 64 NUL) a = Inr b3" by blast
    then have "lora_keys env st = Inr (call Lora_Init (st\<lparr>flash := s3,
        print_devaddr := d, print_nwkskey := n, print_appskey := a\<rparr>))"
      using nul by (simp add: lora_keys_def s1(2) s2(2) s3(2) len del: replicate.simps)
    then show ?thesis using True s1(1) s2(1) s3(1) by auto
  next
    case False
    then have "\<not> (length d < 12 \<and> length n < 48 \<and> length a < 48)" by (auto simp: keys_fit_def)
    then have "lora_keys env st = Inl Uninit_Read" by (auto simp: lora_keys_def s1(2) s2(2) s3(2))
    with False show ?thesis by simp
  qed
qed


section \<open>Properties\<close>


text \<open>A flash library with strings that obeys the laws: an association of strings and the
  namespaces of its handles.\<close>

definition string_nvs :: "((string \<times> string \<Rightarrow> string option) \<times> string list) nvs_api" where
  "string_nvs = \<lparr>
     nvs_open = \<lambda>ns (m, hs). (ESP_OK, length hs, (m, hs @ [ns])),
     nvs_set_blob = \<lambda>h k v s. (ESP_OK, s),
     nvs_blob_size = \<lambda>h k s. (ESP_ERR_NVS_NOT_FOUND, 0, s),
     nvs_get_blob = \<lambda>h k sz s. (ESP_ERR_NVS_NOT_FOUND, default_profile, s),
     nvs_set_str = \<lambda>h k str (m, hs). (ESP_OK, (m((hs ! h, k) \<mapsto> str), hs)),
     nvs_get_str = \<lambda>h k len (m, hs). (case m (hs ! h, k) of
        None \<Rightarrow> (ESP_ERR_NVS_NOT_FOUND, [], (m, hs))
      | Some t \<Rightarrow> if length t < len then (ESP_OK, t, (m, hs)) else (ESP_FAIL, [], (m, hs))),
     nvs_commit = \<lambda>h s. (ESP_OK, s),
     nvs_close = \<lambda>h s. s\<rparr>"

lemma string_nvs_laws: "nvs_strings string_nvs fst (\<lambda>s h. snd s ! h)"
  unfolding nvs_strings_def string_nvs_def
  by (intro conjI) (auto simp: nth_append split: option.splits if_splits)

definition sample_keys_env :: "((string \<times> string \<Rightarrow> string option) \<times> string list) ble_env" where
  "sample_keys_env = env.extend sample_env
     \<lparr>json_parse = (\<lambda>_. None), json_get_ci = (\<lambda>js k. find (\<lambda>i. json_key i = k) js), api = string_nvs,
      children = [], num_rows = replicate 6 ''xyz''\<rparr>"


end
