(* ===== verification/Mesh_Nodes.thy ===== *)
theory Mesh_Nodes
  imports Lighting_Codec Startup
begin

text \<open>
  Who gets a message of the root, and what the system report lists (\<open>main/main.c\<close>): both ask the
  mesh for its routing table through a count of 8 bits. The two calls of the mesh library are
  parameters: the size of the table, and what a buffer of so many bytes receives of it.
\<close>

section \<open>The routing table\<close>

abbreviation (input) CONFIG_MWIFI_CAPACITY_NUM :: nat where "CONFIG_MWIFI_CAPACITY_NUM \<equiv> 256"

record 'a mesh_api =
  esp_mesh_get_routing_table_size :: nat
  esp_mesh_get_routing_table :: "nat \<Rightarrow> 'a list"

text \<open>The addresses a caller holds after \<open>uint8_t nodes_num = esp_mesh_get_routing_table_size ();\<close>
  and \<open>esp_mesh_get_routing_table (mac, nodes_num * 6, &size_node)\<close>.\<close>

definition mesh_nodes :: "'a mesh_api \<Rightarrow> 'a list" where
  "mesh_nodes api =
     (let nodes_num = of_nat (esp_mesh_get_routing_table_size api) :: u8
      in esp_mesh_get_routing_table api (unat nodes_num * 6))"

text \<open>What the library documents: the entries of the table, as many as fit.\<close>

definition routing_table :: "'a list \<Rightarrow> 'a mesh_api \<Rightarrow> bool" where
  "routing_table tbl api \<longleftrightarrow> esp_mesh_get_routing_table_size api = length tbl
     \<and> (\<forall>len. esp_mesh_get_routing_table api len = take (len div 6) tbl)"

section \<open>Users of the table\<close>

text \<open>\<open>root_write_msg\<close>: the addresses and the text given to \<open>mwifi_root_write\<close>.\<close>

definition root_multicast ::
  "'a mesh_api \<Rightarrow> lighting \<Rightarrow> string \<Rightarrow> fault + ('a list \<times> lighting)" where
  "root_multicast api st val = andthen (root_write_msg st val) (\<lambda>st1. Inr (mesh_nodes api, st1))"

text \<open>\<open>for (uint8_t n = 0; n < size_node; n++)\<close>; \<open>mac\<close> is what the block of \<open>6 * nodes_num\<close> bytes
  holds. \<open>None\<close> says that the loop does not end.\<close>

partial_function (option) list_nodes ::
  "'a list \<Rightarrow> nat \<Rightarrow> u8 \<Rightarrow> 'a list \<Rightarrow> (fault + 'a list) option" where
  "list_nodes mac size_node n printed =
     (if unat n < size_node
      then (if unat n < length mac then list_nodes mac size_node (n + 1) (printed @ [mac ! unat n])
            else Some (Inl Out_Of_Bounds))
      else Some (Inr printed))"

text \<open>\<open>print_system_info_timercb\<close>: the nodes it lists, and whether it restarts the lamp.\<close>

definition print_system_info_timercb :: "'a mesh_api \<Rightarrow> nat \<Rightarrow> (fault + ('a list \<times> bool)) option" where
  "print_system_info_timercb api free_heap =
     (let mac = mesh_nodes api in
      map_option (\<lambda>r. andthen r (\<lambda>printed. Inr (printed, low_memory_restart free_heap)))
        (list_nodes mac (length mac) 0 []))"

section \<open>Lemmas\<close>

lemma mesh_nodes_table: "routing_table tbl api \<Longrightarrow> mesh_nodes api = take (length tbl mod 256) tbl"
  by (simp add: mesh_nodes_def routing_table_def unat_of_nat Let_def)

lemma mesh_nodes_capacity:
  assumes "routing_table tbl api" "length tbl \<le> CONFIG_MWIFI_CAPACITY_NUM"
  shows "mesh_nodes api = (if length tbl = CONFIG_MWIFI_CAPACITY_NUM then [] else tbl)"
  using assms by (simp add: mesh_nodes_table)

lemma list_nodes_ends:
  assumes "length mac \<le> 255" "unat n \<le> length mac"
  shows "list_nodes mac (length mac) n printed = Some (Inr (printed @ drop (unat n) mac))"
  using assms(2)
proof (induction "length mac - unat n" arbitrary: n printed)
  case 0
  then show ?case by (subst list_nodes.simps) simp
next
  case (Suc x)
  then have lt: "unat n < length mac" by simp
  then have n1: "unat (n + 1) = Suc (unat n)" using unat_inc_small [of n] assms(1) by simp
  have "list_nodes mac (length mac) (n + 1) (printed @ [mac ! unat n])
      = Some (Inr ((printed @ [mac ! unat n]) @ drop (unat (n + 1)) mac))"
    by (rule Suc.hyps(1)) (use Suc.hyps(2) lt n1 in simp_all)
  then show ?case using lt n1 by (subst list_nodes.simps) (simp add: Cons_nth_drop_Suc)
qed

lemma info_lists_nodes:
  assumes "length (mesh_nodes api) \<le> 255"
  shows "print_system_info_timercb api free_heap
    = Some (Inr (mesh_nodes api, low_memory_restart free_heap))"
  using list_nodes_ends [OF assms, of 0 "[]"] by (simp add: print_system_info_timercb_def Let_def)

section \<open>Properties\<close>

text \<open>C25: In a mesh within its configured capacity, a message of the root goes to every node of the
  routing table and the system report, whose loop ends, lists just these nodes, as long as fewer
  than 256 are in the table; in a full mesh of 256 the count wraps to 0 and nobody gets it.\<close>

theorem full_mesh_unreached:
  assumes "routing_table tbl api" and "length tbl \<le> CONFIG_MWIFI_CAPACITY_NUM"
    and "root_write_msg st val = Inr st'"
  shows "let reached = (if length tbl = CONFIG_MWIFI_CAPACITY_NUM then [] else tbl)
    in root_multicast api st val = Inr (reached, st')
      \<and> print_system_info_timercb api free_heap = Some (Inr (reached, free_heap < 8000))"
proof -
  note nodes = mesh_nodes_capacity [OF assms(1,2)]
  have "length (mesh_nodes api) \<le> 255" using assms(2) by (simp add: nodes)
  from info_lists_nodes [OF this] show ?thesis
    using assms(3) by (simp add: nodes root_multicast_def low_memory_restart_def Let_def)
qed

theorem full_mesh_unreached_witness:
  "let api = \<lambda>tbl :: nat list. \<lparr>esp_mesh_get_routing_table_size = length tbl,
      esp_mesh_get_routing_table = \<lambda>len. take (len div 6) tbl\<rparr>
    in root_multicast (api [0..<255]) sample_lamp ''96'' = Inr ([0..<255], sample_lamp\<lparr>mesh_out := [''96'']\<rparr>)
      \<and> root_multicast (api [0..<256]) sample_lamp ''96'' = Inr ([], sample_lamp\<lparr>mesh_out := [''96'']\<rparr>)
      \<and> print_system_info_timercb (api [0..<256]) 7000 = Some (Inr ([], True))"
proof -
  define api where "api = (\<lambda>tbl :: nat list. \<lparr>esp_mesh_get_routing_table_size = length tbl,
      esp_mesh_get_routing_table = \<lambda>len. take (len div 6) tbl\<rparr>)"
  have table: "routing_table tbl (api tbl)" for tbl by (simp add: routing_table_def api_def)
  have run: "root_write_msg sample_lamp ''96'' = Inr (sample_lamp\<lparr>mesh_out := [''96'']\<rparr>)"
    by (simp add: root_write_msg_def sample_lamp_def)
  show ?thesis
    using full_mesh_unreached [OF table _ run, of "[0..<255]" 0] full_mesh_unreached [OF table _ run, of "[0..<256]" 7000]
    by (simp add: api_def [symmetric] Let_def del: upt.simps upt_rec)
qed

end
