(* ===== verification/Board.thy ===== *)
theory Board
  imports Led_Driver Startup
begin

text \<open>
  The wiring the components configure: the two serial ports (\<open>nmea_parser.h\<close>,
  \<open>murata_parser.h\<close>), the bus of the sensor (\<open>si_7006.c\<close>), the channels of the LEDs
  (\<open>led_driver.c\<close>), the input of the voltage (\<open>voltage.c\<close>) and the reset line of the modem
  (\<open>lora_rst\<close> in \<open>murata_parser.c\<close>).
\<close>

section \<open>Configurations\<close>

datatype uart_parity = UART_PARITY_DISABLE | UART_PARITY_EVEN | UART_PARITY_ODD

record uart_config =
  uart_port :: nat
  tx_pin :: nat
  rx_pin :: nat
  baud_rate :: nat
  data_bits :: nat
  parity :: uart_parity
  stop_bits :: nat
  event_queue_size :: nat

definition NMEA_PARSER_CONFIG_DEFAULT :: uart_config where
  "NMEA_PARSER_CONFIG_DEFAULT = \<lparr>uart_port = 2, tx_pin = 19, rx_pin = 18, baud_rate = 9600, data_bits = 8,
     parity = UART_PARITY_DISABLE, stop_bits = 1, event_queue_size = 16\<rparr>"

definition murata_PARSER_CONFIG_DEFAULT :: uart_config where
  "murata_PARSER_CONFIG_DEFAULT = \<lparr>uart_port = 1, tx_pin = 17, rx_pin = 16, baud_rate = 9600, data_bits = 8,
     parity = UART_PARITY_DISABLE, stop_bits = 1, event_queue_size = 16\<rparr>"

record i2c_config =
  i2c_port :: nat
  sda_io_num :: nat
  scl_io_num :: nat
  clk_speed :: nat

definition si7006_config :: i2c_config where
  "si7006_config = \<lparr>i2c_port = 0, sda_io_num = 21, scl_io_num = 22, clk_speed = 100000\<rparr>"

text \<open>\<open>init_voltage\<close>: \<open>pad\<close> is what \<open>adc2_pad_get_io_num\<close> finds for the channel, whose result is
  asserted before the attenuation is set.\<close>

datatype adc_call = Get_Io_Num nat | Assert_Failed | Config_Atten nat nat

abbreviation (input) READ_VOLTAGE :: nat where "READ_VOLTAGE \<equiv> 7"
abbreviation (input) ADC_ATTEN_DB_11 :: nat where "ADC_ATTEN_DB_11 \<equiv> 3"

definition init_voltage :: "(nat \<Rightarrow> nat option) \<Rightarrow> adc_call list" where
  "init_voltage pads =
     Get_Io_Num READ_VOLTAGE
       # (case pads READ_VOLTAGE of None \<Rightarrow> [Assert_Failed]
          | Some _ \<Rightarrow> [Config_Atten READ_VOLTAGE ADC_ATTEN_DB_11])"

section \<open>Pins\<close>

text \<open>A call that claims or drives a pin.\<close>

datatype pin_call =
    Uart_Set_Pin nat nat nat            \<comment> \<open>port, output, input\<close>
  | I2c_Param_Config nat nat nat        \<comment> \<open>port and two pins in both directions\<close>
  | Ledc_Channel_Config nat             \<comment> \<open>output\<close>
  | Gpio_Set_Direction nat              \<comment> \<open>output\<close>
  | Gpio_Set_Level nat bool
  | Task_Delay_Ms nat

definition uart_pins :: "uart_config \<Rightarrow> pin_call list" where
  "uart_pins c = [Uart_Set_Pin (uart_port c) (tx_pin c) (rx_pin c)]"

definition i2c_pins :: "i2c_config \<Rightarrow> pin_call list" where
  "i2c_pins c = [I2c_Param_Config (i2c_port c) (sda_io_num c) (scl_io_num c)]"

fun led_pins :: "ledc_call list \<Rightarrow> pin_call list" where
  "led_pins [] = []"
| "led_pins (Channel_Config ch duty pin # cs) = Ledc_Channel_Config pin # led_pins cs"
| "led_pins (_ # cs) = led_pins cs"

text \<open>The hardware reset in \<open>lora_rst\<close>, before its two commands.\<close>

definition lora_rst_pulse :: "pin_call list" where
  "lora_rst_pulse = [Gpio_Set_Level 5 False, Task_Delay_Ms 1000, Gpio_Set_Level 5 True]"

text \<open>The calls in the order of \<open>app_main\<close>.\<close>

definition board_setup :: "led_status \<Rightarrow> pin_call list" where
  "board_setup led = i2c_pins si7006_config @ uart_pins NMEA_PARSER_CONFIG_DEFAULT @ led_pins (init_led led)
     @ uart_pins murata_PARSER_CONFIG_DEFAULT @ lora_rst_pulse"

fun claimed :: "pin_call list \<Rightarrow> nat list" where
  "claimed [] = []"
| "claimed (Uart_Set_Pin port tx rx # cs) = tx # rx # claimed cs"
| "claimed (I2c_Param_Config port sda scl # cs) = sda # scl # claimed cs"
| "claimed (Ledc_Channel_Config pin # cs) = pin # claimed cs"
| "claimed (Gpio_Set_Direction pin # cs) = pin # claimed cs"
| "claimed (_ # cs) = claimed cs"

text \<open>A level is on the pin only if an earlier call made it an output.\<close>

fun driven :: "nat set \<Rightarrow> pin_call list \<Rightarrow> (nat \<times> bool) list" where
  "driven outs [] = []"
| "driven outs (Uart_Set_Pin port tx rx # cs) = driven (insert tx outs) cs"
| "driven outs (I2c_Param_Config port sda scl # cs) = driven (insert sda (insert scl outs)) cs"
| "driven outs (Ledc_Channel_Config pin # cs) = driven (insert pin outs) cs"
| "driven outs (Gpio_Set_Direction pin # cs) = driven (insert pin outs) cs"
| "driven outs (Gpio_Set_Level pin level # cs) =
     (if pin \<in> outs then (pin, level) # driven outs cs else driven outs cs)"
| "driven outs (Task_Delay_Ms ms # cs) = driven outs cs"

section \<open>What the wiring gives\<close>

lemma pins_of_board: "claimed (board_setup led) = [21, 22, 19, 18, 25, 26, 17, 16]"
  by (simp add: board_setup_def i2c_pins_def si7006_config_def uart_pins_def NMEA_PARSER_CONFIG_DEFAULT_def
      murata_PARSER_CONFIG_DEFAULT_def init_led_def lora_rst_pulse_def
      Set_Color_def Set_Brightness_def fade_def)

text \<open>No two components claim the same pin, and the two receivers are on different ports.\<close>

lemma pins_distinct:
  "distinct (claimed (board_setup led))"
  "uart_port NMEA_PARSER_CONFIG_DEFAULT \<noteq> uart_port murata_PARSER_CONFIG_DEFAULT"
  unfolding pins_of_board by (simp_all add: NMEA_PARSER_CONFIG_DEFAULT_def murata_PARSER_CONFIG_DEFAULT_def)

lemma driven_append_levels:
  "set (map fst (driven outs cs)) \<subseteq> outs \<union> set (claimed cs)"
  by (induction outs cs rule: driven.induct) auto

text \<open>The reset of the modem sets the level of a pin nobody made an output: no pulse is driven.
  Had the pin been an output first, the modem would see it low and then high.\<close>

lemma reset_not_driven: "5 \<notin> set (map fst (driven {} (board_setup led)))"
  using driven_append_levels [of "{}" "board_setup led"] pins_of_board by auto

lemma reset_if_output: "driven {} (Gpio_Set_Direction 5 # lora_rst_pulse) = [(5, False), (5, True)]"
  by (simp add: lora_rst_pulse_def)

end
