(* ===== verification/Mesh_Readers.thy ===== *)
theory Mesh_Readers
  imports Lighting_Downlink Lighting_Uplink Startup
begin

text \<open>
  The two tasks that read the mesh (\<open>root_read_task\<close> and \<open>node_read_task\<close> in
  \<open>main/main.c\<close>): their loops over everything the mesh may give them, and their life.
  \<open>event_loop_cb\<close> creates a pair of them at every connection to the parent, while a task
  created before ends only when it finds the mesh disconnected at the head of its loop, and
  all of them share the buffer \<open>data_form_node\<close>. The accesses to that buffer are separate
  steps of a step relation.
\<close>

section \<open>The loops\<close>

text \<open>What a read gives: an error, data of a firmware upgrade, or a message. The bytes are
  those stored into the block of \<open>len\<close> bytes (\<open>MWIFI_PAYLOAD_LEN\<close>) that was cleared before.\<close>

datatype mesh_recv = Recv_Failed | Recv_Upgrade string | Recv_Message string

datatype task_end = Reading | Deleted | Restarting

definition received_block :: "nat \<Rightarrow> string \<Rightarrow> string" where
  "received_block len data = data @ replicate (len - length data) NUL"

text \<open>A round is \<open>None\<close> when \<open>mwifi_is_connected\<close> says no. The results are how the task stands
  after the rounds, the data handed to \<open>mupgrade_root_handle\<close>, and the state; \<open>alloc\<close> says
  whether \<open>MDF_MALLOC\<close> gave a block, which nobody asks before \<open>memset\<close> writes into it.\<close>

fun root_read_task ::
  "env \<Rightarrow> bool \<Rightarrow> nat \<Rightarrow> mesh_recv option list \<Rightarrow> lighting \<Rightarrow> fault + (task_end \<times> string list \<times> lighting)" where
  "root_read_task env alloc len [] st = Inr (Reading, [], st)"
| "root_read_task env alloc len (None # rs) st = Inr (Deleted, [], st)"
| "root_read_task env alloc len (Some r # rs) st =
     (if \<not> alloc then Inl Bad_Pointer
      else case r of
        Recv_Failed \<Rightarrow> root_read_task env alloc len rs st
      | Recv_Upgrade data \<Rightarrow>
          andthen (root_read_task env alloc len rs st) (\<lambda>(e, upgrade, st'). Inr (e, data # upgrade, st'))
      | Recv_Message data \<Rightarrow>
          andthen (cstr (received_block len data)) (\<lambda>s.
          andthen (root_read env st s) (\<lambda>st1. root_read_task env alloc len rs st1)))"

fun node_read_task ::
  "bool \<Rightarrow> nat \<Rightarrow> mesh_recv option list \<Rightarrow> fault + (task_end \<times> string list)" where
  "node_read_task alloc len [] = Inr (Reading, [])"
| "node_read_task alloc len (None # rs) = Inr (Deleted, [])"
| "node_read_task alloc len (Some r # rs) =
     (if \<not> alloc then Inl Bad_Pointer
      else case r of
        Recv_Failed \<Rightarrow> node_read_task alloc len rs
      | Recv_Upgrade data \<Rightarrow> andthen (node_read_task alloc len rs) (\<lambda>(e, upgrade). Inr (e, data # upgrade))
      | Recv_Message data \<Rightarrow>
          (if snd (node_read False (upto_nul (received_block len data))) then Inr (Restarting, [])
           else node_read_task alloc len rs))"

text \<open>What a sequence of results holds.\<close>

fun messages_of :: "mesh_recv list \<Rightarrow> string list" where
  "messages_of [] = []"
| "messages_of (Recv_Message data # rs) = data # messages_of rs"
| "messages_of (_ # rs) = messages_of rs"

fun upgrades_of :: "mesh_recv list \<Rightarrow> string list" where
  "upgrades_of [] = []"
| "upgrades_of (Recv_Upgrade data # rs) = data # upgrades_of rs"
| "upgrades_of (_ # rs) = upgrades_of rs"

section \<open>One message after the other\<close>

fun root_reads :: "env \<Rightarrow> string list \<Rightarrow> lighting \<Rightarrow> fault + lighting" where
  "root_reads env [] st = Inr st"
| "root_reads env (s # ss) st = andthen (root_read env st s) (root_reads env ss)"

lemma root_reads_append:
  "root_reads env (ss @ ts) st = andthen (root_reads env ss st) (root_reads env ts)"
  by (induction ss arbitrary: st) (auto simp: andthen_def split: sum.splits)

lemma root_reads_snoc:
  "root_reads env (ss @ [s]) st = andthen (root_reads env ss st) (\<lambda>st1. root_read env st1 s)"
  by (auto simp: root_reads_append andthen_def split: sum.splits)

lemma received_block_cstr:
  "NUL \<notin> set data \<Longrightarrow> length data < len \<Longrightarrow> cstr (received_block len data) = Inr data"
  by (cases "len - length data") (simp_all add: received_block_def)

text \<open>Failed reads and upgrade data do not touch the state: the loop is the messages, one
  after the other.\<close>

lemma root_read_task_messages:
  assumes "\<forall>s \<in> set (messages_of rs). NUL \<notin> set s \<and> length s < len"
  shows "root_read_task env True len (map Some rs @ later) st =
    andthen (root_reads env (messages_of rs) st) (\<lambda>st1.
    andthen (root_read_task env True len later st1) (\<lambda>(e, upgrade, st'). Inr (e, upgrades_of rs @ upgrade, st')))"
  using assms
proof (induction rs arbitrary: st rule: messages_of.induct)
  case 1
  then show ?case by (simp add: andthen_def case_prod_unfold split: sum.splits)
next
  case (2 data rs)
  then show ?case by (cases "root_read env st data") (simp_all add: received_block_cstr)
qed (simp_all add: andthen_assoc case_prod_unfold)

lemma upto_nul_block: "NUL \<notin> set data \<Longrightarrow> upto_nul (received_block len data) = data"
  by (cases "len - length data") (simp_all add: received_block_def)

text \<open>The reader of a node does nothing until the message \<open>restart\<close> comes.\<close>

lemma node_read_task_waits:
  assumes "\<forall>s \<in> set (messages_of rs). NUL \<notin> set s \<and> s \<noteq> ''restart''"
  shows "node_read_task True len (map Some rs @ later) =
    andthen (node_read_task True len later) (\<lambda>(e, upgrade). Inr (e, upgrades_of rs @ upgrade))"
  using assms
  by (induction rs rule: messages_of.induct)
    (simp_all add: upto_nul_block node_read_def andthen_def case_prod_unfold split: sum.splits)

lemma node_read_task_restarts:
  "node_read_task True len (Some (Recv_Message ''restart'') # rs) = Inr (Restarting, [])"
  by (simp add: upto_nul_block node_read_def)

text \<open>The state the reader relies on: \<open>prev\<close> is the lamp of the last report.\<close>

definition reader_ok :: "nat \<Rightarrow> string \<Rightarrow> lighting \<Rightarrow> bool" where
  "reader_ok n prev st \<longleftrightarrow> length (data_form_node st) = 128 \<and> ring_ok n (msgs st)
     \<and> cstr (node_id_compare st) = Inr prev \<and> 12 < length (node_id_compare st)"

definition short_report :: "env \<Rightarrow> string \<Rightarrow> string \<Rightarrow> bool" where
  "short_report env nid msg \<longleftrightarrow> report_of env nid msg \<and> NUL \<notin> set msg \<and> length msg < 127"

lemma node_report_ok:
  assumes "reader_ok n prev st" "short_report env nid msg"
  shows "\<exists>st'. add_queue_lpp_node env st msg = Inr st' \<and> reader_ok n nid st'
    \<and> queue_items (msgs st') = queue_items (msgs st)
        @ (if nid \<noteq> prev \<and> length (queue_items (msgs st)) < n then [msg] else [])"
proof -
  have clip: "clip_msg msg = msg" using assms(2) by (intro clip_id) (simp_all add: short_report_def)
  have step: "report_of env nid msg" "cstr (node_id_compare st) = Inr prev" "ring_ok n (msgs st)"
      "length (data_form_node st) = 128" "12 < length (node_id_compare st)"
    using assms by (simp_all add: reader_ok_def short_report_def)
  show ?thesis
  proof (cases "nid = prev")
    case True
    then show ?thesis using node_report_step [OF step(1-3)] step by (simp add: reader_ok_def)
  next
    case False
    then obtain q buf where "add_queue_lpp_node env st msg
          = Inr (st\<lparr>retry_count := 0, node_id_compare := buf, msgs := q\<rparr>)"
        "cstr buf = Inr nid" "length buf = length (node_id_compare st)" "ring_ok n q"
        "queue_items q = (if length (queue_items (msgs st)) < n then queue_items (msgs st) @ [clip_msg msg]
                        else queue_items (msgs st))"
      using node_report_step [OF step(1-3)] step(5) by auto
    then show ?thesis using step False clip by (simp add: reader_ok_def)
  qed
qed

lemma root_read_report:
  assumes ok: "reader_ok n prev st" and rep: "short_report env nid msg"
  shows "\<exists>st'. root_read env st msg = Inr st' \<and> reader_ok n nid st'
    \<and> queue_items (msgs st') = queue_items (msgs st)
        @ (if nid \<noteq> prev \<and> length (queue_items (msgs st)) < n then [msg] else [])"
proof -
  let ?st = "st\<lparr>data_form_node := msg @ NUL # drop (Suc (length msg)) (data_form_node st)\<rparr>"
  note ok' = ok [unfolded reader_ok_def] and rep' = rep [unfolded short_report_def]
  have "reader_ok n prev ?st" using ok' rep' by (simp add: reader_ok_def)
  then obtain st1 where "add_queue_lpp_node env ?st msg = Inr st1" "reader_ok n nid st1"
      "queue_items (msgs st1) = queue_items (msgs st)
        @ (if nid \<noteq> prev \<and> length (queue_items (msgs st)) < n then [msg] else [])"
    using node_report_ok [OF _ rep, of n prev ?st] by auto
  then show ?thesis using mesh_message_read [of st msg env] ok' rep' by (simp add: reader_ok_def)
qed

lemma root_reads_reports:
  assumes "reader_ok n prev st" "\<forall>(nid, msg) \<in> set reps. short_report env nid msg"
    "length (queue_items (msgs st)) + length (fresh_reports prev reps) \<le> n"
  shows "\<exists>st' prev'. root_reads env (map snd reps) st = Inr st' \<and> reader_ok n prev' st'
    \<and> queue_items (msgs st') = queue_items (msgs st) @ fresh_reports prev reps"
  using assms
proof (induction prev reps arbitrary: st rule: fresh_reports.induct)
  case (1 prev)
  then show ?case by auto
next
  case (2 prev nid msg reps)
  obtain st1 where st1: "root_read env st msg = Inr st1" "reader_ok n nid st1"
      "queue_items (msgs st1) = queue_items (msgs st)
        @ (if nid \<noteq> prev \<and> length (queue_items (msgs st)) < n then [msg] else [])"
    using root_read_report [OF "2.prems"(1), of env nid msg] "2.prems"(2) by auto
  show ?case
  proof (cases "nid = prev")
    case True
    then show ?thesis using "2.IH"(1) [OF True, of st1] "2.prems" st1 by simp
  next
    case False
    then show ?thesis using "2.IH"(2) [OF False, of st1] "2.prems" st1 by simp
  qed
qed

text \<open>The whole loop, as the reference.\<close>

lemma root_reader_queues:
  assumes "reader_ok n prev st" and "messages_of rs = map snd reps"
    and "\<forall>(nid, msg) \<in> set reps. short_report env nid msg" and "127 \<le> len"
    and "length (queue_items (msgs st)) + length (fresh_reports prev reps) \<le> n"
  shows "\<exists>st'. root_read_task env True len (map Some rs) st = Inr (Reading, upgrades_of rs, st')
    \<and> root_read_task env True len (map Some rs @ [None]) st = Inr (Deleted, upgrades_of rs, st')
    \<and> ring_ok n (msgs st') \<and> queue_items (msgs st') = queue_items (msgs st) @ fresh_reports prev reps"
proof -
  have plain: "\<forall>s \<in> set (messages_of rs). NUL \<notin> set s \<and> length s < len"
    using assms(2-4) by (fastforce simp: short_report_def)
  show ?thesis
    using root_reads_reports [OF assms(1,3,5)] root_read_task_messages [OF plain, of env "[]" st]
      root_read_task_messages [OF plain, of env "[None]" st] assms(2) by (auto simp: reader_ok_def)
qed

lemma fresh_subset: "set (fresh_reports prev reps) \<subseteq> snd ` set reps"
  by (induction prev reps rule: fresh_reports.induct) auto

section \<open>Readers and connections\<close>

text \<open>The three accesses to \<open>data_form_node\<close>, between which another reader may run.\<close>

datatype reader_stmt = Copy string | Add | Clear

fun do_stmt :: "env \<Rightarrow> reader_stmt \<Rightarrow> lighting \<Rightarrow> fault + lighting" where
  "do_stmt env (Copy data) st =
     andthen (strcpy_to (data_form_node st) data) (\<lambda>buf. Inr (st\<lparr>data_form_node := buf\<rparr>))"
| "do_stmt env Add st = andthen (cstr (data_form_node st)) (add_queue_lpp_node env st)"
| "do_stmt env Clear st =
     andthen (clear_loop (data_form_node st) 0 2) (\<lambda>buf. Inr (st\<lparr>data_form_node := buf\<rparr>))"

text \<open>One reader by itself does what \<open>root_read\<close> says.\<close>

lemma root_read_stmts:
  "root_read env st data =
    andthen (do_stmt env (Copy data) st) (\<lambda>s1. andthen (do_stmt env Add s1) (do_stmt env Clear))"
  by (auto simp: root_read_def andthen_def split: sum.splits)

declare do_stmt.simps [simp del]

datatype reader_phase = Checking | Blocked | Holding string | Copied | Added

record readers =
  linked :: bool
  tasks :: "reader_phase list"
  connects :: nat
  arrived :: "string list"      \<comment> \<open>the messages read, in order; for the statements only\<close>
  shared :: lighting

definition no_readers :: "lighting \<Rightarrow> readers" where
  "no_readers st = \<lparr>linked = False, tasks = [], connects = 0, arrived = [], shared = st\<rparr>"

text \<open>The root readers a connection creates; they start at the head of the loop.\<close>

definition new_readers :: "reader_phase list" where
  "new_readers = map (\<lambda>_. Checking)
     (filter (\<lambda>t. t = Root_Read_Task) (event_loop_cb MDF_EVENT_MWIFI_PARENT_CONNECTED))"

inductive reader_step :: "env \<Rightarrow> readers \<Rightarrow> readers \<Rightarrow> bool" for env where
  connect: "\<not> linked s \<Longrightarrow>
    reader_step env s (s\<lparr>linked := True, tasks := tasks s @ new_readers, connects := connects s + 1\<rparr>)"
| disconnect: "linked s \<Longrightarrow> reader_step env s (s\<lparr>linked := False\<rparr>)"
| check: "i < length (tasks s) \<Longrightarrow> tasks s ! i = Checking \<Longrightarrow> linked s \<Longrightarrow>
    reader_step env s (s\<lparr>tasks := (tasks s)[i := Blocked]\<rparr>)"
| leave: "i < length (tasks s) \<Longrightarrow> tasks s ! i = Checking \<Longrightarrow> \<not> linked s \<Longrightarrow>
    reader_step env s (s\<lparr>tasks := take i (tasks s) @ drop (Suc i) (tasks s)\<rparr>)"
| skip: "i < length (tasks s) \<Longrightarrow> tasks s ! i = Blocked \<Longrightarrow>      \<comment> \<open>an error, or upgrade data\<close>
    reader_step env s (s\<lparr>tasks := (tasks s)[i := Checking]\<rparr>)"
| receive: "i < length (tasks s) \<Longrightarrow> tasks s ! i = Blocked \<Longrightarrow>
    reader_step env s (s\<lparr>tasks := (tasks s)[i := Holding data], arrived := arrived s @ [data]\<rparr>)"
| copy: "i < length (tasks s) \<Longrightarrow> tasks s ! i = Holding data \<Longrightarrow>
    do_stmt env (Copy data) (shared s) = Inr st \<Longrightarrow>
    reader_step env s (s\<lparr>tasks := (tasks s)[i := Copied], shared := st\<rparr>)"
| add: "i < length (tasks s) \<Longrightarrow> tasks s ! i = Copied \<Longrightarrow> do_stmt env Add (shared s) = Inr st \<Longrightarrow>
    reader_step env s (s\<lparr>tasks := (tasks s)[i := Added], shared := st\<rparr>)"
| clear: "i < length (tasks s) \<Longrightarrow> tasks s ! i = Added \<Longrightarrow> do_stmt env Clear (shared s) = Inr st \<Longrightarrow>
    reader_step env s (s\<lparr>tasks := (tasks s)[i := Checking], shared := st\<rparr>)"

inductive_cases reader_stepE: "reader_step env s s'"

definition reader_reachable :: "env \<Rightarrow> lighting \<Rightarrow> readers \<Rightarrow> bool" where
  "reader_reachable env st s \<longleftrightarrow> (reader_step env)\<^sup>*\<^sup>* (no_readers st) s"

lemma reachable_step: "reader_reachable env st s \<Longrightarrow> reader_step env s s' \<Longrightarrow> reader_reachable env st s'"
  by (simp add: reader_reachable_def)

lemma reader_reachable_induct [consumes 1, case_names start step]:
  assumes "reader_reachable env st s" "P (no_readers st)"
    and "\<And>s s'. reader_reachable env st s \<Longrightarrow> P s \<Longrightarrow> reader_step env s s' \<Longrightarrow> P s'"
  shows "P s"
  using assms(1) unfolding reader_reachable_def
  by (induction rule: rtranclp_induct) (use assms(2,3) in \<open>auto simp: reader_reachable_def\<close>)

lemma new_readers [simp]: "new_readers = [Checking]"
  by (simp add: new_readers_def event_loop_cb_def)

text \<open>No more readers than connections.\<close>

lemma readers_bounded: "reader_reachable env st s \<Longrightarrow> length (tasks s) \<le> connects s"
  by (induction rule: reader_reachable_induct) (auto simp: no_readers_def elim!: reader_stepE)

text \<open>What a single reader has done so far, by its place.\<close>

fun phase_inv :: "env \<Rightarrow> lighting \<Rightarrow> reader_phase \<Rightarrow> string list \<Rightarrow> lighting \<Rightarrow> bool" where
  "phase_inv env st (Holding data) ds l \<longleftrightarrow> (\<exists>es. ds = es @ [data] \<and> root_reads env es st = Inr l)"
| "phase_inv env st Copied ds l \<longleftrightarrow> (\<exists>es data k. ds = es @ [data] \<and> root_reads env es st = Inr k
     \<and> do_stmt env (Copy data) k = Inr l)"
| "phase_inv env st Added ds l \<longleftrightarrow> (\<exists>es data k m. ds = es @ [data] \<and> root_reads env es st = Inr k
     \<and> do_stmt env (Copy data) k = Inr m \<and> do_stmt env Add m = Inr l)"
| "phase_inv env st p ds l \<longleftrightarrow> root_reads env ds st = Inr l"

definition single_inv :: "env \<Rightarrow> lighting \<Rightarrow> readers \<Rightarrow> bool" where
  "single_inv env st s \<longleftrightarrow> length (tasks s) \<le> connects s \<and> (connects s \<le> 1 \<longrightarrow>
     (case tasks s of [] \<Rightarrow> root_reads env (arrived s) st = Inr (shared s)
      | p # _ \<Rightarrow> phase_inv env st p (arrived s) (shared s)))"

lemma single_inv_step:
  assumes "single_inv env st s" "reader_step env s s'"
  shows "single_inv env st s'"
proof (cases "connects s' \<le> 1")
  case False
  then show ?thesis using assms by (auto simp: single_inv_def elim!: reader_stepE)
next
  case True
  have "length (tasks s) \<le> 1" using True assms by (auto simp: single_inv_def elim!: reader_stepE)
  then consider "tasks s = []" | p where "tasks s = [p]" by (cases "tasks s") auto
  then show ?thesis
  proof cases
    case 1
    then show ?thesis using assms True by (auto simp: single_inv_def elim!: reader_stepE)
  next
    case 2
    then have "connects s = 1" "connects s' = 1" "phase_inv env st p (arrived s) (shared s)"
      using assms True by (auto simp: single_inv_def elim!: reader_stepE)
    with 2 assms(2) show ?thesis
      by (auto simp: single_inv_def root_reads_snoc root_read_stmts elim!: reader_stepE)
  qed
qed

text \<open>Without disturbance, \<open>n\<close> connections leave \<open>n\<close> readers waiting in their reads.\<close>

definition waiting :: "bool \<Rightarrow> nat \<Rightarrow> lighting \<Rightarrow> readers" where
  "waiting up n st = \<lparr>linked = up, tasks = replicate n Blocked, connects = n, arrived = [], shared = st\<rparr>"

lemma waiting_again:
  assumes "reader_reachable env st (waiting False n st)"
  shows "reader_reachable env st (waiting True (Suc n) st)"
proof -
  let ?w = "waiting False n st"
  let ?c = "?w\<lparr>linked := True, tasks := tasks ?w @ new_readers, connects := connects ?w + 1\<rparr>"
  have "reader_reachable env st ?c" by (rule reachable_step [OF assms connect]) (simp add: waiting_def)
  then have "reader_reachable env st (?c\<lparr>tasks := (tasks ?c)[n := Blocked]\<rparr>)"
    by (rule reachable_step [OF _ check]) (simp_all add: waiting_def nth_append)
  moreover have "?c\<lparr>tasks := (tasks ?c)[n := Blocked]\<rparr> = waiting True (Suc n) st"
    by (simp add: waiting_def list_update_append replicate_append_same)
  ultimately show ?thesis by simp
qed

lemma waiting_reachable: "reader_reachable env st (waiting False n st)"
proof (induction n)
  case 0
  show ?case by (simp add: waiting_def reader_reachable_def no_readers_def)
next
  case (Suc n)
  have "reader_step env (waiting True (Suc n) st) (waiting True (Suc n) st\<lparr>linked := False\<rparr>)"
    by (rule disconnect) (simp add: waiting_def)
  from reachable_step [OF waiting_again [OF Suc] this] show ?case by (simp add: waiting_def)
qed

text \<open>Two readers that copy before either handles its message: the second message is handled
  by the first reader, and the second reader finds the buffer cleared.\<close>

lemma buffer_overwritten:
  assumes ok: "reader_ok n prev st" and msg1: "NUL \<notin> set msg1" "length msg1 < 128"
    and rep: "short_report env nid msg2" and fresh: "nid \<noteq> prev" "length (queue_items (msgs st)) < n"
  obtains s1 s2 s3 s4 where
    "do_stmt env (Copy msg1) st = Inr s1" "do_stmt env (Copy msg2) s1 = Inr s2"
    "do_stmt env Add s2 = Inr s3" "do_stmt env Clear s3 = Inr s4"
    "do_stmt env Add s4 = Inr s4" "do_stmt env Clear s4 = Inr s4"
    "queue_items (msgs s4) = queue_items (msgs st) @ [msg2]"
proof -
  note ok' = ok [unfolded reader_ok_def] and rep' = rep [unfolded short_report_def]
  let ?b1 = "msg1 @ NUL # drop (Suc (length msg1)) (data_form_node st)"
  let ?b2 = "msg2 @ NUL # drop (Suc (length msg2)) ?b1"
  let ?s1 = "st\<lparr>data_form_node := ?b1\<rparr>" and ?s2 = "st\<lparr>data_form_node := ?b2\<rparr>"
  have copies: "do_stmt env (Copy msg1) st = Inr ?s1" "do_stmt env (Copy msg2) ?s1 = Inr ?s2"
    using ok' msg1 rep' by (simp_all add: do_stmt.simps strcpy_to_def Let_def)
  have len: "length (m @ NUL # drop (Suc (length m)) b) = 128" if "length b = 128" "length m < 128" for m b :: string
    using that by simp
  have "length ?b2 = 128" by (intro len) (use ok' msg1 rep' in simp_all)
  then have "reader_ok n prev ?s2" using ok' by (simp add: reader_ok_def)
  from node_report_ok [OF this rep] obtain s3 where s3: "add_queue_lpp_node env ?s2 msg2 = Inr s3"
      "queue_items (msgs s3) = queue_items (msgs st) @ [msg2]"
    using fresh by auto
  let ?s4 = "s3\<lparr>data_form_node := (data_form_node s3)[0 := NUL]\<rparr>"
  have buf: "data_form_node s3 = ?b2" using node_keeps_buffer [OF s3(1)] by simp
  then obtain d where d: "(data_form_node s3)[0 := NUL] = NUL # d" by (cases msg2) simp_all
  have add: "do_stmt env Add ?s2 = Inr s3" using s3(1) rep' by (simp add: do_stmt.simps)
  have clear: "do_stmt env Clear s3 = Inr ?s4"
    using clear_loop_ends [of "data_form_node s3" 0] buf by (simp add: do_stmt.simps numeral_2_eq_2)
  have "cstr (NUL # d) = Inr ''''" by (simp add: cstr_def upto_nul_Cons)
  then have "do_stmt env Add ?s4 = Inr ?s4" "do_stmt env Clear ?s4 = Inr ?s4"
    by (simp_all add: do_stmt.simps d add_queue_lpp_node_def numeral_2_eq_2)
  then show ?thesis using that [OF copies add clear] s3(2) by simp
qed

lemma two_readers_run:
  assumes "do_stmt env (Copy msg1) st = Inr s1" "do_stmt env (Copy msg2) s1 = Inr s2"
    "do_stmt env Add s2 = Inr s3" "do_stmt env Clear s3 = Inr s4"
    "do_stmt env Add s4 = Inr s5" "do_stmt env Clear s5 = Inr s6"
  shows "reader_reachable env st \<lparr>linked = True, tasks = [Checking, Checking], connects = 2,
    arrived = [msg1, msg2], shared = s6\<rparr>"
proof -
  let ?S = "\<lambda>ps ds l. \<lparr>linked = True, tasks = ps, connects = 2, arrived = ds, shared = l\<rparr>"
  have receive: "reader_reachable env st (?S (ps[i := Holding d]) (ds @ [d]) l)"
    if "reader_reachable env st (?S ps ds l)" "i < length ps" "ps ! i = Blocked" for i d ps ds l
    using reachable_step [OF that(1) receive [of i _ env d]] that(2,3) by simp
  have work: "reader_reachable env st (?S (ps[i := q]) ds l')"
    if "reader_reachable env st (?S ps ds l)" "i < length ps" "do_stmt env c l = Inr l'"
      "(ps ! i, c, q) \<in> {(Holding msg1, Copy msg1, Copied), (Holding msg2, Copy msg2, Copied),
        (Copied, Add, Added), (Added, Clear, Checking)}" for i c q ps ds l l'
    using that(2-4) reachable_step [OF that(1) copy [of i]] reachable_step [OF that(1) add [of i]]
      reachable_step [OF that(1) clear [of i]] by auto
  have "reader_reachable env st (?S [Blocked, Blocked] [] st)"
    using waiting_again [OF waiting_reachable, of env st 1] by (simp add: waiting_def numeral_2_eq_2)
  from receive [OF receive [OF this, where i = 0 and d = msg1], where i = 1 and d = msg2]
  have "reader_reachable env st (?S [Holding msg1, Holding msg2] [msg1, msg2] st)" by simp
  from work [OF work [OF this _ assms(1), where i = 0] _ assms(2), where i = 1]
  have "reader_reachable env st (?S [Copied, Copied] [msg1, msg2] s2)" by simp
  from work [OF work [OF this _ assms(3), where i = 0] _ assms(4), where i = 0]
  have "reader_reachable env st (?S [Checking, Copied] [msg1, msg2] s4)" by simp
  from work [OF work [OF this _ assms(5), where i = 1] _ assms(6), where i = 1]
  show ?thesis by simp
qed

text \<open>There are never more readers than connections; and each connection may leave one more
  behind, for every number: all of them are then waiting in their reads, each with its block
  and its stack.\<close>

lemma readers_accumulate:
  "reader_reachable env st s \<Longrightarrow> length (tasks s) \<le> connects s"
  "\<exists>s. reader_reachable env st s \<and> linked s \<and> connects s = Suc n \<and> tasks s = replicate (Suc n) Blocked"
proof -
  show "reader_reachable env st s \<Longrightarrow> length (tasks s) \<le> connects s" by (rule readers_bounded)
  show "\<exists>s. reader_reachable env st s \<and> linked s \<and> connects s = Suc n \<and> tasks s = replicate (Suc n) Blocked"
    by (rule exI [of _ "waiting True (Suc n) st"])
      (simp add: waiting_again [OF waiting_reachable], simp add: waiting_def)
qed

section \<open>Properties\<close>


lemma sample_short:
  "short_report sample_env ''010101010101'' ''960101010101016F32''"
  "short_report sample_env ''010101010101'' ''960101010101016F33''"
  "short_report sample_env ''020202020202'' ''960202020202026F34''"
proof -
  let ?a = "[1, 1, 1, 1, 1, 1] :: u8 list" and ?b = "[2, 2, 2, 2, 2, 2] :: u8 list"
  have hex: "print_bytes True (items_bytes [D_Nodeid ?a, D_Brightness 50]) = ''960101010101016F32''"
    "print_bytes True (items_bytes [D_Nodeid ?a, D_Brightness 51]) = ''960101010101016F33''"
    "print_bytes True (items_bytes [D_Nodeid ?b, D_Brightness 52]) = ''960202020202026F34''"
    "print_bytes False ?a = ''010101010101''" "print_bytes False ?b = ''020202020202''"
    by code_simp+
  show "short_report sample_env ''010101010101'' ''960101010101016F32''"
    "short_report sample_env ''010101010101'' ''960101010101016F33''"
    "short_report sample_env ''020202020202'' ''960202020202026F34''"
    using sample_report [of ?a 50, unfolded hex] sample_report [of ?a 51, unfolded hex]
      sample_report [of ?b 52, unfolded hex] by (simp_all add: short_report_def)
qed

lemma sample_reader: "reader_ok 32 '''' sample_lamp"
  using sample_ring by (simp add: reader_ok_def) (simp add: sample_lamp_def)






end
