(* ===== verification/Setup_Paths.thy ===== *)
theory Setup_Paths
  imports Board Uart_Lifecycle Si7021
begin

text \<open>
  The set-up calls of \<open>app_main\<close> that can fail or leave something behind: the flash
  (\<open>app_main\<close> against \<open>wifi_init\<close> in \<open>main/main.c\<close>), the handlers of the two parsers and the
  start of the modem (\<open>init_LoraWAN\<close> in \<open>murata_parser.c\<close>), the sensor (\<open>init_si7006\<close>), and the
  priorities of the tasks.
\<close>

section \<open>Flash\<close>

datatype flash_result =
    FLASH_OK | ESP_ERR_NVS_NO_FREE_PAGES | ESP_ERR_NVS_NEW_VERSION_FOUND | FLASH_OTHER

text \<open>The first part of \<open>app_main\<close>, with the results of the two initialisations and of the
  erasure; whether \<open>app_main\<close> goes on, and the calls.\<close>

definition flash_start :: "flash_result \<Rightarrow> bool \<Rightarrow> flash_result \<Rightarrow> bool \<times> wifi_step list" where
  "flash_start res1 erased res2 =
     (if res1 = ESP_ERR_NVS_NO_FREE_PAGES then
        (if \<not> erased then (False, [Nvs_Flash_Init, Nvs_Flash_Erase, Abort])
         else if res2 = FLASH_OK then (True, [Nvs_Flash_Init, Nvs_Flash_Erase, Nvs_Flash_Init])
         else (False, [Nvs_Flash_Init, Nvs_Flash_Erase, Nvs_Flash_Init, Abort]))
      else if res1 = FLASH_OK then (True, [Nvs_Flash_Init])
      else (False, [Nvs_Flash_Init, Abort]))"

text \<open>The same test as \<open>wifi_init\<close> makes it, which also erases a flash of another version.\<close>

definition wifi_init_erases :: "flash_result \<Rightarrow> bool" where
  "wifi_init_erases ret \<longleftrightarrow> ret = ESP_ERR_NVS_NO_FREE_PAGES \<or> ret = ESP_ERR_NVS_NEW_VERSION_FOUND"

text \<open>What a start does to the flash: \<open>flash_start\<close>, then \<open>wifi_init\<close> on the result \<open>res3\<close>.\<close>

definition start_on_flash ::
  "flash_result \<Rightarrow> bool \<Rightarrow> flash_result \<Rightarrow> flash_result \<Rightarrow> bool \<Rightarrow> (wifi_step \<Rightarrow> bool) \<Rightarrow> wifi_step list" where
  "start_on_flash res1 erased res2 res3 again ok =
     (case flash_start res1 erased res2 of (up, calls) \<Rightarrow>
      if up then calls @ wifi_init (wifi_init_erases res3) again
                           (\<lambda>c. if c = Nvs_Flash_Init then res3 = FLASH_OK else ok c)
      else calls)"

lemma flash_start_up:
  "fst (flash_start res1 erased res2) \<longleftrightarrow>
    res1 = FLASH_OK \<or> res1 = ESP_ERR_NVS_NO_FREE_PAGES \<and> erased \<and> res2 = FLASH_OK"
  by (simp add: flash_start_def)

text \<open>A flash written by another version of the library stops the chip in \<open>app_main\<close> although
  \<open>wifi_init\<close> would erase it: it is not erased, so the next start ends in the same place.\<close>

lemma new_version_never_starts:
  "start_on_flash ESP_ERR_NVS_NEW_VERSION_FOUND erased res2 res3 again ok = [Nvs_Flash_Init, Abort]"
  "wifi_init_erases ESP_ERR_NVS_NEW_VERSION_FOUND"
  by (simp_all add: start_on_flash_def flash_start_def wifi_init_erases_def)

lemma erased_only_when_full:
  "Nvs_Flash_Erase \<in> set (snd (flash_start res1 erased res2)) \<longleftrightarrow> res1 = ESP_ERR_NVS_NO_FREE_PAGES"
  by (simp add: flash_start_def)

section \<open>Handlers of the parsers\<close>

text \<open>A parser is the list of the handlers of its event loop; the handle is \<open>None\<close> for the
  NULL a failed set-up returns, which the functions do not look at.\<close>

fun murata_parser_add_handler :: "'h list option \<Rightarrow> 'h \<Rightarrow> fault + 'h list option" where
  "murata_parser_add_handler None h = Inl Bad_Pointer"
| "murata_parser_add_handler (Some hs) h = Inr (Some (hs @ [h]))"

fun murata_parser_remove_handler :: "'h list option \<Rightarrow> 'h \<Rightarrow> fault + 'h list option" where
  "murata_parser_remove_handler None h = Inl Bad_Pointer"
| "murata_parser_remove_handler (Some hs) h = Inr (Some (removeAll h hs))"

fun nmea_parser_add_handler :: "'h list option \<Rightarrow> 'h \<Rightarrow> fault + 'h list option" where
  "nmea_parser_add_handler None h = Inl Bad_Pointer"
| "nmea_parser_add_handler (Some hs) h = Inr (Some (hs @ [h]))"

fun nmea_parser_remove_handler :: "'h list option \<Rightarrow> 'h \<Rightarrow> fault + 'h list option" where
  "nmea_parser_remove_handler None h = Inl Bad_Pointer"
| "nmea_parser_remove_handler (Some hs) h = Inr (Some (removeAll h hs))"

lemma handler_added_removed:
  "h \<notin> set hs \<Longrightarrow>
    andthen (murata_parser_add_handler (Some hs) h) (\<lambda>p. murata_parser_remove_handler p h) = Inr (Some hs)"
  "h \<notin> set hs \<Longrightarrow>
    andthen (nmea_parser_add_handler (Some hs) h) (\<lambda>p. nmea_parser_remove_handler p h) = Inr (Some hs)"
  by simp_all

datatype lora_call =
    Parser_Call res_call | Create_Event_Group | Set_Recv_Bit | Handler_Registered | Call_Lora_Init
  | Create_ReadCMD_Task

text \<open>\<open>init_LoraWAN\<close>: the calls, and the handlers of the parser it leaves.\<close>

definition init_LoraWAN :: "(init_step \<Rightarrow> bool) \<Rightarrow> 'h \<Rightarrow> fault + (lora_call list \<times> 'h list)" where
  "init_LoraWAN ok cm_lorawan_event_handler =
     (case murata_parser_init ok of (up, calls) \<Rightarrow>
      let murata_hdl = (if up then Some [] else None) in
      andthen (murata_parser_add_handler murata_hdl cm_lorawan_event_handler) (\<lambda>hdl.
      Inr (map Parser_Call calls @ [Create_Event_Group, Set_Recv_Bit, Handler_Registered,
             Call_Lora_Init, Create_ReadCMD_Task], case hdl of None \<Rightarrow> [] | Some hs \<Rightarrow> hs)))"

text \<open>If any step of the set-up of the parser fails, \<open>init_LoraWAN\<close> reads through NULL; else the
  handler is registered once, before the first command is sent, and the parser holds all it needs.\<close>

lemma init_LoraWAN_outcome:
  "init_LoraWAN ok h =
    (if \<forall>s. ok s then Inr (map Parser_Call (snd (murata_parser_init ok)) @ [Create_Event_Group, Set_Recv_Bit,
        Handler_Registered, Call_Lora_Init, Create_ReadCMD_Task], [h])
     else Inl Bad_Pointer)"
proof -
  obtain b cs where run: "nmea_parser_init ok = (b, cs)" by (cases "nmea_parser_init ok")
  with init_outcomes [OF run] show ?thesis by (simp add: init_LoraWAN_def same_init)
qed

section \<open>Sensor\<close>

abbreviation (input) SI7021_8_12_RES :: u8 where "SI7021_8_12_RES \<equiv> 0x01"

datatype i2c_setup = Param_Config nat | Driver_Install nat

text \<open>The configuration is a local of \<open>init_si7006\<close> that hides the global one of the same name;
  the transactions use the port of the global one, which nobody sets.\<close>

definition global_si7021_port :: nat where "global_si7021_port = 0"

definition init_si7006 :: "(nat \<Rightarrow> 's bus) \<Rightarrow> 's \<Rightarrow> fault + (i2c_setup list \<times> 's)" where
  "init_si7006 buses s =
     andthen (si7021_set_resolution (buses global_si7021_port) s SI7021_8_12_RES) (\<lambda>(_, s').
     Inr ([Param_Config (i2c_port si7006_config), Driver_Install (i2c_port si7006_config)], s'))"

lemma port_installed:
  "init_si7006 buses s = Inr (calls, s') \<Longrightarrow>
    calls = [Param_Config global_si7021_port, Driver_Install global_si7021_port]"
  by (auto simp: init_si7006_def andthen_eq_Inr global_si7021_port_def si7006_config_def)

text \<open>The sensor is set to 8 bits of humidity and 12 of temperature, keeping its other bits when
  the register could be read.\<close>

lemma init_si7006_resolution:
  assumes "buses 0 s (command_steps 0xE7) = (e1, b1, s1)"
    and "buses 0 s1 register_fetch = (e2, b2, s2)"
    and "e1 = ESP_OK \<and> e2 = ESP_OK \<longrightarrow> b2 = [reg]"
  shows "\<exists>v. init_si7006 buses s = Inr ([Param_Config 0, Driver_Install 0],
      snd (si7021_write_user_register (buses 0) (if e1 = ESP_OK then s2 else s1) v))
    \<and> v AND 0x81 = 0x01
    \<and> v AND NOT 0x81 = (if e1 = ESP_OK \<and> e2 = ESP_OK then reg else 0) AND NOT 0x81"
proof -
  obtain v where v: "si7021_set_resolution (buses 0) s SI7021_8_12_RES
      = Inr (si7021_write_user_register (buses 0) (if e1 = ESP_OK then s2 else s1) v)"
    "v AND 0x81 = SI7021_8_12_RES AND 0x81"
    "v AND NOT 0x81 = (if e1 = ESP_OK \<and> e2 = ESP_OK then reg else 0) AND NOT 0x81"
    using set_resolution_writes [OF assms, of SI7021_8_12_RES] by blast
  then have "init_si7006 buses s = Inr ([Param_Config 0, Driver_Install 0],
      snd (si7021_write_user_register (buses 0) (if e1 = ESP_OK then s2 else s1) v))"
    by (simp add: init_si7006_def global_si7021_port_def si7006_config_def case_prod_unfold)
  with v(2,3) show ?thesis by (intro exI [of _ v]) simp
qed

section \<open>Tasks\<close>

text \<open>The tasks with the stack and the priority they are created with.\<close>

abbreviation (input) CONFIG_MDF_TASK_DEFAULT_PRIOTY :: nat where "CONFIG_MDF_TASK_DEFAULT_PRIOTY \<equiv> 6"
abbreviation (input) CONFIG_NMEA_PARSER_TASK_STACK_SIZE :: nat where "CONFIG_NMEA_PARSER_TASK_STACK_SIZE \<equiv> 2048"
abbreviation (input) CONFIG_NMEA_PARSER_TASK_PRIORITY :: nat where "CONFIG_NMEA_PARSER_TASK_PRIORITY \<equiv> 2"
abbreviation (input) CONFIG_murata_PARSER_TASK_STACK_SIZE :: nat where "CONFIG_murata_PARSER_TASK_STACK_SIZE \<equiv> 4096"
abbreviation (input) CONFIG_murata_PARSER_TASK_PRIORITY :: nat where "CONFIG_murata_PARSER_TASK_PRIORITY \<equiv> 3"

datatype fw_task = Root_Reader | Node_Reader | Bridge_Task | Poll_Task | Modem_Parser | Gps_Parser | Update_Task

fun task_create :: "fw_task \<Rightarrow> nat \<times> nat" where
  "task_create Root_Reader = (4 * 1024, CONFIG_MDF_TASK_DEFAULT_PRIOTY)"
| "task_create Node_Reader = (4 * 1024, CONFIG_MDF_TASK_DEFAULT_PRIOTY)"
| "task_create Bridge_Task = (4 * 1024, 5)"
| "task_create Poll_Task = (1024 * 2, 4)"
| "task_create Modem_Parser = (CONFIG_murata_PARSER_TASK_STACK_SIZE, CONFIG_murata_PARSER_TASK_PRIORITY)"
| "task_create Gps_Parser = (CONFIG_NMEA_PARSER_TASK_STACK_SIZE, CONFIG_NMEA_PARSER_TASK_PRIORITY)"
| "task_create Update_Task = (4 * 1024, CONFIG_MDF_TASK_DEFAULT_PRIOTY)"

text \<open>The tasks that use the message queue have different priorities, so a reader of the mesh may
  interrupt the bridge, and both the modem's parser, at any statement: the schedules of
  \<open>Queue_Race\<close> and of \<open>Answer_Flag\<close> are those of preemption.\<close>

lemma queue_users_preempt:
  "snd (task_create Modem_Parser) < snd (task_create Bridge_Task)"
  "snd (task_create Bridge_Task) < snd (task_create Root_Reader)"
  "snd (task_create Poll_Task) < snd (task_create Bridge_Task)"
  by simp_all

end
