(* ===== verification/Answer_Flag.thy ===== *)
theory Answer_Flag
  imports Murata
begin

text \<open>
  The flag \<open>recv_status\<close> of \<open>CM-MURATA/murata_parser.c\<close>: the parser sets it when the modem says
  \<open>OK\<close>, \<open>sendCMD\<close> clears it before it waits for its turn, and \<open>readCMD\<close> never does. The first part
  is the loop of \<open>readCMD\<close> by itself, the second the two tasks and the parser, statement by
  statement, in any order.
\<close>

section \<open>Polling\<close>

abbreviation (input) AT_RECVB :: string where "AT_RECVB \<equiv> ''AT+RECVB=?'' @ NL"

text \<open>The inner loop of \<open>readCMD\<close>: \<open>resp n\<close> says whether the modem answers transmission \<open>n\<close> before
  the test. The results are \<open>send_fail\<close>, the flag and the wire.\<close>

function poll_loop :: "(nat \<Rightarrow> bool) \<Rightarrow> nat \<Rightarrow> bool \<Rightarrow> wire \<Rightarrow> nat \<times> bool \<times> wire" where
  "poll_loop resp send_fail recv_status w =
     (let w1 = (fst w + 1, snd w @ [AT_RECVB]);
          recv = (recv_status \<or> resp (fst w));
          send_fail1 = send_fail + 1
      in if \<not> recv \<and> send_fail1 < MAX_SEND_FAIL then poll_loop resp send_fail1 recv w1
         else (send_fail1, recv, w1))"
  by pat_completeness auto
termination
  by (relation "measure (\<lambda>(_, send_fail, _, _). MAX_SEND_FAIL - send_fail)") auto

declare poll_loop.simps [simp del]

text \<open>A round of \<open>readCMD\<close>: whether it gives up (and calls \<open>lora_init\<close>), the flag and the wire.\<close>

definition readCMD :: "(nat \<Rightarrow> bool) \<Rightarrow> bool \<times> wire \<Rightarrow> bool \<times> bool \<times> wire" where
  "readCMD resp = (\<lambda>(recv_status, w).
     case poll_loop resp 0 recv_status w of (send_fail, recv, w1) \<Rightarrow> (MAX_SEND_FAIL \<le> send_fail, recv, w1))"

fun readCMD_rounds :: "(nat \<Rightarrow> bool) \<Rightarrow> nat \<Rightarrow> bool \<times> wire \<Rightarrow> bool \<times> bool \<times> wire" where
  "readCMD_rounds resp 0 s = (False, s)"
| "readCMD_rounds resp (Suc n) s =
     (case readCMD resp s of (gave_up, s1) \<Rightarrow> if gave_up then (True, s1) else readCMD_rounds resp n s1)"

lemma poll_silent:
  "\<forall>n. \<not> resp n \<Longrightarrow> f < MAX_SEND_FAIL \<Longrightarrow>
    poll_loop resp f False (c, tx) = (MAX_SEND_FAIL, False, (c + (MAX_SEND_FAIL - f), tx @ replicate (MAX_SEND_FAIL - f) AT_RECVB))"
proof (induction "MAX_SEND_FAIL - f" arbitrary: f c tx)
  case 0
  then show ?case by simp
next
  case (Suc k)
  show ?case
  proof (cases "f + 1 < MAX_SEND_FAIL")
    case True
    have j: "MAX_SEND_FAIL - f = Suc (MAX_SEND_FAIL - (f + 1))" using Suc.prems(2) by linarith
    have "k = MAX_SEND_FAIL - (f + 1)" using Suc.hyps(2) by simp
    from Suc.hyps(1) [OF this Suc.prems(1) True, of "c + 1" "tx @ [AT_RECVB]"] True Suc.prems(1)
    show ?thesis using poll_loop.simps [of resp f False "(c, tx)"] j by simp
  next
    case False
    then have "MAX_SEND_FAIL = Suc f" "MAX_SEND_FAIL - f = 1" using Suc.prems(2) by simp_all
    then show ?thesis using Suc.prems(1) poll_loop.simps [of resp f False "(c, tx)"] by simp
  qed
qed

lemma readCMD_stale: "readCMD resp (True, (c, tx)) = (False, True, (c + 1, tx @ [AT_RECVB]))"
  by (simp add: readCMD_def poll_loop.simps [of resp 0 True] MAX_SEND_FAIL_def)

lemma rounds_stale:
  "readCMD_rounds resp n (True, (c, tx)) = (False, True, (c + n, tx @ replicate n AT_RECVB))"
  by (induction n arbitrary: c tx) (simp_all add: readCMD_stale)

section \<open>The two tasks and the parser\<close>

datatype command_at = C_Reset | C_Wait | C_Clear | C_Send | C_Test | C_Set | C_Done | C_Given_Up

datatype poll_at = P_Wait | P_Clear | P_Send | P_Test | P_Set | P_Given_Up

datatype traffic = Command | Poll | Answer

record flag_state =
  recv_flag :: bool
  recv_bit :: bool
  send_bit :: bool
  c_at :: command_at
  c_fail :: nat
  p_at :: poll_at
  p_fail :: nat
  traffic_log :: "traffic list"

text \<open>A step of \<open>sendCMD\<close> with \<open>chk_ret\<close>, of \<open>readCMD\<close>, or an event of the UART for the parser.
  \<open>None\<close>: the task waits, or is at its end; \<open>C_Given_Up\<close> and \<open>P_Given_Up\<close> go on in \<open>lora_init\<close>
  (\<open>turn_step\<close> in \<open>Murata\<close>).\<close>

datatype flag_event = By_Sender | By_Poller | By_Parser uart_event

fun sender_step :: "flag_state \<Rightarrow> flag_state option" where
  "sender_step s =
     (case c_at s of
        C_Reset \<Rightarrow> Some (s\<lparr>recv_flag := False, c_fail := 0, c_at := C_Wait\<rparr>)
      | C_Wait \<Rightarrow> if recv_bit s then Some (s\<lparr>c_at := C_Clear\<rparr>) else None
      | C_Clear \<Rightarrow> Some (s\<lparr>send_bit := False, c_at := C_Send\<rparr>)
      | C_Send \<Rightarrow> Some (s\<lparr>traffic_log := traffic_log s @ [Command], c_fail := c_fail s + 1, c_at := C_Test\<rparr>)
      | C_Test \<Rightarrow> Some (s\<lparr>c_at := if \<not> recv_flag s \<and> c_fail s < MAX_SEND_FAIL then C_Send
                                 else if MAX_SEND_FAIL \<le> c_fail s then C_Given_Up else C_Set\<rparr>)
      | C_Set \<Rightarrow> Some (s\<lparr>send_bit := True, c_at := C_Done\<rparr>)
      | _ \<Rightarrow> None)"

fun poller_step :: "flag_state \<Rightarrow> flag_state option" where
  "poller_step s =
     (case p_at s of
        P_Wait \<Rightarrow> if send_bit s then Some (s\<lparr>p_at := P_Clear\<rparr>) else None
      | P_Clear \<Rightarrow> Some (s\<lparr>recv_bit := False, p_fail := 0, p_at := P_Send\<rparr>)
      | P_Send \<Rightarrow> Some (s\<lparr>traffic_log := traffic_log s @ [Poll], p_fail := p_fail s + 1, p_at := P_Test\<rparr>)
      | P_Test \<Rightarrow> Some (s\<lparr>p_at := if \<not> recv_flag s \<and> p_fail s < MAX_SEND_FAIL then P_Send
                                 else if MAX_SEND_FAIL \<le> p_fail s then P_Given_Up else P_Set\<rparr>)
      | P_Set \<Rightarrow> Some (s\<lparr>recv_bit := True, p_at := P_Wait\<rparr>)
      | P_Given_Up \<Rightarrow> None)"

fun flag_step :: "flag_event \<Rightarrow> flag_state \<Rightarrow> flag_state option" where
  "flag_step By_Sender s = sender_step s"
| "flag_step By_Poller s = poller_step s"
| "flag_step (By_Parser event) s =
     (case parser_round (recv_flag s) event of
        Inl _ \<Rightarrow> None
      | Inr (recv, _) \<Rightarrow> Some (s\<lparr>recv_flag := recv, traffic_log := traffic_log s @ [Answer]\<rparr>))"

fun flag_run :: "flag_event list \<Rightarrow> flag_state \<Rightarrow> flag_state option" where
  "flag_run [] s = Some s"
| "flag_run (e # es) s = (case flag_step e s of None \<Rightarrow> None | Some s1 \<Rightarrow> flag_run es s1)"

text \<open>A command is about to be sent while nothing else goes on.\<close>

definition command_due :: "traffic list \<Rightarrow> flag_state" where
  "command_due before = \<lparr>recv_flag = True, recv_bit = True, send_bit = True, c_at = C_Reset, c_fail = 0,
     p_at = P_Wait, p_fail = 0, traffic_log = before\<rparr>"

lemma parser_round_keeps: "parser_round True event = Inr (recv, posted) \<Longrightarrow> recv"
  by (auto simp: parser_round_def andthen_eq_Inr split: uart_event.splits if_splits)

text \<open>The commands in the traffic.\<close>

definition commands_in :: "traffic list \<Rightarrow> nat" where
  "commands_in l = length (filter (\<lambda>t. t = Command) l)"

text \<open>Past its wait with the flag set, the command is sent once: the flag stays, since only the
  start of \<open>sendCMD\<close> clears it.\<close>

definition once_inv :: "nat \<Rightarrow> flag_state \<Rightarrow> bool" where
  "once_inv k s \<longleftrightarrow> recv_flag s \<and> (case c_at s of
       C_Clear \<Rightarrow> c_fail s = 0 \<and> commands_in (traffic_log s) = k
     | C_Send \<Rightarrow> c_fail s = 0 \<and> commands_in (traffic_log s) = k
     | C_Test \<Rightarrow> c_fail s = 1 \<and> commands_in (traffic_log s) = k + 1
     | C_Set \<Rightarrow> commands_in (traffic_log s) = k + 1
     | C_Done \<Rightarrow> commands_in (traffic_log s) = k + 1
     | _ \<Rightarrow> False)"

lemma once_step: "once_inv k s \<Longrightarrow> flag_step e s = Some s' \<Longrightarrow> once_inv k s'"
  by (cases e; cases "c_at s"; cases "p_at s")
    (auto simp: once_inv_def commands_in_def MAX_SEND_FAIL_def dest: parser_round_keeps
      split: if_splits sum.splits)

lemma once_run: "once_inv k s \<Longrightarrow> flag_run es s = Some s' \<Longrightarrow> once_inv k s'"
  by (induction es arbitrary: s) (auto simp del: flag_step.simps dest: once_step split: option.splits)

text \<open>An answer of the modem to the poll, between the start of the command and its turn.\<close>

definition stale_schedule :: "int \<Rightarrow> flag_event list" where
  "stale_schedule pos = [By_Poller, By_Poller, By_Sender, By_Poller,
     By_Parser (UART_PATTERN_DET pos (Some (''OK'' @ CRLF))), By_Poller, By_Poller,
     By_Sender, By_Sender, By_Sender, By_Sender, By_Sender]"

lemma stale_run:
  "pos \<noteq> - 1 \<Longrightarrow> \<exists>s. flag_run (stale_schedule pos) (command_due before) = Some s \<and> c_at s = C_Done
    \<and> traffic_log s = before @ [Poll, Answer, Command]"
proof -
  assume pos: "pos \<noteq> - 1"
  have "parser_round recv (UART_PATTERN_DET pos (Some (''OK'' @ CRLF))) = Inr (True, None)" for recv
    using pos by (simp add: parser_round_def esp_handle_uart_pattern_def AT_Decode_def ATError_description_def)
  then show ?thesis by (simp add: stale_schedule_def command_due_def MAX_SEND_FAIL_def)
qed

text \<open>Undisturbed and unanswered, the same command is transmitted ten times.\<close>

lemma undisturbed_command:
  "\<exists>s. flag_run (replicate 23 By_Sender) (command_due before) = Some s \<and> c_at s = C_Given_Up
    \<and> traffic_log s = before @ replicate 10 Command"
  by (simp add: command_due_def MAX_SEND_FAIL_def numeral_eq_Suc)

section \<open>Properties\<close>



text \<open>C36: \<open>readCMD\<close> never clears the flag: once any answer has set it, every further round sends
  one poll and never gives up, however many rounds there are and whatever the modem does; with
  the flag clear, a silent modem is given up after ten polls. So a modem that falls silent is
  noticed only after the next command.\<close>

theorem polling_misses_silence:
  "readCMD_rounds resp n (True, (c, tx)) = (False, True, (c + n, tx @ replicate n AT_RECVB))
    \<and> ((\<forall>n. \<not> resp n) \<longrightarrow> readCMD resp (False, (c, tx)) = (True, False, (c + 10, tx @ replicate 10 AT_RECVB)))"
  using poll_silent [of resp 0 c tx] by (auto simp: rounds_stale readCMD_def MAX_SEND_FAIL_def)

theorem polling_misses_silence_witness:
  "readCMD_rounds (\<lambda>n. False) 100 (True, (0, [])) = (False, True, (100, replicate 100 AT_RECVB))
    \<and> readCMD (\<lambda>n. False) (False, (0, [])) = (True, False, (10, replicate 10 AT_RECVB))"
  using polling_misses_silence [of "\<lambda>n. False" 100 0 "[]"] by simp

end
