(* ===== verification/Spec2Isabelle.thy ===== *)
theory Spec2Isabelle
  imports Msg_Queue Hex_Tools LPP_Decoder Led_Driver Si7021 Nvs_Storage Nmea_Sentences Murata
    Lighting_Uplink Lighting_Downlink Bluetooth Uart_Lifecycle Firmware_Update Startup Boot_Order
    Queue_Race Lighting_Durable Bridge_Delivery Position_Report Lora_Keys Mesh_Nodes Board
    Mesh_Readers Setup_Paths Answer_Flag
begin

text \<open>
  \<^bold>\<open>SmartStreetlight LoRaWAN + WiFi-Mesh: a verification library for the master firmware.\<close>

  The firmware (an ESP32 with ESP-IDF and ESP-MDF) runs a street lamp that is the root of a
  WiFi mesh and talks to the network over a LoRaWAN modem. Sources are under \<open>src/main\<close> and
  \<open>src/components\<close>.

  \<^bold>\<open>The program and its models.\<close>
  \<^item> \<open>Msg_Queue\<close>: \<open>CM-QUEUE/queue.c\<close>, the ring buffer of uplink messages. Record \<open>msg_queue\<close> is the
    struct; the contract is the locale \<open>bounded_fifo\<close>, interpreted twice, on the invariant of
    the ring (\<open>mq\<close>) and on the stronger one that also covers the debug listing (\<open>ring\<close>).
    Clients (\<open>Lighting_Uplink\<close>) use the contract only.
  \<^item> \<open>C_Strings\<close>, \<open>C_Float\<close>: the C library functions and the IEEE arithmetic the code uses
    (round to nearest even on rationals, with infinities and NaN; conversions out of range are
    faults).
  \<^item> \<open>Hex_Tools\<close>: \<open>CM-TOOLS/str2hex.c\<close>, hexadecimal text to bytes and digits to a number.
  \<^item> \<open>Cayenne_LPP\<close>: \<open>CM-LPP-KAMMANIT/CMLPP.c\<close>, the payload encoder, one function per operation;
    \<open>lpp_encode\<close> is the reference encoding of a field.
  \<^item> \<open>LPP_Decoder\<close>: \<open>CM-LPPDEC/CMLPPDec.cpp\<close>, the command decoder, against items as data.
  \<^item> \<open>Led_Driver\<close>: \<open>CM-LED-KAMMANIT/led_driver.c\<close> and the profile \<open>led_status\<close>.
  \<^item> \<open>Si7021\<close>: \<open>CM-SI7021/si_7006.c\<close>, the sensor over an I2C bus that is a parameter.
  \<^item> \<open>Nvs_Storage\<close>: \<open>CM-NVS/nvs_storage.c\<close> and the part of \<open>app_main\<close> that loads the profile and
    the keys; the flash library is the record \<open>nvs_api\<close> with the laws \<open>nvs_laws\<close>.
  \<^item> \<open>Nmea_Parser\<close>, \<open>Nmea_Sentences\<close>: \<open>CM-GPS/nmea_parser.c\<close>, the GPS parser, character by
    character, and its behaviour on whole sentences. \<open>Gps_Position\<close> follows the items of the
    sentences with a position to the latitude and longitude, \<open>Position_Report\<close> goes on to the
    report a lamp makes of them (\<open>add_queue_infomation\<close>).
  \<^item> \<open>Murata\<close>: \<open>CM-MURATA/murata_parser.c\<close>, the modem: received lines, commands with their
    repetition, and the two event bits of the sending and the polling task as a step relation.
    What the initialisation and the bridge rely on is the locale \<open>modem_link\<close>, interpreted on
    \<open>sendCMD\<close>. \<open>Answer_Flag\<close>: the flag \<open>recv_status\<close> between \<open>sendCMD\<close>, \<open>readCMD\<close> and the parser, in
    any order of their statements. \<open>Bridge_Delivery\<close>: the task \<open>Brideg_LORAWAN_TX\<close> with the transmission inside.
  \<^item> \<open>Lighting_Main\<close>: \<open>main/main.c\<close>, reports, commands, mesh messages, the bridge and the timer;
    record \<open>lighting\<close> holds the globals. \<open>Lighting_Codec\<close> relates texts to items,
    \<open>Lighting_Uplink\<close> and \<open>Lighting_Downlink\<close> hold the lemmas of the two directions.
  \<^item> \<open>Bluetooth\<close>: \<open>main/Bluetooth.c\<close>, the service interface. \<open>Lora_Keys\<close>: the keys of the network from
    a command through the flash to the modem and the next start; \<open>nvs_strings\<close> states what the
    flash library documents of strings.
  \<^item> \<open>Mesh_Nodes\<close>: who gets a message of the root (\<open>root_write_msg\<close>) and what the system report lists
    (\<open>print_system_info_timercb\<close>), over the two routing table calls of the mesh library.
  \<^item> \<open>Uart_Lifecycle\<close>: set-up and release of the two UART parsers as the resources they hold, and
    the task around the GPS decoder.
  \<^item> \<open>Firmware_Update\<close>: \<open>ota_task\<close> of \<open>main/main.c\<close> as the list of its calls.
  \<^item> \<open>Startup\<close>: the supply voltage (\<open>CM-TOOLS/voltage.c\<close>), \<open>wifi_init\<close>, the mesh configuration and
    events, the reader of the root's messages and the memory watch.
  \<^item> \<open>Mesh_Readers\<close>: the loops of \<open>root_read_task\<close> and \<open>node_read_task\<close> over everything the mesh may
    give them, and their life as a step relation (\<open>reader_step\<close>): connections create readers
    (\<open>event_loop_cb\<close>), which share the buffer \<open>data_form_node\<close>; each access to it is a step.
  \<^item> \<open>Setup_Paths\<close>: the calls of the set-up that can fail: the flash in \<open>app_main\<close> against
    \<open>wifi_init\<close>, the handlers of the two parsers, \<open>init_LoraWAN\<close> and \<open>init_si7006\<close>; and the
    priorities of the tasks.
  \<^item> \<open>Board\<close>: the ports and pins the components configure, \<open>init_voltage\<close> and the reset line of the
    modem.
  \<^item> \<open>Lighting_System\<close>: the timer, the readers, the bridge and the Bluetooth callback as events on one
    state, in any order, on the contracts of \<open>Event_Runs\<close> (locales \<open>preserved\<close> and
    \<open>ordered_output\<close>); \<open>Lighting_Durable\<close> relates the profile in memory to the one in the flash.
  \<^item> \<open>Queue_Race\<close>: the queue statement by statement, under preemption.
  \<^item> \<open>Boot_Order\<close>: the calls of \<open>app_main\<close> against the tasks they start, as runs of a step function.
  \<^item> this theory: the properties that span components.

  \<^bold>\<open>How the parts interact.\<close> A line of the modem (\<open>esp_handle_uart_pattern\<close>) is posted to
  \<open>cm_lorawan_event_handler\<close>, which decodes it (\<open>test\<close>, \<open>ParseCMLPP\<close>) and sets the lamp, answers
  with a position or passes the text on to the mesh. The timer \<open>streetlight_working\<close> makes a
  report a minute (\<open>add_queue_lpp_root\<close>), \<open>root_read_task\<close> adds those of other lamps, and
  \<open>Brideg_LORAWAN_TX\<close> takes them from the queue and sends them (\<open>mesh_reports_transmitted\<close>). Bluetooth commands change the
  profile, and a group command reaches the mesh through the timer.

  \<^bold>\<open>Conventions.\<close> Undefined behaviour of C is a value of \<open>fault\<close>, on the left of a sum; \<open>andthen\<close>
  sequences. \<open>char\<close> is unsigned and \<open>long\<close> has 32 bits, as on the target. Memory from \<open>malloc\<close> and
  uninitialised arrays are arguments. \<open>pad\<close> is the number of bytes behind two arrays that may be
  overwritten: with 0, the standard's rule, no report is ever queued (\<open>root_report\<close>).

  \<^bold>\<open>What is proved.\<close> Memory safety with exact conditions (queue, GPS items, payload block,
  51-byte blocks, \<open>strH\<close>, the bridge's buffer, the mesh id); functional behaviour on every
  branch of the encoder, decoder, driver, sensor and storage; round trips (payload, hexadecimal
  text, profile); refinement of the queue, of the sentences and of the commands; equivalence
  of the loop that reads the mesh with the reference filter of repetitions
  (\<open>root_reader_equals_reference\<close>), which every run with one connection obeys
  (\<open>one_reader_in_order\<close>), while two readers can lose a report
  (\<open>reconnected_readers_lose_report\<close>); liveness of
  the modem's initialisation, of the delivery of everything that waits (\<open>every_message_transmitted\<close>)
  and the runs in which its two tasks block or disturb each other
  (\<open>polling_task_deadlock\<close>, \<open>stale_answer_stops_retries\<close>, \<open>polling_misses_silence\<close>); accuracy of a position from
  the characters of its sentence (\<open>sentence_position\<close>) to the bytes of the report
  (\<open>position_end_to_end\<close>), and of the keys from Bluetooth to the modem (\<open>keys_reach_modem\<close>);
  over whole runs of the system, in any order of events, messages leave in order
  (\<open>messages_leave_in_order\<close>) and a restart finds the profile in use (\<open>profile_survives_restart\<close>),
  while preemption inside the unlocked queue can lose messages (\<open>racing_queue_calls\<close>);
  termination of the update, and the order of set-up and tasks (\<open>queue_used_before_init\<close>: the
  mesh reader can use the queue before it exists, nobody else can).
  Several properties state what the code does where a comment or the protocol says otherwise.

  \<^bold>\<open>Fuel.\<close> \<open>sendCMD\<close> and \<open>lora_init\<close> recurse without a bound; their depth is an argument, 1 is
  enough for a modem that answers within nine transmissions (\<open>initialisation_in_order\<close>), and no
  depth is enough for a silent one. \<open>clear_loop\<close> needs 2 (\<open>clear_loop_ends\<close>). The connection loop
  of the update is a partial function, \<open>None\<close> exactly for a root without a server, and so is the
  listing of the nodes with its 8-bit counter, which always ends (\<open>list_nodes_ends\<close>). Every other
  loop is a total function.

  \<^bold>\<open>Not modelled.\<close> \<open>sendData\<close>, which only hands a text to the UART driver, log output, real time (delays are not steps), and
  everything outside \<open>src/main\<close> and \<open>src/components\<close>: ESP-IDF, ESP-MDF, cJSON, the C library
  beyond the functions named above; \<open>build/include/sdkconfig.h\<close> is generated (the values the modelled code reads are
  definitions: the capacity of the mesh, the GPS sentences and buffer, the task priorities). cJSON's lookup, the
  address conversions of ESP-MDF, the flash, the bus, the modem and the HTTP client are
  parameters with their documented behaviour as hypotheses.
\<close>

section \<open>From the modem to the lamp\<close>

lemma hex_digit_char: "n < 16 \<Longrightarrow> \<not> c_isspace (digit_char up n) \<and> digit_char up n \<noteq> NUL"
  by simp

lemma command_text_chars: "c \<in> set (command_text up is) \<Longrightarrow> \<not> c_isspace c \<and> c \<noteq> NUL"
proof -
  have "\<forall>c \<in> set (print_byte up b). \<not> c_isspace c \<and> c \<noteq> NUL" for b
    using hex_digit_char [of "unat b div 16" up] hex_digit_char [of "unat b mod 16" up]
    by (simp add: print_byte_def)
  then show "c \<in> set (command_text up is) \<Longrightarrow> \<not> c_isspace c \<and> c \<noteq> NUL"
    by (auto simp: command_text_def print_bytes_def)
qed

text \<open>C1: A command line of the modem, \<open>port:hex\<close>, of at most 51 characters and without a zero
  byte is delivered to the handler and carried out as the action its items ask for.\<close>

theorem downlink_end_to_end:
  assumes "pos \<noteq> - 1" and "ds \<noteq> []" and "\<forall>d \<in> set ds. d < 10" and "is \<noteq> []"
    and "\<forall>i \<in> set is. item_wf i" and "0 \<notin> set (items_bytes is)"
    and "length ds + 2 * length (items_bytes is) \<le> 48"
    and "finds_first env" and "length (heap_block env) = 51"
  shows "\<exists>data msg. parser_round recv (UART_PATTERN_DET pos
        (Some (map (digit_char False) ds @ CHR '':'' # command_text up is @ CRLF))) = Inr (recv, Some data)
    \<and> cstr data = Inr msg
    \<and> cm_lorawan_event_handler env st rows True msg
      = perform env st rows msg (command_action (mac_string (sta_mac env)) (mac_hex2str env) is)"
proof -
  let ?msg = "command_text up is"
  let ?line = "map (digit_char False) ds @ CHR '':'' # ?msg @ CRLF"
  have ne: "?msg \<noteq> []"
    using assms(4,5) item_bytes_ge2 [of "hd is"]
    by (cases "is") (auto simp: command_text_def print_bytes_def print_byte_def)
  have len: "length ?line \<le> 51" using assms(7) by (simp add: command_text_def)
  obtain data where data: "esp_handle_uart_pattern pos (Some ?line) = Inr (AT_UNKNOW, Some data)"
      "cstr data = Inr ?msg"
    using uart_line_posted [OF assms(1-3) ne, of] command_text_chars len by auto
  have "decode_text env ?msg = Inr (items_json (mac_hex2str env) is)"
    unfolding command_text_def by (rule decode_items_text) (use assms in auto)
  from handler_on_items [OF this assms(8) command_text_plain(1)] data show ?thesis
    by (auto simp: parser_round_def)
qed

theorem downlink_end_to_end_witness:
  "\<exists>data msg. parser_round False (UART_PATTERN_DET 31
        (Some (''2:'' @ command_text False [D_Nodeid [180, 230, 45, 222, 38, 49], D_Color 2700, D_Brightness 50, D_Type 1]
          @ CRLF))) = Inr (False, Some data)
    \<and> cstr data = Inr msg
    \<and> cm_lorawan_event_handler sample_env sample_lamp [] True msg = Inr (set_light sample_lamp 2700 50)"
proof -
  have d: "map (digit_char False) [2] = ''2''" by code_simp
  show ?thesis
    using downlink_end_to_end [of 31 "[2]" "[D_Nodeid [180, 230, 45, 222, 38, 49], D_Color 2700, D_Brightness 50, D_Type 1]"
        sample_env False False sample_lamp "[]"]
    unfolding d by (simp add: command_action_def mac_string_def be16_def byte_def)
qed

lemma length_print_small:
  assumes "n < 100"
  shows "length (print_int (int n)) \<le> 2"
proof -
  have "n div 10 < 10" using assms by simp
  then have "length (print_dec n) \<le> 2"
    by (simp add: print_base.simps [of 10 n] print_base.simps [of 10 "n div 10"])
  then show ?thesis by (simp add: print_int_def)
qed

section \<open>From the readings to the modem\<close>

text \<open>C2: When nothing is queued, a report made from readings that can be converted is what the
  next round of the bridge hands to the modem, complete whatever the port: a command whose
  hexadecimal text decodes to the concatenated fields of the report.\<close>

theorem uplink_end_to_end:
  assumes "f_to_i32 humidity = Inr h"
    and "list_all2 (\<lambda>f bs. lpp_encode (mac_str2hex env) f = Inr bs)
      (root_fields env st temperature h temperature2 rssi) bss"
    and "length (heap_block env) = 51" and "0 < pad env"
    and "ring_ok n (msgs st)" and "queue_items (msgs st) = []"
  shows "\<exists>st1 st2 msg. add_queue_lpp_root env st temperature humidity temperature2 rssi = Inr st1
    \<and> bridge_round st1 r = Inr (Some (send_command (r mod 10 + 1) msg), st2)
    \<and> unhex msg = concat bss \<and> queue_items (msgs st2) = []"
proof -
  let ?msg = "print_bytes True (concat bss)"
  obtain st1 where st1: "add_queue_lpp_root env st temperature humidity temperature2 rssi = Inr st1"
      "queued n st ?msg st1"
    using add_queue_lpp_root_spec [OF assms(1-3,5)] assms(4) by (auto split: if_splits)
  have "0 < n" using assms(5) by (simp add: ring_ok_def queue_inv_def)
  then have q: "ring_ok n (msgs st1)" "queue_items (msgs st1) = [?msg]"
    using st1(2) assms(6) by (auto simp: queued_def)
  have "length (print_int (int (r mod 10 + 1))) \<le> 2" by (rule length_print_small) simp
  then have "length (print_int (int (r mod 10 + 1))) + length ?msg \<le> 126"
    using root_length [OF assms(2)] by simp
  with bridge_round_spec [OF q, of r] st1(1) show ?thesis
    by (auto split: if_splits intro!: exI [of _ ?msg])
qed

theorem uplink_end_to_end_witness:
  "\<exists>st1 st2 msg. add_queue_lpp_root sample_env sample_lamp (Fin 25) (Fin 60) (Fin 25) (- 60) = Inr st1
    \<and> bridge_round st1 9 = Inr (Some (send_command 10 msg), st2) \<and> queue_items (msgs st2) = []"
proof -
  obtain h bss where "f_to_i32 (Fin 60) = Inr h" "list_all2 (\<lambda>f bs. lpp_encode (mac_str2hex sample_env) f = Inr bs)
      (root_fields sample_env sample_lamp (Fin 25) h (Fin 25) (- 60)) bss"
    using reportable_encodes [OF sample_reportable] by blast
  from uplink_end_to_end [OF this _ _ sample_ring, of 9] show ?thesis by auto
qed

section \<open>From the mesh to the modem\<close>



section \<open>From the satellites to the report\<close>

lemma coord_bounds: "coord s v \<Longrightarrow> 0 \<le> v \<and> v \<le> 181"
proof -
  assume "coord s v"
  then obtain deg m where c: "deg \<le> 180" "0 \<le> m" "m < 60" "v = of_nat deg + m / 60" by (auto simp: coord_def)
  have "(of_nat deg :: rat) \<le> 180" using c(1) by simp
  then show "0 \<le> v \<and> v \<le> 181" using c(2-4) by auto
qed

text \<open>C4: The characters of a sentence with a position and the right checksum that completes a set
  become, when the position is asked for, one queued message: the hexadecimal text of the lamp's
  id, the position within \<open>1/6000\<close> of a degree of what the sentence says, the mesh id and the
  channel. South or west the scaled value is negative, its conversion to \<open>unsigned long\<close> is
  undefined and there is no report.\<close>

theorem position_end_to_end:
  assumes "gps_wf g" and "(nm, k, length pre) \<in> set position_kinds" and "plain t1" and "plain t2"
    and "\<forall>t \<in> set (pre @ rest). item_ok t" and "item_ok hh" and "length rest \<le> 240"
    and "coord lat v" and "coord lon u" and "ns \<in> {''N'', ''S''}" and "ew \<in> {''E'', ''W''}"
    and "xor_chars 0 (body (t1 # t2 # nm) (pre @ [lat, ns, lon, ew] @ rest)) = word_of_int (strtol hh 16)"
    and "ucast (parsed_statement g OR push_bit (unat k) 1) AND all_statements g = all_statements g"
    and "1 / 1000 \<le> v" "1 / 1000 \<le> u"
    and "meshid (status_led st) = map int ds" "\<forall>d \<in> set ds. d < 10" "length ds \<le> 6"
    and "length rows = 6" "\<forall>r \<in> set rows. length r = 3"
    and "length (heap_block env) = 51" "ring_ok n (msgs st)" "pad env \<noteq> 0"
  shows "\<exists>g'. gps_decode g (sentence (t1 # t2 # nm) (pre @ [lat, ns, lon, ew] @ rest) hh @ [NUL]) = Inr g'
    \<and> (let st1 = st\<lparr>position := gps_info g'\<rparr> in
       if ns = ''N'' \<and> ew = ''E''
       then \<exists>st' la lo. add_queue_infomation env st1 rows = Inr st'
         \<and> queued n st1 (print_bytes True (concat (position_bytes env st1 (digits_value 10 ds) la lo))) st'
         \<and> \<bar>of_nat (unat la) / 10000 - v\<bar> \<le> 1 / 6000 \<and> \<bar>of_nat (unat lo) / 10000 - u\<bar> \<le> 1 / 6000
       else add_queue_infomation env st1 rows = Inl Float_Range)"
proof -
  obtain g' where g': "gps_decode g (sentence (t1 # t2 # nm) (pre @ [lat, ns, lon, ew] @ rest) hh @ [NUL]) = Inr g'"
      "near (latitude (parent g')) (if ns = ''S'' then - v else v)"
      "near (longitude (parent g')) (if ew = ''W'' then - u else u)" "gps_info g' = parent g'"
    using position_decoded [OF assms(1-11)] assms(12,13) by auto
  let ?st = "st\<lparr>position := gps_info g'\<rparr>"
  let ?v = "if ns = ''S'' then - v else v" and ?u = "if ew = ''W'' then - u else u"
  have near: "near (latitude (position ?st)) ?v" "near (longitude (position ?st)) ?u" using g'(2-4) by simp_all
  have b: "1 / 1000 \<le> \<bar>?v\<bar>" "\<bar>?v\<bar> \<le> 181" "1 / 1000 \<le> \<bar>?u\<bar>" "\<bar>?u\<bar> \<le> 181"
    using coord_bounds [OF assms(8)] coord_bounds [OF assms(9)] assms(14,15) by auto
  have st: "meshid (status_led ?st) = map int ds" "ring_ok n (msgs ?st)" using assms(16,22) by simp_all
  have quadrant: "(0 < ?v \<and> 0 < ?u) = (ns = ''N'' \<and> ew = ''E'')"
    using assms(10,11,14,15) by auto
  note report = position_report [OF near b st(1) assms(17-21) st(2) assms(23), unfolded quadrant]
  show ?thesis
  proof (cases "ns = ''N'' \<and> ew = ''E''")
    case True
    with report g'(1) show ?thesis by (intro exI [of _ g']) (auto simp: Let_def)
  next
    case False
    with report g'(1) show ?thesis by (intro exI [of _ g']) (simp add: Let_def)
  qed
qed

theorem position_end_to_end_witness:
  "\<exists>g'. gps_decode (initial_gps\<lparr>parsed_statement := 0x5E\<rparr>)
      (sentence ''GNGLL'' [''1345.5'', ''S'', ''10030.75'', ''E'', ''123519'', ''A''] ''12'' @ [NUL]) = Inr g'
    \<and> add_queue_infomation sample_env (sample_lamp\<lparr>position := gps_info g'\<rparr>) (replicate 6 ''xyz'') = Inl Float_Range"
proof -
  let ?g = "initial_gps\<lparr>parsed_statement := 0x5E\<rparr>"
  have g: "gps_wf ?g" using initial_wf by (simp add: gps_wf_def)
  have kind: "(''GLL'', STATEMENT_GLL, length []) \<in> set position_kinds" by (simp add: position_kinds_def)
  have talker: "plain CHR ''G''" "plain CHR ''N''" by (simp_all add: plain_def)
  have items: "\<forall>t \<in> set ([] @ [''123519'', ''A'']). item_ok t" "item_ok ''12''" "length [''123519'', ''A''] \<le> 240"
    by (simp_all add: item_ok_def plain_def)
  have hemi: "''S'' \<in> {''N'', ''S''}" "''E'' \<in> {''E'', ''W''}" by simp_all
  have sum: "xor_chars 0 (body (CHR ''G'' # CHR ''N'' # ''GLL'') ([] @ [''1345.5'', ''S'', ''10030.75'', ''E''] @ [''123519'', ''A'']))
      = word_of_int (strtol ''12'' 16)" by code_simp
  have set: "ucast (parsed_statement ?g OR push_bit (unat STATEMENT_GLL) 1) AND all_statements ?g = all_statements ?g"
    by (simp add: initial_gps_def)
  have deg: "1 / 1000 \<le> (13 + 455 / 600 :: rat)" "1 / 1000 \<le> (100 + 3075 / 6000 :: rat)" by simp_all
  have ids: "meshid (status_led sample_lamp) = map int [1, 2, 3, 4, 5, 6]" by (simp add: default_profile_def)
  have ds: "\<forall>d \<in> set [1, 2, 3, 4, 5, 6 :: nat]. d < 10" "length [1, 2, 3, 4, 5, 6 :: nat] \<le> 6"
    "length (replicate 6 ''xyz'') = 6" "\<forall>r \<in> set (replicate 6 ''xyz''). length r = 3" by simp_all
  have env: "length (heap_block sample_env) = 51" "pad sample_env \<noteq> 0" by simp_all
  show ?thesis
    using position_end_to_end [OF g kind talker items sample_coords hemi sum set deg ids ds env(1) sample_ring(1) env(2)]
    by (auto simp: Let_def simp del: gps_decode.simps)
qed

section \<open>From the service interface to the mesh\<close>

text \<open>C3: A group command given over Bluetooth is passed on to the mesh by the next tick of the
  timer, once: the text sent decodes to the items of the group command, when no byte of it
  is zero, and the flag is cleared.\<close>

theorem group_command_reaches_mesh:
  assumes "int_of benv attributes ''COLOR'' = Inr (int c)" and "int_of benv attributes ''BRIGHT'' = Inr (int b)"
    and "b < 256" and "c < 65536" and "length (recvb_form_ble (lamp st)) = 32"
    and "NUL \<notin> set buf" and "length buf + length (print_int (int len)) < 230"
    and "counter_sec (lamp st) \<noteq> 59" and "0 \<notin> set (items_bytes (group_items c b))"
    and "length (heap_block env) = 51"
  shows "\<exists>st1 l2 msg. test_control_gr benv attributes buf len st = Inr st1
    \<and> streetlight_working env (lamp st1) temperature humidity temperature2 rssi = Inr l2
    \<and> mesh_out l2 = mesh_out (lamp st) @ [msg] \<and> \<not> ble_cmd_to_gr l2
    \<and> decode_text env msg = Inr (items_json (mac_hex2str env) (group_items c b))"
proof -
  let ?is = "group_items c b"
  obtain st1 where st1: "test_control_gr benv attributes buf len st = Inr st1" "ble_cmd_to_gr (lamp st1)"
      "cstr (recvb_form_ble (lamp st1)) = Inr (command_text False ?is)"
      "mesh_out (lamp st1) = mesh_out (lamp st)" "counter_sec (lamp st1) = counter_sec (lamp st)"
    using test_control_gr_run [OF assms(1-3) assms(4-7)] by (auto simp: command_text_def)
  have "decode_text env (command_text False ?is) = Inr (items_json (mac_hex2str env) ?is)"
    unfolding command_text_def
    by (rule decode_items_text) (use assms(9,10) in \<open>auto simp: group_items_def\<close>)
  then show ?thesis using st1 assms(8)
    by (simp add: streetlight_working_def root_write_plain command_text_plain)
qed

theorem group_command_reaches_mesh_witness:
  "\<exists>st1 l2 msg. test_control_gr sample_ble [AddNumber ''BRIGHT'' 10, AddNumber ''COLOR'' 3000] ''{}'' 2
        (sample_spp\<lparr>lamp := sample_lamp\<lparr>counter_sec := 7\<rparr>\<rparr>) = Inr st1
    \<and> streetlight_working sample_env (lamp st1) NaN NaN NaN 0 = Inr l2 \<and> mesh_out l2 = [msg]
    \<and> decode_text sample_env msg = Inr (items_json (print_bytes False) (group_items 3000 10))"
proof -
  have "length (print_int 2) = 1" "items_bytes (group_items 3000 10) = [150, 1, 2, 3, 4, 5, 6, 135, 11, 184, 111, 10, 155, 2]"
    by code_simp+
  moreover have "length (recvb_form_ble sample_lamp) = 32" by (simp add: sample_lamp_def)
  ultimately show ?thesis
    using group_command_reaches_mesh [of sample_ble "[AddNumber ''BRIGHT'' 10, AddNumber ''COLOR'' 3000]" 3000 10
        "sample_spp\<lparr>lamp := sample_lamp\<lparr>counter_sec := 7\<rparr>\<rparr>" "''{}''" 2 sample_env NaN NaN NaN 0]
    by (auto simp: sample_int_of)
qed

end
